(* ===== verification/Prelude.thy ===== *)
theory Prelude
  imports Main "HOL-Library.AList" "HOL-Library.Word"
begin

text \<open>
  Shared ground of the development: the named collections, the byte and integer types of
  the model, the parts of Go's \<^verbatim>\<open>strconv\<close>, \<^verbatim>\<open>bytes\<close> and \<^verbatim>\<open>time\<close> packages that toykv
  calls, and the generic list and association-list lemmas the components share.

  Go strings and byte slices are \<^typ>\<open>string\<close> (a list of 8-bit characters). Signed 64-bit
  integers are \<^typ>\<open>int\<close> with the wrap-around written out (\<open>wrap64\<close>); a Go map is an
  association list with distinct keys, and an iteration over it takes the visiting order as
  an argument.
\<close>

section \<open>Collections\<close>

named_theorems go_simps \<open>evaluation rules for the modelled standard library\<close>
named_theorems store_defs \<open>definitions of the store operations\<close>
named_theorems resp_defs \<open>definitions of the codec\<close>
named_theorems server_defs \<open>definitions of the command handlers\<close>

type_synonym bytes = string

section \<open>Generic lemmas\<close>

lemma map_of_update_eq [simp]: "map_of (AList.update k v al) = (map_of al)(k \<mapsto> v)"
  by (rule update_conv')

lemma map_of_delete_eq [simp]: "map_of (AList.delete k al) = (map_of al)(k := None)"
  by (rule delete_conv')

lemma distinct_keys_update [simp]:
  "distinct (map fst al) \<Longrightarrow> distinct (map fst (AList.update k v al))"
  by (rule distinct_update)

lemma distinct_keys_delete [simp]:
  "distinct (map fst al) \<Longrightarrow> distinct (map fst (AList.delete k al))"
  by (rule distinct_delete)

lemma set_alist_eq:
  "distinct (map fst al) \<Longrightarrow> (k, v) \<in> set al \<longleftrightarrow> map_of al k = Some v"
  by (auto dest: map_of_SomeD)

lemma set_update_alist:
  "distinct (map fst al) \<Longrightarrow>
   set (AList.update k v al) = insert (k, v) {p \<in> set al. fst p \<noteq> k}"
  by (induction al) (auto simp: image_iff)

lemma set_delete_alist: "set (AList.delete k al) = {p \<in> set al. fst p \<noteq> k}"
  by (induction al) auto

lemma alist_Nil_iff: "al = [] \<longleftrightarrow> (\<forall>k. map_of al k = None)"
  by (cases al) (auto intro: exI [of _ "fst (hd al)"])

lemma length_alist_card:
  "distinct (map fst al) \<Longrightarrow> length al = card (dom (map_of al))"
  by (metis distinct_card dom_map_of_conv_image_fst length_map list.set_map)

lemma length_delete_alist:
  assumes "distinct (map fst al)"
  shows "length (AList.delete k al) = length al - (if map_of al k = None then 0 else 1)"
  using assms by (simp add: length_alist_card) (auto simp: finite_dom_map_of domIff)

lemma length_update_alist:
  assumes "distinct (map fst al)"
  shows "length (AList.update k v al) = length al + (if map_of al k = None then 1 else 0)"
  using assms by (simp add: length_alist_card finite_dom_map_of)
    (auto simp: card_insert_if finite_dom_map_of domIff)

lemma fst_filter_mem: "k \<in> set (map fst (filter (\<lambda>(k, x). P k x) xs)) \<longleftrightarrow> (\<exists>x. (k, x) \<in> set xs \<and> P k x)"
  by (induction xs) auto

lemma nth_drop_Cons: "i < length xs \<Longrightarrow> drop i xs = xs ! i # drop (Suc i) xs"
  by (rule Cons_nth_drop_Suc [symmetric])

lemma take_while_append_hit:
  "(\<forall>x \<in> set xs. P x) \<Longrightarrow> \<not> P y \<Longrightarrow> takeWhile P (xs @ y # ys) = xs"
  by (induction xs) auto

lemma drop_while_append_hit:
  "(\<forall>x \<in> set xs. P x) \<Longrightarrow> \<not> P y \<Longrightarrow> dropWhile P (xs @ y # ys) = y # ys"
  by (induction xs) auto

section \<open>Machine integers\<close>

text \<open>Two's-complement reading of an integer modulo \<open>2 ^ 64\<close>: Go's int64 arithmetic.\<close>

definition MaxInt64 :: int where "MaxInt64 = 9223372036854775807"
definition MinInt64 :: int where "MinInt64 = -9223372036854775808"
definition MaxUint64 :: nat where "MaxUint64 = 18446744073709551615"

definition int64 :: "int \<Rightarrow> bool" where
  "int64 x \<longleftrightarrow> MinInt64 \<le> x \<and> x \<le> MaxInt64"

definition wrap64 :: "int \<Rightarrow> int" where
  "wrap64 x = (x + 9223372036854775808) mod 18446744073709551616 - 9223372036854775808"

lemma int64_wrap64 [simp]: "int64 (wrap64 x)"
proof -
  have "0 \<le> (x + 9223372036854775808) mod 18446744073709551616"
    and "(x + 9223372036854775808) mod 18446744073709551616 < 18446744073709551616"
    by simp_all
  then show ?thesis by (simp add: int64_def wrap64_def MinInt64_def MaxInt64_def)
qed

lemma wrap64_id: "int64 x \<Longrightarrow> wrap64 x = x"
  by (simp add: int64_def wrap64_def MinInt64_def MaxInt64_def)

lemma int64_div: "int64 x \<Longrightarrow> 0 < d \<Longrightarrow> int64 (x div d)"
proof -
  assume x: "int64 x" and d: "0 < d"
  have "x div d \<le> MaxInt64"
  proof (cases "0 \<le> x")
    case True
    have "x div d \<le> x div 1" using True d by (intro zdiv_mono2) auto
    with x show ?thesis by (simp add: int64_def)
  next
    case False
    then have "x div d < 0" using d by (simp add: div_neg_pos_less0)
    then show ?thesis by (simp add: MaxInt64_def)
  qed
  moreover have "MinInt64 \<le> x div d"
  proof (cases "0 \<le> x")
    case True
    then have "0 \<le> x div d" using d by (simp add: pos_imp_zdiv_nonneg_iff)
    then show ?thesis by (simp add: MinInt64_def)
  next
    case False
    have "x div 1 \<le> x div d" using False d by (intro zdiv_mono2_neg) auto
    with x show ?thesis by (simp add: int64_def)
  qed
  ultimately show ?thesis by (simp add: int64_def)
qed

section \<open>Decimal text\<close>

definition digitChar :: "nat \<Rightarrow> char" where
  "digitChar d = ''0123456789'' ! d"

definition isDigit :: "char \<Rightarrow> bool" where
  "isDigit c \<longleftrightarrow> c \<in> set ''0123456789''"

definition digitVal :: "char \<Rightarrow> nat" where
  "digitVal c = of_char c - 48"

fun formatNat :: "nat \<Rightarrow> string" where
  "formatNat n = (if n < 10 then [digitChar n] else formatNat (n div 10) @ [digitChar (n mod 10)])"

declare formatNat.simps [simp del]

text \<open>\<^verbatim>\<open>strconv.FormatInt(n, 10)\<close> (and \<^verbatim>\<open>Itoa\<close>); \<^verbatim>\<open>FormatUint\<close> is \<^const>\<open>formatNat\<close>.\<close>

definition formatInt :: "int \<Rightarrow> string" where
  "formatInt n = (if n < 0 then CHR ''-'' # formatNat (nat (- n)) else formatNat (nat n))"

fun digitsVal :: "nat \<Rightarrow> string \<Rightarrow> nat" where
  "digitsVal acc [] = acc"
| "digitsVal acc (c # cs) = digitsVal (acc * 10 + digitVal c) cs"

text \<open>
  \<^verbatim>\<open>strconv.ParseUint(s, 10, 64)\<close>: at least one digit, nothing but digits, at most
  \<open>2 ^ 64 - 1\<close>. Every failure (syntax or range) is \<^const>\<open>None\<close>; the callers only test for
  an error.
\<close>

definition parseUint :: "string \<Rightarrow> nat option" where
  "parseUint s =
     (if s \<noteq> [] \<and> list_all isDigit s
      then (let n = digitsVal 0 s in if n \<le> MaxUint64 then Some n else None)
      else None)"

text \<open>
  \<^verbatim>\<open>strconv.ParseInt(s, 10, 64)\<close> (on a 64-bit platform \<^verbatim>\<open>Atoi\<close> accepts the same
  strings): an optional sign, then an unsigned number whose value fits an int64.
\<close>

definition parseInt :: "string \<Rightarrow> int option" where
  "parseInt s =
     (let neg = (s \<noteq> [] \<and> hd s = CHR ''-'');
          body = (if s \<noteq> [] \<and> (hd s = CHR ''-'' \<or> hd s = CHR ''+'') then tl s else s)
      in case parseUint body of
           None \<Rightarrow> None
         | Some un \<Rightarrow>
             if \<not> neg \<and> int un > MaxInt64 then None
             else if neg \<and> int un > MaxInt64 + 1 then None
             else Some (if neg then - int un else int un))"

lemma less_ten_cases:
  "(n::nat) < 10 \<Longrightarrow>
   n = 0 \<or> n = 1 \<or> n = 2 \<or> n = 3 \<or> n = 4 \<or> n = 5 \<or> n = 6 \<or> n = 7 \<or> n = 8 \<or> n = 9"
  by presburger

lemma digitVal_digitChar [simp]: "d < 10 \<Longrightarrow> digitVal (digitChar d) = d"
  by (drule less_ten_cases, elim disjE; simp add: digitVal_def digitChar_def)

lemma isDigit_digitChar [simp]: "d < 10 \<Longrightarrow> isDigit (digitChar d)"
  by (drule less_ten_cases, elim disjE; simp add: isDigit_def digitChar_def)

lemma digitsVal_append: "digitsVal acc (xs @ ys) = digitsVal (digitsVal acc xs) ys"
  by (induction xs arbitrary: acc) auto

lemma formatNat_not_Nil [simp]: "formatNat n \<noteq> []"
  by (subst formatNat.simps) simp

lemma formatNat_digits: "list_all isDigit (formatNat n)"
proof (induction n rule: formatNat.induct)
  case (1 n)
  then show ?case by (subst formatNat.simps) (simp add: list_all_iff)
qed

lemma digitsVal_formatNat: "digitsVal 0 (formatNat n) = n"
proof (induction n rule: formatNat.induct)
  case (1 n)
  show ?case
  proof (cases "n < 10")
    case True
    then show ?thesis by (subst formatNat.simps) simp
  next
    case False
    with "1" have "digitsVal 0 (formatNat (n div 10)) = n div 10" by simp
    with False show ?thesis by (subst formatNat.simps) (simp add: digitsVal_append)
  qed
qed

lemma parseUint_formatNat: "n \<le> MaxUint64 \<Longrightarrow> parseUint (formatNat n) = Some n"
  by (simp add: parseUint_def formatNat_digits digitsVal_formatNat)

lemma formatNat_head:
  obtains c cs where "formatNat n = c # cs" and "isDigit c"
  using formatNat_digits [of n] by (cases "formatNat n") auto

lemma isDigit_not_sign: "isDigit c \<Longrightarrow> c \<noteq> CHR ''-'' \<and> c \<noteq> CHR ''+''"
  by (auto simp: isDigit_def)

lemma isDigit_not_ctrl: "isDigit c \<Longrightarrow> c \<noteq> CHR 0x0D \<and> c \<noteq> CHR 0x0A"
  by (auto simp: isDigit_def)

theorem parseInt_formatInt: "int64 n \<Longrightarrow> parseInt (formatInt n) = Some n"
proof (cases "n < 0")
  case True
  assume "int64 n"
  with True have b: "nat (- n) \<le> MaxUint64" "\<not> int (nat (- n)) > MaxInt64 + 1"
    by (auto simp: int64_def MinInt64_def MaxInt64_def MaxUint64_def)
  with True show ?thesis
    by (simp add: formatInt_def parseInt_def Let_def parseUint_formatNat)
next
  case False
  assume "int64 n"
  with False have b: "nat n \<le> MaxUint64" "\<not> int (nat n) > MaxInt64"
    by (auto simp: int64_def MinInt64_def MaxInt64_def MaxUint64_def)
  obtain c cs where c: "formatNat (nat n) = c # cs" "isDigit c" by (rule formatNat_head)
  have "parseUint (c # cs) = Some (nat n)"
    using parseUint_formatNat [OF b(1)] c(1) by simp
  with False b c isDigit_not_sign [OF c(2)] show ?thesis
    by (simp add: formatInt_def parseInt_def Let_def)
qed

lemma parseInt_range: "parseInt s = Some n \<Longrightarrow> int64 n"
  by (auto simp: parseInt_def Let_def int64_def MinInt64_def MaxInt64_def
      split: option.splits if_splits)

lemma formatInt_no_ctrl:
  "c \<in> set (formatInt n) \<Longrightarrow> c \<noteq> CHR 0x0D \<and> c \<noteq> CHR 0x0A"
proof -
  have "c \<in> set (formatNat m) \<Longrightarrow> c \<noteq> CHR 0x0D \<and> c \<noteq> CHR 0x0A" for m
    using formatNat_digits [of m] isDigit_not_ctrl by (auto simp: list_all_iff)
  then show "c \<in> set (formatInt n) \<Longrightarrow> c \<noteq> CHR 0x0D \<and> c \<noteq> CHR 0x0A"
    by (auto simp: formatInt_def split: if_splits)
qed

lemma formatInt_of_nat: "formatInt (int n) = formatNat n"
  by (simp add: formatInt_def)

lemma length_formatNat_le: "n < 10 ^ k \<Longrightarrow> 0 < k \<Longrightarrow> length (formatNat n) \<le> k"
proof (induction n arbitrary: k rule: formatNat.induct)
  case (1 n)
  show ?case
  proof (cases "n < 10")
    case True
    with "1.prems" show ?thesis by (subst formatNat.simps) simp
  next
    case False
    obtain j where k: "k = Suc j" using "1.prems"(2) by (cases k) auto
    with False "1.prems"(1) have j: "0 < j" by (cases j) auto
    from "1.prems"(1) k have "n div 10 < 10 ^ j" by (simp add: less_mult_imp_div_less mult.commute)
    with "1.IH" False j have "length (formatNat (n div 10)) \<le> j" by blast
    with False k show ?thesis by (subst formatNat.simps) simp
  qed
qed

lemma length_formatInt_le: "int64 n \<Longrightarrow> length (formatInt n) \<le> 20"
proof -
  assume "int64 n"
  then have "nat n < 10 ^ 19" "nat (- n) < 10 ^ 19"
    by (auto simp: int64_def MinInt64_def MaxInt64_def)
  then have "length (formatNat (nat n)) \<le> 19" "length (formatNat (nat (- n))) \<le> 19"
    by (auto intro: length_formatNat_le)
  then show ?thesis by (auto simp: formatInt_def)
qed

lemmas [go_simps] = parseInt_def parseUint_def isDigit_def digitVal_def MinInt64_def MaxInt64_def
  MaxUint64_def formatInt_def formatNat.simps digitChar_def int64_def

end
