(* ===== verification/Golib.thy ===== *)
theory Golib
  imports Prelude
begin

text \<open>
  The parts of Go's \<^verbatim>\<open>time\<close>, \<^verbatim>\<open>bytes\<close>, \<^verbatim>\<open>unicode/utf8\<close> and \<^verbatim>\<open>path\<close> packages that the store
  and the command layer call: instants and durations with their overflow behaviour, the
  case folding of command names, and the glob matcher behind KEYS and SCAN.
\<close>

section \<open>Instants and durations\<close>

text \<open>
  An instant is a number of nanoseconds since the Unix epoch (monotonic readings are not
  modelled); Go's zero \<^verbatim>\<open>time.Time\<close> is the first second of year 1. A duration is an int64
  of nanoseconds.
\<close>

type_synonym time = int

definition zeroTime :: time where "zeroTime = -62135596800000000000"

definition isZero :: "time \<Rightarrow> bool" where "isZero t \<longleftrightarrow> t = zeroTime"

definition Second :: int where "Second = 1000000000"
definition Millisecond :: int where "Millisecond = 1000000"
definition Microsecond :: int where "Microsecond = 1000"

text \<open>
  \<^verbatim>\<open>time.Unix(n, 0)\<close> stores \<open>n + 62135596800\<close> in an int64; \<^verbatim>\<open>time.UnixMilli\<close> divides first
  and cannot overflow. \<^verbatim>\<open>t.UnixMilli()\<close> rounds towards the past. \<^verbatim>\<open>t.Sub(u)\<close> saturates.
  \<^verbatim>\<open>time.Duration(n) * unit\<close> wraps.
\<close>

definition timeUnix :: "int \<Rightarrow> time" where
  "timeUnix n = (wrap64 (n + 62135596800) - 62135596800) * Second"

definition timeUnixMilli :: "int \<Rightarrow> time" where
  "timeUnixMilli ms = ms * Millisecond"

definition unixMilli :: "time \<Rightarrow> int" where
  "unixMilli t = wrap64 (t div Millisecond)"

definition timeAdd :: "time \<Rightarrow> int \<Rightarrow> time" where
  "timeAdd t d = t + d"

definition timeSub :: "time \<Rightarrow> time \<Rightarrow> int" where
  "timeSub t u = (if t - u < MinInt64 then MinInt64 else if t - u > MaxInt64 then MaxInt64 else t - u)"

definition durMul :: "int \<Rightarrow> int \<Rightarrow> int" where
  "durMul n unit = wrap64 (n * unit)"

text \<open>An instant whose millisecond count fits an int64 survives the trip through text up to
  truncation to the millisecond.\<close>

definition truncMilli :: "time \<Rightarrow> time" where
  "truncMilli t = t div Millisecond * Millisecond"

definition milliTime :: "time \<Rightarrow> bool" where
  "milliTime t \<longleftrightarrow> int64 (t div Millisecond)"

lemma timeUnixMilli_unixMilli: "milliTime t \<Longrightarrow> timeUnixMilli (unixMilli t) = truncMilli t"
  by (simp add: milliTime_def timeUnixMilli_def unixMilli_def truncMilli_def wrap64_id)

lemma truncMilli_le: "truncMilli t \<le> t"
  by (simp add: truncMilli_def Millisecond_def)

lemma truncMilli_gt: "t - Millisecond < truncMilli t"
  by (simp add: truncMilli_def Millisecond_def)

lemma truncMilli_idem [simp]: "truncMilli (truncMilli t) = truncMilli t"
  by (simp add: truncMilli_def Millisecond_def)

lemma milliTime_trunc [simp]: "milliTime (truncMilli t) = milliTime t"
  by (simp add: milliTime_def truncMilli_def Millisecond_def)

lemma truncMilli_zero [simp]: "truncMilli zeroTime = zeroTime"
  by (simp add: truncMilli_def zeroTime_def Millisecond_def)

lemma milliTime_zero [simp]: "milliTime zeroTime"
  by (simp add: milliTime_def zeroTime_def Millisecond_def int64_def MinInt64_def MaxInt64_def)

lemma milliTime_timeUnixMilli: "int64 ms \<Longrightarrow> milliTime (timeUnixMilli ms)"
  by (simp add: milliTime_def timeUnixMilli_def Millisecond_def)

lemma truncMilli_timeUnixMilli [simp]: "truncMilli (timeUnixMilli ms) = timeUnixMilli ms"
  by (simp add: truncMilli_def timeUnixMilli_def Millisecond_def)

section \<open>Case folding\<close>

text \<open>
  \<^verbatim>\<open>bytes.ToUpper\<close> maps ASCII letters and, on input with non-ASCII bytes, decoded code
  points. Two code points outside ASCII have an ASCII upper case, U+017F (bytes C5 BF) and
  U+0131 (bytes C4 B1); two have an ASCII lower case, U+212A (E2 84 AA) and U+0130 (C4 B0).
  The model maps these and leaves every other non-ASCII byte alone: the results are only
  compared with ASCII words or, for the lower case, echoed for a name that already matched
  one, so no other code point is observable.
\<close>

fun upChar :: "char \<Rightarrow> char" where
  "upChar (Char b0 b1 b2 b3 b4 b5 b6 b7) =
     (let n = (of_char (Char b0 b1 b2 b3 b4 b5 b6 b7) :: nat)
      in if 97 \<le> n \<and> n \<le> 122 then Char b0 b1 b2 b3 b4 False b6 b7
         else Char b0 b1 b2 b3 b4 b5 b6 b7)"

fun lowChar :: "char \<Rightarrow> char" where
  "lowChar (Char b0 b1 b2 b3 b4 b5 b6 b7) =
     (let n = (of_char (Char b0 b1 b2 b3 b4 b5 b6 b7) :: nat)
      in if 65 \<le> n \<and> n \<le> 90 then Char b0 b1 b2 b3 b4 True b6 b7
         else Char b0 b1 b2 b3 b4 b5 b6 b7)"

fun upperASCII :: "bytes \<Rightarrow> string" where
  "upperASCII [] = []"
| "upperASCII (c # cs) =
     (if c = CHR 0xC5 \<and> take 1 cs = [CHR 0xBF] then CHR ''S'' # upperASCII (drop 1 cs)
      else if c = CHR 0xC4 \<and> take 1 cs = [CHR 0xB1] then CHR ''I'' # upperASCII (drop 1 cs)
      else upChar c # upperASCII cs)"

fun lowerASCII :: "bytes \<Rightarrow> string" where
  "lowerASCII [] = []"
| "lowerASCII (c # cs) =
     (if c = CHR 0xE2 \<and> take 2 cs = [CHR 0x84, CHR 0xAA] then CHR ''k'' # lowerASCII (drop 2 cs)
      else if c = CHR 0xC4 \<and> take 1 cs = [CHR 0xB0] then CHR ''i'' # lowerASCII (drop 1 cs)
      else lowChar c # lowerASCII cs)"

section \<open>UTF-8 decoding\<close>

definition contByte :: "char \<Rightarrow> bool" where
  "contByte c \<longleftrightarrow> 128 \<le> (of_char c :: nat) \<and> of_char c < (192 :: nat)"

definition inRange :: "nat \<Rightarrow> char \<Rightarrow> nat \<Rightarrow> bool" where
  "inRange lo c hi \<longleftrightarrow> lo \<le> of_char c \<and> of_char c \<le> hi"

text \<open>\<^verbatim>\<open>utf8.DecodeRuneInString\<close>: code point and width; an invalid sequence gives U+FFFD and
  width 1, the empty string width 0.\<close>

fun decodeRune :: "string \<Rightarrow> nat \<times> nat" where
  "decodeRune [] = (65533, 0)"
| "decodeRune (c # cs) =
     (let b0 = of_char c :: nat in
      if b0 < 128 then (b0, 1)
      else if 194 \<le> b0 \<and> b0 \<le> 223 then
        (case cs of c1 # _ \<Rightarrow>
            if contByte c1 then ((b0 - 192) * 64 + (of_char c1 - 128), 2) else (65533, 1)
         | _ \<Rightarrow> (65533, 1))
      else if 224 \<le> b0 \<and> b0 \<le> 239 then
        (case cs of c1 # c2 # _ \<Rightarrow>
            if inRange (if b0 = 224 then 160 else 128) c1 (if b0 = 237 then 159 else 191) \<and> contByte c2
            then ((b0 - 224) * 4096 + (of_char c1 - 128) * 64 + (of_char c2 - 128), 3)
            else (65533, 1)
         | _ \<Rightarrow> (65533, 1))
      else if 240 \<le> b0 \<and> b0 \<le> 244 then
        (case cs of c1 # c2 # c3 # _ \<Rightarrow>
            if inRange (if b0 = 240 then 144 else 128) c1 (if b0 = 244 then 143 else 191)
               \<and> contByte c2 \<and> contByte c3
            then ((b0 - 240) * 262144 + (of_char c1 - 128) * 4096
                  + (of_char c2 - 128) * 64 + (of_char c3 - 128), 4)
            else (65533, 1)
         | _ \<Rightarrow> (65533, 1))
      else (65533, 1))"

lemma decodeRune_width: "s \<noteq> [] \<Longrightarrow> 0 < snd (decodeRune s)"
  by (cases s) (auto simp: Let_def split: list.splits)

declare decodeRune.simps(2) [simp del]

section \<open>path.Match\<close>

text \<open>
  The glob matcher of the standard library, written as the library has it: the pattern is
  cut into chunks at unescaped stars outside a bracket, each chunk is matched at the current
  position, and a star retries at later positions up to the next slash. The outer
  \<^const>\<open>None\<close> is \<^verbatim>\<open>path.ErrBadPattern\<close>.
\<close>

fun splitChunk :: "bool \<Rightarrow> string \<Rightarrow> string \<times> string" where
  "splitChunk inrange [] = ([], [])"
| "splitChunk inrange (c # cs) =
     (if c = CHR 0x5C then
        (case cs of [] \<Rightarrow> ([c], [])
         | d # ds \<Rightarrow> (let (chunk, rest) = splitChunk inrange ds in (c # d # chunk, rest)))
      else if c = CHR ''['' then (let (chunk, rest) = splitChunk True cs in (c # chunk, rest))
      else if c = CHR '']'' then (let (chunk, rest) = splitChunk False cs in (c # chunk, rest))
      else if c = CHR ''*'' \<and> \<not> inrange then ([], c # cs)
      else (let (chunk, rest) = splitChunk inrange cs in (c # chunk, rest)))"

definition scanChunk :: "string \<Rightarrow> bool \<times> string \<times> string" where
  "scanChunk pattern =
     (let p = dropWhile (\<lambda>c. c = CHR ''*'') pattern; (chunk, rest) = splitChunk False p
      in (length p < length pattern, chunk, rest))"

definition getEsc :: "string \<Rightarrow> (nat \<times> string) option" where
  "getEsc chunk =
     (if chunk = [] \<or> hd chunk = CHR ''-'' \<or> hd chunk = CHR '']'' then None
      else (let c1 = (if hd chunk = CHR 0x5C then tl chunk else chunk) in
            if c1 = [] then None
            else (let (r, n) = decodeRune c1; c2 = drop n c1 in
                  if r = 65533 \<and> n = 1 then None
                  else if c2 = [] then None
                  else Some (r, c2))))"

lemma getEsc_shorter: "getEsc s = Some (r, s') \<Longrightarrow> length s' < length s"
proof -
  assume a: "getEsc s = Some (r, s')"
  let ?c = "if hd s = CHR 0x5C then tl s else s"
  from a have c: "?c \<noteq> []" and s': "s' = drop (snd (decodeRune ?c)) ?c" and s: "s \<noteq> []"
    by (auto simp: getEsc_def Let_def split: if_splits prod.splits)
  have "length s' < length ?c"
    using c s' decodeRune_width [OF c] by simp
  also have "length ?c \<le> length s" by simp
  finally show ?thesis .
qed

text \<open>One \<^verbatim>\<open>lo\<close> or \<^verbatim>\<open>lo-hi\<close> item of a character class, then the loop over the items.\<close>

definition getRange :: "string \<Rightarrow> (nat \<times> nat \<times> string) option" where
  "getRange chunk =
     (case getEsc chunk of None \<Rightarrow> None
      | Some (lo, c1) \<Rightarrow>
          if hd c1 = CHR ''-'' then
            (case getEsc (tl c1) of None \<Rightarrow> None | Some (hi, c2) \<Rightarrow> Some (lo, hi, c2))
          else Some (lo, lo, c1))"

lemma getRange_shorter: "getRange s = Some (lo, hi, s') \<Longrightarrow> length s' < length s"
  by (fastforce simp: getRange_def split: option.splits if_splits dest!: getEsc_shorter)

function classRanges :: "nat \<Rightarrow> bool \<Rightarrow> nat \<Rightarrow> string \<Rightarrow> (bool \<times> string) option" where
  "classRanges r m nrange chunk =
     (if chunk \<noteq> [] \<and> hd chunk = CHR '']'' \<and> 0 < nrange then Some (m, tl chunk)
      else case getRange chunk of None \<Rightarrow> None
           | Some (lo, hi, chunk') \<Rightarrow> classRanges r (m \<or> (lo \<le> r \<and> r \<le> hi)) (Suc nrange) chunk')"
  by pat_completeness auto
termination
  by (relation "measure (\<lambda>(r, m, n, chunk). length chunk)") (auto dest!: getRange_shorter)

declare classRanges.simps [simp del]

lemma classRanges_close:
  "chunk \<noteq> [] \<Longrightarrow> hd chunk = CHR '']'' \<Longrightarrow> 0 < n \<Longrightarrow> classRanges r m n chunk = Some (m, tl chunk)"
  by (subst classRanges.simps) simp

lemma classRanges_step:
  "\<not> (chunk \<noteq> [] \<and> hd chunk = CHR '']'' \<and> 0 < n) \<Longrightarrow>
   classRanges r m n chunk =
     (case getRange chunk of None \<Rightarrow> None
      | Some (lo, hi, chunk') \<Rightarrow> classRanges r (m \<or> (lo \<le> r \<and> r \<le> hi)) (Suc n) chunk')"
  by (subst classRanges.simps) (simp only: if_False)

lemma classRanges_shorter:
  "classRanges r m n chunk = Some (m', chunk') \<Longrightarrow> length chunk' < length chunk"
proof (induction r m n chunk rule: classRanges.induct)
  case (1 r m n chunk)
  show ?case
  proof (cases "chunk \<noteq> [] \<and> hd chunk = CHR '']'' \<and> 0 < n")
    case True
    with "1.prems" show ?thesis by (auto simp: classRanges_close)
  next
    case False
    with "1.prems" obtain lo hi c where c: "getRange chunk = Some (lo, hi, c)"
      and "classRanges r (m \<or> (lo \<le> r \<and> r \<le> hi)) (Suc n) c = Some (m', chunk')"
      by (auto simp: classRanges_step split: option.splits)
    with "1.IH" [OF False c refl refl] getRange_shorter [OF c] show ?thesis by simp
  qed
qed

lemma classRanges_indep:
  "map_option snd (classRanges r m n c) = map_option snd (classRanges r' m' n c)"
proof (induction r m n c arbitrary: m' rule: classRanges.induct)
  case (1 r m n c)
  show ?case
  proof (cases "c \<noteq> [] \<and> hd c = CHR '']'' \<and> 0 < n")
    case True
    then show ?thesis by (simp add: classRanges_close)
  next
    case False
    show ?thesis
      unfolding classRanges_step [OF False]
      by (auto split: option.splits intro: "1.IH" [OF False _ refl refl])
  qed
qed

lemma classRanges_None_indep:
  "classRanges r m n c = None \<longleftrightarrow> classRanges r' m' n c = None"
  using classRanges_indep [of r m n c r' m'] by (metis option.map_disc_iff)

lemma classRanges_Some_indep:
  "classRanges r m n c = Some (m1, c') \<Longrightarrow> \<exists>m0. classRanges r' m' n c = Some (m0, c')"
proof -
  assume a: "classRanges r m n c = Some (m1, c')"
  have "map_option snd (classRanges r' m' n c) = map_option snd (classRanges r m n c)"
    by (rule classRanges_indep)
  then have "map_option snd (classRanges r' m' n c) = Some c'" unfolding a by simp
  then obtain x where "classRanges r' m' n c = Some x" and "snd x = c'"
    unfolding map_option_eq_Some by blast
  then have "classRanges r' m' n c = Some (fst x, c')" by (metis prod.collapse)
  then show ?thesis by (rule exI)
qed

text \<open>\<open>matchChunk chunk s failed\<close>: \<open>Some (Some rest)\<close> is a match, \<open>Some None\<close> a mismatch.\<close>

function matchChunk :: "string \<Rightarrow> string \<Rightarrow> bool \<Rightarrow> string option option" where
  "matchChunk [] s failed = (if failed then Some None else Some (Some s))"
| "matchChunk (c # chunk) s failed0 =
     (let failed = (failed0 \<or> s = []) in
      if c = CHR ''['' then
        (let (r, s1) = (if failed then (0, s) else (fst (decodeRune s), drop (snd (decodeRune s)) s));
             negated = (chunk \<noteq> [] \<and> hd chunk = CHR ''^'');
             body = (if negated then tl chunk else chunk)
         in case classRanges r False 0 body of None \<Rightarrow> None
            | Some (m, chunk') \<Rightarrow> matchChunk chunk' s1 (failed \<or> m = negated))
      else if c = CHR ''?'' then
        (if failed then matchChunk chunk s failed
         else matchChunk chunk (drop (snd (decodeRune s)) s) (hd s = CHR ''/''))
      else if c = CHR 0x5C then
        (case chunk of [] \<Rightarrow> None
         | d # chunk' \<Rightarrow>
             if failed then matchChunk chunk' s failed
             else matchChunk chunk' (tl s) (d \<noteq> hd s))
      else if failed then matchChunk chunk s failed
      else matchChunk chunk (tl s) (c \<noteq> hd s))"
  by pat_completeness auto
termination
  by (relation "measure (\<lambda>(chunk, s, f). length chunk)")
     (auto split: if_splits dest!: classRanges_shorter simp: less_Suc_eq)

declare matchChunk.simps(2) [simp del]

fun skipLoop :: "string \<Rightarrow> bool \<Rightarrow> string \<Rightarrow> string option option" where
  "skipLoop chunk isLast [] = Some None"
| "skipLoop chunk isLast (c # cs) =
     (if c = CHR ''/'' then Some None
      else case matchChunk chunk cs False of None \<Rightarrow> None
           | Some None \<Rightarrow> skipLoop chunk isLast cs
           | Some (Some t) \<Rightarrow> if isLast \<and> t \<noteq> [] then skipLoop chunk isLast cs else Some (Some t))"

lemma splitChunk_length: "length (fst (splitChunk b p)) + length (snd (splitChunk b p)) = length p"
proof (induction b p rule: splitChunk.induct)
  case (1 b)
  then show ?case by simp
next
  case (2 b c cs)
  then show ?case by (cases cs) (simp_all add: case_prod_beta Let_def)
qed

lemma splitChunk_progress:
  "p \<noteq> [] \<Longrightarrow> hd p \<noteq> CHR ''*'' \<Longrightarrow> length (snd (splitChunk False p)) < length p"
proof -
  assume p: "p \<noteq> []" "hd p \<noteq> CHR ''*''"
  then have "fst (splitChunk False p) \<noteq> []"
    by (cases p) (simp_all add: case_prod_beta Let_def split: list.splits)
  with splitChunk_length [of False p] show ?thesis by (cases "fst (splitChunk False p)") auto
qed

lemma scanChunk_shorter:
  assumes "p \<noteq> []" and "scanChunk p = (star, chunk, p')"
  shows "length p' < length p"
proof -
  let ?q = "dropWhile (\<lambda>c. c = CHR ''*'') p"
  have p': "p' = snd (splitChunk False ?q)"
    using assms(2) by (auto simp: scanChunk_def Let_def split: prod.splits)
  have le: "length ?q \<le> length p" by (rule length_dropWhile_le)
  show ?thesis
  proof (cases "?q = []")
    case True
    with p' assms(1) show ?thesis by simp
  next
    case False
    then have "hd ?q \<noteq> CHR ''*''" by (rule hd_dropWhile)
    from splitChunk_progress [OF False this] p' le show ?thesis by simp
  qed
qed

lemmas scanChunk_shorter' = scanChunk_shorter [OF _ sym]

function validateRest :: "string \<Rightarrow> bool option" where
  "validateRest p =
     (if p = [] then Some False
      else (let (star, chunk, p') = scanChunk p in
            case matchChunk chunk [] False of None \<Rightarrow> None | Some _ \<Rightarrow> validateRest p'))"
  by pat_completeness auto
termination
  by (relation "measure length") (auto intro: scanChunk_shorter')

declare validateRest.simps [simp del]

function pathMatch :: "string \<Rightarrow> string \<Rightarrow> bool option" where
  "pathMatch p name =
     (if p = [] then Some (name = [])
      else (let (star, chunk, p') = scanChunk p in
            if star \<and> chunk = [] then Some (CHR ''/'' \<notin> set name)
            else case matchChunk chunk name False of None \<Rightarrow> None
                 | Some res \<Rightarrow>
                     if res \<noteq> None \<and> (the res = [] \<or> p' \<noteq> []) then pathMatch p' (the res)
                     else if star then
                       (case skipLoop chunk (p' = []) name of None \<Rightarrow> None
                        | Some (Some t) \<Rightarrow> pathMatch p' t
                        | Some None \<Rightarrow> validateRest p')
                     else validateRest p'))"
  by pat_completeness auto
termination
  by (relation "measure (\<lambda>(p, n). length p)") (auto intro: scanChunk_shorter')

declare pathMatch.simps [simp del]

subsection \<open>A bad pattern is bad for every name\<close>

lemma matchChunk_None_indep:
  "matchChunk chunk s f = None \<longleftrightarrow> matchChunk chunk s' f' = None"
proof (induction chunk arbitrary: s f s' f' rule: length_induct)
  case (1 chunk)
  have IH: "matchChunk c t g = None \<longleftrightarrow> matchChunk c t' g' = None"
    if "length c < length chunk" for c t g t' g'
    using "1.IH" that by blast
  show ?case
  proof (cases chunk)
    case Nil
    then show ?thesis by simp
  next
    case (Cons c cs)
    let ?b = "if cs \<noteq> [] \<and> hd cs = CHR ''^'' then tl cs else cs"
    consider (cls) "c = CHR ''[''" | (esc) "c = CHR 0x5C" | (other) "c \<noteq> CHR ''['' \<and> c \<noteq> CHR 0x5C"
      by blast
    then show ?thesis
    proof cases
      case cls
      have bracket: "matchChunk (c # cs) t g = None \<longleftrightarrow>
          (classRanges 0 False 0 ?b = None \<or>
           matchChunk (snd (the (classRanges 0 False 0 ?b))) [] False = None)" for t g
      proof -
        obtain r t1 where rt: "(if g \<or> t = [] then (0, t)
            else (fst (decodeRune t), drop (snd (decodeRune t)) t)) = (r, t1)"
          by fastforce
        have eq: "matchChunk (c # cs) t g =
            (case classRanges r False 0 ?b of None \<Rightarrow> None
             | Some (m, c') \<Rightarrow> matchChunk c' t1
                 ((g \<or> t = []) \<or> m = (cs \<noteq> [] \<and> hd cs = CHR ''^'')))"
          using rt cls by (simp only: matchChunk.simps(2) Let_def refl if_True prod.case)
        show ?thesis
        proof (cases "classRanges r False 0 ?b")
          case None
          then show ?thesis using eq classRanges_None_indep [of r False 0 ?b 0 False] by simp
        next
          case (Some mc)
          obtain m c' where mc: "mc = (m, c')" by (cases mc)
          obtain m0 where m0: "classRanges 0 False 0 ?b = Some (m0, c')"
            using classRanges_Some_indep [OF Some [unfolded mc]] by blast
          have "length c' < length ?b" using Some mc by (auto dest: classRanges_shorter)
          also have "length ?b \<le> length cs" by simp
          finally have "length c' < length chunk" using Cons by simp
          then show ?thesis using eq Some mc m0 by (simp add: IH)
        qed
      qed
      show ?thesis using bracket by (simp only: Cons)
    next
      case esc
      then show ?thesis
        using Cons by (cases cs) (auto simp: matchChunk.simps(2) Let_def IH)
    next
      case other
      then show ?thesis using Cons by (auto simp: matchChunk.simps(2) Let_def IH)
    qed
  qed
qed

lemma skipLoop_None: "skipLoop chunk l name = None \<Longrightarrow> matchChunk chunk s f = None"
proof (induction name)
  case Nil
  then show ?case by simp
next
  case (Cons c cs)
  then show ?case
    using matchChunk_None_indep [of chunk cs False s f]
    by (auto split: if_splits option.splits)
qed

lemma scanChunk_empty_chunk: "scanChunk p = (star, [], p') \<Longrightarrow> p' = []"
proof -
  assume a: "scanChunk p = (star, [], p')"
  let ?q = "dropWhile (\<lambda>c. c = CHR ''*'') p"
  from a have f: "fst (splitChunk False ?q) = []" and p': "p' = snd (splitChunk False ?q)"
    by (auto simp: scanChunk_def Let_def split: prod.splits)
  show ?thesis
  proof (cases "?q = []")
    case True
    with p' show ?thesis by simp
  next
    case False
    then have "hd ?q \<noteq> CHR ''*''" by (rule hd_dropWhile)
    from splitChunk_progress [OF False this] splitChunk_length [of False ?q] f show ?thesis by simp
  qed
qed

lemma validateRest_Nil: "validateRest [] = Some False"
  by (subst validateRest.simps) simp

lemma validateRest_step:
  "p \<noteq> [] \<Longrightarrow> scanChunk p = (star, chunk, p') \<Longrightarrow>
   validateRest p = (if matchChunk chunk [] False = None then None else validateRest p')"
  by (subst validateRest.simps) (auto split: option.splits)

lemma pathMatch_Nil: "pathMatch [] name = Some (name = [])"
  by (subst pathMatch.simps) simp

lemma pathMatch_trailing_star:
  "p \<noteq> [] \<Longrightarrow> scanChunk p = (True, [], p') \<Longrightarrow> pathMatch p name = Some (CHR ''/'' \<notin> set name)"
  by (subst pathMatch.simps) simp

lemma pathMatch_step:
  assumes "p \<noteq> []" and "scanChunk p = (star, chunk, p')" and "\<not> (star \<and> chunk = [])"
  shows "pathMatch p name =
    (case matchChunk chunk name False of None \<Rightarrow> None
     | Some res \<Rightarrow>
         if res \<noteq> None \<and> (the res = [] \<or> p' \<noteq> []) then pathMatch p' (the res)
         else if star then
           (case skipLoop chunk (p' = []) name of None \<Rightarrow> None
            | Some (Some t) \<Rightarrow> pathMatch p' t
            | Some None \<Rightarrow> validateRest p')
         else validateRest p')"
  using assms by (subst pathMatch.simps) (simp only: Let_def prod.case if_False refl)

lemma pathMatch_None_iff: "pathMatch p name = None \<longleftrightarrow> validateRest p = None"
proof (induction p arbitrary: name rule: length_induct)
  case (1 p)
  show ?case
  proof (cases "p = []")
    case True
    then show ?thesis by (simp add: pathMatch_Nil validateRest_Nil)
  next
    case False
    obtain star chunk p' where sc: "scanChunk p = (star, chunk, p')" by (cases "scanChunk p") auto
    have IH: "pathMatch p' t = None \<longleftrightarrow> validateRest p' = None" for t
      using "1.IH" scanChunk_shorter [OF False sc] by blast
    note v = validateRest_step [OF False sc]
    show ?thesis
    proof (cases "star \<and> chunk = []")
      case True
      with sc have "p' = []" by (auto dest: scanChunk_empty_chunk)
      with True False sc v show ?thesis
        by (simp add: pathMatch_trailing_star validateRest_Nil)
    next
      case nostar: False
      show ?thesis
        using v IH matchChunk_None_indep [of chunk name False "[]" False]
          skipLoop_None [of chunk "p' = []" name "[]" False]
        unfolding pathMatch_step [OF False sc nostar]
        by (auto split: option.splits)
    qed
  qed
qed

text \<open>The star matches every name without a slash, and nothing else.\<close>

lemma pathMatch_star: "pathMatch ''*'' name = Some (CHR ''/'' \<notin> set name)"
  by (rule pathMatch_trailing_star) (simp_all add: scanChunk_def)

end
