(* ===== verification/Deque.thy ===== *)
theory Deque
  imports Golib
begin

text \<open>
  The growable ring buffer behind list values (\<^verbatim>\<open>internal/store/deque.go\<close>). The buffer is a
  list of slots, a removed slot holds the empty slice (Go's nil), \<open>dq_head\<close> and \<open>dq_count\<close>
  are the Go fields. The abstraction \<open>dq_list\<close> reads the elements from the front; the
  locale \<open>deque_spec\<close> states the double-ended-queue contract the store relies on, and the
  interpretation discharges it for the ring buffer.
\<close>

section \<open>Operations\<close>

record deque =
  dq_buf :: "bytes list"
  dq_head :: nat
  dq_count :: nat

definition emptyDeque :: deque where
  "emptyDeque = \<lparr>dq_buf = [], dq_head = 0, dq_count = 0\<rparr>"

definition deque_len :: "deque \<Rightarrow> nat" where
  "deque_len d = dq_count d"

text \<open>\<open>deque_at\<close>: the slot of the \<open>i\<close>-th element. Go's modulus by a zero capacity would panic;
  every call is on a non-empty buffer.\<close>

definition deque_at :: "deque \<Rightarrow> nat \<Rightarrow> bytes" where
  "deque_at d i = dq_buf d ! ((dq_head d + i) mod length (dq_buf d))"

definition grow :: "deque \<Rightarrow> deque" where
  "grow d =
     (let newCap = max (length (dq_buf d) * 2) 8;
          nb = map (deque_at d) [0..<dq_count d] @ replicate (newCap - dq_count d) []
      in d\<lparr>dq_buf := nb, dq_head := 0\<rparr>)"

definition growIfFull :: "deque \<Rightarrow> deque" where
  "growIfFull d = (if dq_count d = length (dq_buf d) then grow d else d)"

definition pushFront :: "deque \<Rightarrow> bytes \<Rightarrow> deque" where
  "pushFront d0 v =
     (let d = growIfFull d0;
          h = (dq_head d + length (dq_buf d) - 1) mod length (dq_buf d)
      in d\<lparr>dq_head := h, dq_buf := (dq_buf d)[h := v], dq_count := dq_count d + 1\<rparr>)"

definition pushBack :: "deque \<Rightarrow> bytes \<Rightarrow> deque" where
  "pushBack d0 v =
     (let d = growIfFull d0
      in d\<lparr>dq_buf := (dq_buf d)[(dq_head d + dq_count d) mod length (dq_buf d) := v],
           dq_count := dq_count d + 1\<rparr>)"

definition popFront :: "deque \<Rightarrow> deque \<times> bytes option" where
  "popFront d =
     (if dq_count d = 0 then (d, None)
      else (d\<lparr>dq_buf := (dq_buf d)[dq_head d := []],
              dq_head := (dq_head d + 1) mod length (dq_buf d),
              dq_count := dq_count d - 1\<rparr>,
            Some (dq_buf d ! dq_head d)))"

definition popBack :: "deque \<Rightarrow> deque \<times> bytes option" where
  "popBack d =
     (if dq_count d = 0 then (d, None)
      else (let i = (dq_head d + dq_count d - 1) mod length (dq_buf d)
            in (d\<lparr>dq_buf := (dq_buf d)[i := []], dq_count := dq_count d - 1\<rparr>,
                Some (dq_buf d ! i))))"

definition deque_clone :: "deque \<Rightarrow> deque" where
  "deque_clone d = foldl (\<lambda>nd i. pushBack nd (deque_at d i)) emptyDeque [0..<dq_count d]"

text \<open>\<open>deque_rng\<close>: LRANGE's normalisation, then the elements from \<open>start\<close> to \<open>stop\<close>.\<close>

definition rngStart :: "int \<Rightarrow> int \<Rightarrow> int" where
  "rngStart n start =
     (let s1 = (if start < 0 then start + n else start) in if s1 < 0 then 0 else s1)"

definition rngStop :: "int \<Rightarrow> int \<Rightarrow> int" where
  "rngStop n stop =
     (let s1 = (if stop < 0 then stop + n else stop) in if s1 \<ge> n then n - 1 else s1)"

definition deque_rng :: "deque \<Rightarrow> int \<Rightarrow> int \<Rightarrow> bytes list" where
  "deque_rng d start stop =
     (let n = int (dq_count d); s = rngStart n start; t = rngStop n stop
      in if s > t \<or> s \<ge> n then [] else map (deque_at d) [nat s..<Suc (nat t)])"

section \<open>Abstraction and invariant\<close>

definition dq_list :: "deque \<Rightarrow> bytes list" where
  "dq_list d = map (deque_at d) [0..<dq_count d]"

definition deque_inv :: "deque \<Rightarrow> bool" where
  "deque_inv d \<longleftrightarrow>
     dq_count d \<le> length (dq_buf d) \<and>
     (if dq_buf d = [] then dq_head d = 0 else dq_head d < length (dq_buf d))"

lemma length_dq_list [simp]: "length (dq_list d) = dq_count d"
  by (simp add: dq_list_def)

lemma dq_list_nth: "i < dq_count d \<Longrightarrow> dq_list d ! i = deque_at d i"
  by (simp add: dq_list_def)

lemma dq_list_eqI:
  assumes "dq_count d = length xs"
    and "\<And>i. i < length xs \<Longrightarrow> deque_at d i = xs ! i"
  shows "dq_list d = xs"
  using assms by (intro nth_equalityI) (simp_all add: dq_list_nth)

text \<open>Two offsets below the capacity name different slots.\<close>

lemma ring_slot_inj:
  assumes "(h + i) mod n = (h + j) mod n" and "i < n" and "j < (n::nat)"
  shows "i = j"
proof -
  have "(int h + int i) mod int n = (int h + int j) mod int n"
    using assms(1) by (metis of_nat_add zmod_int)
  then have "int n dvd int i - int j" by (simp add: mod_eq_dvd_iff)
  then have "int i mod int n = int j mod int n" by (simp add: mod_eq_dvd_iff)
  with assms(2,3) show ?thesis by simp
qed

lemma grow_list:
  assumes "deque_inv d" and "dq_count d = length (dq_buf d)"
  shows "dq_list (grow d) = dq_list d" and "deque_inv (grow d)"
    and "dq_count (grow d) < length (dq_buf (grow d))" and "dq_count (grow d) = dq_count d"
proof -
  let ?b = "map (deque_at d) [0..<dq_count d] @
    replicate (max (length (dq_buf d) * 2) 8 - dq_count d) []"
  have len: "length ?b = max (length (dq_buf d) * 2) 8" using assms(2) by simp
  show "dq_count (grow d) < length (dq_buf (grow d))" "dq_count (grow d) = dq_count d"
    "deque_inv (grow d)"
    using assms by (auto simp: grow_def Let_def deque_inv_def)
  show "dq_list (grow d) = dq_list d"
  proof (rule dq_list_eqI)
    fix i assume i: "i < length (dq_list d)"
    then have m: "i mod length ?b = i" using len assms(2) by simp
    have "deque_at (grow d) i = ?b ! (i mod length ?b)"
      unfolding deque_at_def [of "grow d"] by (simp add: grow_def Let_def)
    also have "\<dots> = dq_list d ! i"
      unfolding m using i by (simp add: nth_append dq_list_nth)
    finally show "deque_at (grow d) i = dq_list d ! i" .
  qed (simp add: grow_def Let_def)
qed

lemma growIfFull_list:
  assumes "deque_inv d"
  shows "dq_list (growIfFull d) = dq_list d" and "deque_inv (growIfFull d)"
    and "dq_count (growIfFull d) < length (dq_buf (growIfFull d))"
    and "dq_count (growIfFull d) = dq_count d"
  using assms grow_list [OF assms] by (auto simp: growIfFull_def deque_inv_def)

lemma pushFront_list:
  assumes "deque_inv d0"
  shows "dq_list (pushFront d0 v) = v # dq_list d0" and "deque_inv (pushFront d0 v)"
proof -
  define d where "d = growIfFull d0"
  define n where "n = length (dq_buf d)"
  define h where "h = (dq_head d + n - 1) mod n"
  note g = growIfFull_list [OF assms, folded d_def]
  have n: "0 < n" "dq_count d < n" using g(3) by (auto simp: n_def)
  have h: "h < n" using n by (simp add: h_def)
  have push: "pushFront d0 v = d\<lparr>dq_head := h, dq_buf := (dq_buf d)[h := v], dq_count := dq_count d + 1\<rparr>"
    by (simp add: pushFront_def Let_def d_def n_def h_def)
  have later: "(h + Suc i) mod n = (dq_head d + i) mod n" for i
  proof -
    have "(h + Suc i) mod n = (dq_head d + n - 1 + Suc i) mod n"
      by (simp only: h_def mod_add_left_eq)
    also have "dq_head d + n - 1 + Suc i = dq_head d + i + n" using n by simp
    finally show ?thesis by simp
  qed
  show "dq_list (pushFront d0 v) = v # dq_list d0"
  proof (rule dq_list_eqI)
    show "dq_count (pushFront d0 v) = length (v # dq_list d0)" using g(4) by (simp add: push)
    fix i assume "i < length (v # dq_list d0)"
    then have i: "i < Suc (dq_count d)" using g(4) by simp
    show "deque_at (pushFront d0 v) i = (v # dq_list d0) ! i"
    proof (cases i)
      case 0
      then show ?thesis using h by (simp add: deque_at_def push flip: n_def)
    next
      case (Suc j)
      have "h \<noteq> (h + Suc j) mod n"
        using ring_slot_inj [of h 0 n "Suc j"] i Suc n h by auto
      then have "deque_at (pushFront d0 v) i = deque_at d j"
        using Suc later [of j] by (simp add: deque_at_def push flip: n_def)
      also have "\<dots> = dq_list d ! j" using i Suc by (simp add: dq_list_nth)
      finally show ?thesis using g(1) Suc by simp
    qed
  qed
  show "deque_inv (pushFront d0 v)"
    using n h by (auto simp: deque_inv_def push n_def)
qed

lemma pushBack_list:
  assumes "deque_inv d0"
  shows "dq_list (pushBack d0 v) = dq_list d0 @ [v]" and "deque_inv (pushBack d0 v)"
proof -
  define d where "d = growIfFull d0"
  define n where "n = length (dq_buf d)"
  note g = growIfFull_list [OF assms, folded d_def]
  have n: "0 < n" "dq_count d < n" using g(3) by (auto simp: n_def)
  have push: "pushBack d0 v = d\<lparr>dq_buf := (dq_buf d)[(dq_head d + dq_count d) mod n := v],
      dq_count := dq_count d + 1\<rparr>"
    by (simp add: pushBack_def Let_def d_def n_def)
  show "dq_list (pushBack d0 v) = dq_list d0 @ [v]"
  proof (rule dq_list_eqI)
    show "dq_count (pushBack d0 v) = length (dq_list d0 @ [v])" using g(4) by (simp add: push)
    fix i assume "i < length (dq_list d0 @ [v])"
    then have i: "i < Suc (dq_count d)" using g(4) by simp
    show "deque_at (pushBack d0 v) i = (dq_list d0 @ [v]) ! i"
    proof (cases "i = dq_count d")
      case True
      then show ?thesis using n g(4) by (simp add: deque_at_def push nth_append flip: n_def)
    next
      case False
      have "(dq_head d + dq_count d) mod n \<noteq> (dq_head d + i) mod n"
        using ring_slot_inj [of "dq_head d" "dq_count d" n i] i False n by auto
      then have "deque_at (pushBack d0 v) i = deque_at d i"
        by (simp add: deque_at_def push flip: n_def)
      also have "\<dots> = dq_list d ! i" using i False by (simp add: dq_list_nth)
      finally show ?thesis using g(1,4) i False by (simp add: nth_append)
    qed
  qed
  show "deque_inv (pushBack d0 v)"
    using n g(2) by (auto simp: deque_inv_def push n_def)
qed

lemma popFront_empty: "dq_count d = 0 \<Longrightarrow> popFront d = (d, None)"
  by (simp add: popFront_def)

lemma popBack_empty: "dq_count d = 0 \<Longrightarrow> popBack d = (d, None)"
  by (simp add: popBack_def)

lemma popFront_list:
  assumes "deque_inv d" and "dq_list d = x # xs"
  shows "snd (popFront d) = Some x" and "dq_list (fst (popFront d)) = xs"
    and "deque_inv (fst (popFront d))"
proof -
  define n where "n = length (dq_buf d)"
  have c: "dq_count d = Suc (length xs)" using assms(2) length_dq_list [of d] by simp
  have n: "0 < n" "dq_count d \<le> n" "dq_head d < n"
    using assms(1) c by (auto simp: deque_inv_def n_def split: if_splits)
  have x: "deque_at d 0 = x" using assms(2) c dq_list_nth [of 0 d] by simp
  then show "snd (popFront d) = Some x"
    using n c by (simp add: popFront_def deque_at_def flip: n_def)
  have pop: "fst (popFront d) = d\<lparr>dq_buf := (dq_buf d)[dq_head d := []],
      dq_head := (dq_head d + 1) mod n, dq_count := length xs\<rparr>"
    using c by (simp add: popFront_def n_def)
  show "dq_list (fst (popFront d)) = xs"
  proof (rule dq_list_eqI)
    show "dq_count (fst (popFront d)) = length xs" by (simp add: pop)
    fix i assume i: "i < length xs"
    have slot: "((dq_head d + 1) mod n + i) mod n = (dq_head d + Suc i) mod n"
      by (simp add: mod_add_left_eq)
    have "dq_head d \<noteq> (dq_head d + Suc i) mod n"
      using ring_slot_inj [of "dq_head d" 0 n "Suc i"] n i c by auto
    then have "deque_at (fst (popFront d)) i = deque_at d (Suc i)"
      using slot by (simp add: deque_at_def pop flip: n_def)
    also have "\<dots> = xs ! i" using i c assms(2) dq_list_nth [of "Suc i" d] by simp
    finally show "deque_at (fst (popFront d)) i = xs ! i" .
  qed
  show "deque_inv (fst (popFront d))" using n c by (auto simp: deque_inv_def pop n_def)
qed

lemma popBack_list:
  assumes "deque_inv d" and "dq_list d = xs @ [x]"
  shows "snd (popBack d) = Some x" and "dq_list (fst (popBack d)) = xs"
    and "deque_inv (fst (popBack d))"
proof -
  define n where "n = length (dq_buf d)"
  have c: "dq_count d = Suc (length xs)" using assms(2) length_dq_list [of d] by simp
  have n: "0 < n" "dq_count d \<le> n" "dq_head d < n"
    using assms(1) c by (auto simp: deque_inv_def n_def split: if_splits)
  have x: "deque_at d (length xs) = x" using assms(2) c dq_list_nth [of "length xs" d] by simp
  then show "snd (popBack d) = Some x"
    using c by (simp add: popBack_def deque_at_def Let_def)
  have pop: "fst (popBack d) = d\<lparr>dq_buf := (dq_buf d)[(dq_head d + length xs) mod n := []],
      dq_count := length xs\<rparr>"
    using c by (simp add: popBack_def n_def Let_def)
  show "dq_list (fst (popBack d)) = xs"
  proof (rule dq_list_eqI)
    show "dq_count (fst (popBack d)) = length xs" by (simp add: pop)
    fix i assume i: "i < length xs"
    have "(dq_head d + length xs) mod n \<noteq> (dq_head d + i) mod n"
      using ring_slot_inj [of "dq_head d" "length xs" n i] n i c by auto
    then have "deque_at (fst (popBack d)) i = deque_at d i"
      by (simp add: deque_at_def pop flip: n_def)
    also have "\<dots> = xs ! i" using i c assms(2) dq_list_nth [of i d] by (simp add: nth_append)
    finally show "deque_at (fst (popBack d)) i = xs ! i" .
  qed
  show "deque_inv (fst (popBack d))" using n c by (auto simp: deque_inv_def pop n_def)
qed

section \<open>The contract\<close>

text \<open>
  What the list commands rely on: two ends, a length, random access, all in terms of the
  abstract sequence. The lemmas inside hold for every implementation of the contract.
\<close>

locale deque_spec =
  fixes empty :: 'd
    and pushF :: "'d \<Rightarrow> 'a \<Rightarrow> 'd"
    and pushB :: "'d \<Rightarrow> 'a \<Rightarrow> 'd"
    and popF :: "'d \<Rightarrow> 'd \<times> 'a option"
    and popB :: "'d \<Rightarrow> 'd \<times> 'a option"
    and size_of :: "'d \<Rightarrow> nat"
    and elem :: "'d \<Rightarrow> nat \<Rightarrow> 'a"
    and seq :: "'d \<Rightarrow> 'a list"
    and invar :: "'d \<Rightarrow> bool"
  assumes seq_empty: "seq empty = []"
    and invar_empty: "invar empty"
    and seq_pushF: "invar d \<Longrightarrow> seq (pushF d x) = x # seq d"
    and invar_pushF: "invar d \<Longrightarrow> invar (pushF d x)"
    and seq_pushB: "invar d \<Longrightarrow> seq (pushB d x) = seq d @ [x]"
    and invar_pushB: "invar d \<Longrightarrow> invar (pushB d x)"
    and popF_Nil: "invar d \<Longrightarrow> seq d = [] \<Longrightarrow> popF d = (d, None)"
    and popF_Cons: "invar d \<Longrightarrow> seq d = x # xs \<Longrightarrow>
          snd (popF d) = Some x \<and> seq (fst (popF d)) = xs \<and> invar (fst (popF d))"
    and popB_Nil: "invar d \<Longrightarrow> seq d = [] \<Longrightarrow> popB d = (d, None)"
    and popB_snoc: "invar d \<Longrightarrow> seq d = xs @ [x] \<Longrightarrow>
          snd (popB d) = Some x \<and> seq (fst (popB d)) = xs \<and> invar (fst (popB d))"
    and size_seq: "invar d \<Longrightarrow> size_of d = length (seq d)"
    and elem_seq: "invar d \<Longrightarrow> i < length (seq d) \<Longrightarrow> elem d i = seq d ! i"
begin

lemma pushes_front:
  "invar d \<Longrightarrow> seq (foldl pushF d xs) = rev xs @ seq d \<and> invar (foldl pushF d xs)"
  by (induction xs arbitrary: d) (auto simp: seq_pushF invar_pushF)

lemma pushes_back:
  "invar d \<Longrightarrow> seq (foldl pushB d xs) = seq d @ xs \<and> invar (foldl pushB d xs)"
  by (induction xs arbitrary: d) (auto simp: seq_pushB invar_pushB)

lemma push_pop_front: "invar d \<Longrightarrow> snd (popF (pushF d x)) = Some x \<and> seq (fst (popF (pushF d x))) = seq d"
  using popF_Cons [of "pushF d x" x "seq d"] by (simp add: seq_pushF invar_pushF)

lemma push_pop_back: "invar d \<Longrightarrow> snd (popB (pushB d x)) = Some x \<and> seq (fst (popB (pushB d x))) = seq d"
  using popB_snoc [of "pushB d x" "seq d" x] by (simp add: seq_pushB invar_pushB)

lemma pop_front_cases:
  "invar d \<Longrightarrow> invar (fst (popF d)) \<and> seq (fst (popF d)) = tl (seq d) \<and>
     snd (popF d) = (case seq d of [] \<Rightarrow> None | x # _ \<Rightarrow> Some x)"
  using popF_Nil [of d] popF_Cons [of d] by (cases "seq d") auto

lemma pop_back_cases:
  "invar d \<Longrightarrow> invar (fst (popB d)) \<and> seq (fst (popB d)) = butlast (seq d) \<and>
     snd (popB d) = (if seq d = [] then None else Some (last (seq d)))"
  using popB_Nil [of d] popB_snoc [of d] by (cases "seq d" rule: rev_cases) auto

end

interpretation ring: deque_spec emptyDeque pushFront pushBack popFront popBack deque_len deque_at
  dq_list deque_inv
proof (unfold_locales, goal_cases)
  case 1
  show ?case by (simp add: emptyDeque_def dq_list_def)
next
  case 2
  show ?case by (simp add: emptyDeque_def deque_inv_def)
next
  case (7 d)
  then show ?case using length_dq_list [of d] by (simp add: popFront_empty)
next
  case (9 d)
  then show ?case using length_dq_list [of d] by (simp add: popBack_empty)
qed (simp_all add: pushFront_list pushBack_list popFront_list popBack_list deque_len_def dq_list_nth)

lemma deque_clone_eq: "deque_clone d = foldl pushBack emptyDeque (dq_list d)"
  by (simp add: deque_clone_def dq_list_def foldl_map)

lemma deque_clone_list: "dq_list (deque_clone d) = dq_list d" "deque_inv (deque_clone d)"
  using ring.pushes_back [OF ring.invar_empty, of "dq_list d"]
  by (simp_all add: deque_clone_eq ring.seq_empty)

lemma deque_rng_list:
  "deque_rng d start stop =
     (let n = int (dq_count d); s = rngStart n start; t = rngStop n stop
      in if s > t \<or> s \<ge> n then [] else take (Suc (nat t) - nat s) (drop (nat s) (dq_list d)))"
proof -
  let ?n = "int (dq_count d)"
  have "map (deque_at d) [nat s..<Suc (nat t)] = take (Suc (nat t) - nat s) (drop (nat s) (dq_list d))"
    if "s \<le> t" "0 \<le> s" "t < ?n" for s t
    using that by (simp add: dq_list_def drop_map take_map take_upt del: upt_Suc)
  moreover have "0 \<le> rngStart ?n start" by (simp add: rngStart_def Let_def)
  moreover have "rngStop ?n stop < ?n" by (simp add: rngStop_def Let_def)
  ultimately show ?thesis by (simp add: deque_rng_def Let_def)
qed

lemma deque_rng_all: "deque_rng d 0 (-1) = dq_list d"
proof (cases "dq_count d")
  case 0
  then have "dq_list d = []" by (simp add: dq_list_def)
  then show ?thesis using 0 by (simp add: deque_rng_list rngStart_def Let_def)
next
  case (Suc n)
  then show ?thesis
    using length_dq_list [of d] by (simp add: deque_rng_list rngStart_def rngStop_def Let_def)
qed

end
