(* ===== verification/Slices.thy ===== *)
theory Slices
  imports Golib
begin

text \<open>
  Go slices of strings with their backing arrays, for the one place in toykv where sharing a
  backing array is observable: the field order of a hash (\<^verbatim>\<open>entry.fieldOrder\<close>), which COPY
  duplicates by descriptor and HSET / HDEL write in place. The heap is a list of arrays, an
  address is an index; address 0 is the zero-capacity array of the nil slice. Every slice in
  the program starts at offset 0, so a descriptor is an address and a length, and the
  capacity is the length of the array.
\<close>

type_synonym heap = "string list list"

record slice =
  sl_arr :: nat
  sl_len :: nat

definition nilSlice :: slice where "nilSlice = \<lparr>sl_arr = 0, sl_len = 0\<rparr>"

definition emptyHeap :: heap where "emptyHeap = [[]]"

definition slice_read :: "heap \<Rightarrow> slice \<Rightarrow> string list" where
  "slice_read h s = take (sl_len s) (h ! sl_arr s)"

text \<open>
  \<^verbatim>\<open>append(s, x)\<close>: in place while there is capacity, otherwise into a fresh, larger array. The
  language leaves the new capacity open; the runtime doubles small slices.
\<close>

definition growCap :: "nat \<Rightarrow> nat" where
  "growCap n = (if n = 0 then 1 else 2 * n)"

definition slice_append :: "heap \<Rightarrow> slice \<Rightarrow> string \<Rightarrow> heap \<times> slice" where
  "slice_append h s x =
     (let a = h ! sl_arr s in
      if sl_len s < length a
      then (h[sl_arr s := a[sl_len s := x]], s\<lparr>sl_len := sl_len s + 1\<rparr>)
      else (h @ [take (sl_len s) a @ x # replicate (growCap (length a) - sl_len s - 1) []],
            \<lparr>sl_arr = length h, sl_len = sl_len s + 1\<rparr>))"

fun firstIndex :: "'a list \<Rightarrow> 'a \<Rightarrow> nat option" where
  "firstIndex [] y = None"
| "firstIndex (x # xs) y = (if x = y then Some 0 else map_option Suc (firstIndex xs y))"

text \<open>
  \<^verbatim>\<open>append(order[:i], order[i+1:]...)\<close>: the tail moves one slot down inside the same array,
  the last slot keeps its old content, the descriptor gets one shorter.
\<close>

definition slice_cut :: "heap \<Rightarrow> slice \<Rightarrow> nat \<Rightarrow> heap \<times> slice" where
  "slice_cut h s i =
     (let a = h ! sl_arr s in
      (h[sl_arr s := take i a @ take (sl_len s - Suc i) (drop (Suc i) a) @ drop (sl_len s - 1) a],
       s\<lparr>sl_len := sl_len s - 1\<rparr>))"

definition removeField :: "heap \<Rightarrow> slice \<Rightarrow> string \<Rightarrow> heap \<times> slice" where
  "removeField h order f =
     (case firstIndex (slice_read h order) f of
        None \<Rightarrow> (h, order)
      | Some i \<Rightarrow> slice_cut h order i)"

section \<open>Well-formed descriptors\<close>

definition slice_ok :: "heap \<Rightarrow> slice \<Rightarrow> bool" where
  "slice_ok h s \<longleftrightarrow> sl_arr s < length h \<and> sl_len s \<le> length (h ! sl_arr s)"

definition heap_ok :: "heap \<Rightarrow> bool" where
  "heap_ok h \<longleftrightarrow> h \<noteq> [] \<and> h ! 0 = []"

text \<open>\<open>heap_keeps h h' A\<close>: the arrays outside \<open>A\<close> are untouched.\<close>

definition heap_keeps :: "heap \<Rightarrow> heap \<Rightarrow> nat set \<Rightarrow> bool" where
  "heap_keeps h h' A \<longleftrightarrow>
     length h \<le> length h' \<and> (\<forall>a < length h. a \<notin> A \<longrightarrow> h' ! a = h ! a)"

lemma heap_keeps_refl [simp]: "heap_keeps h h A"
  by (simp add: heap_keeps_def)

lemma heap_keeps_trans:
  "heap_keeps h h1 A \<Longrightarrow> heap_keeps h1 h2 A \<Longrightarrow> heap_keeps h h2 A"
  by (fastforce simp: heap_keeps_def)

lemma heap_keeps_mono: "heap_keeps h h' A \<Longrightarrow> A \<subseteq> B \<Longrightarrow> heap_keeps h h' B"
  by (auto simp: heap_keeps_def)

lemma slice_frame:
  assumes "heap_keeps h h' A" and "slice_ok h t" and "sl_arr t \<notin> A"
  shows "slice_ok h' t" and "slice_read h' t = slice_read h t"
  using assms by (auto simp: heap_keeps_def slice_ok_def slice_read_def)

lemma nilSlice_ok [simp]: "heap_ok h \<Longrightarrow> slice_ok h nilSlice" "slice_read h nilSlice = []"
  by (auto simp: heap_ok_def slice_ok_def nilSlice_def slice_read_def)

lemma slice_nonempty_arr:
  "heap_ok h \<Longrightarrow> slice_ok h s \<Longrightarrow> slice_read h s \<noteq> [] \<Longrightarrow> sl_arr s \<noteq> 0"
  by (cases "sl_arr s = 0") (simp_all add: heap_ok_def slice_ok_def slice_read_def)

text \<open>Appending reads back as list append; it touches its own array or a fresh one.\<close>

lemma slice_append_spec:
  assumes "heap_ok h" and "slice_ok h s" and "slice_append h s x = (h', s')"
  shows "slice_read h' s' = slice_read h s @ [x]"
    and "slice_ok h' s'" and "heap_ok h'"
    and "heap_keeps h h' {sl_arr s}"
    and "sl_arr s' = sl_arr s \<or> length h \<le> sl_arr s'"
    and "sl_arr s' \<noteq> 0"
proof -
  let ?a = "h ! sl_arr s"
  have s: "sl_arr s < length h" "sl_len s \<le> length ?a" using assms(2) by (auto simp: slice_ok_def)
  show "slice_read h' s' = slice_read h s @ [x]"
  proof (cases "sl_len s < length ?a")
    case True
    have "take (Suc (sl_len s)) (?a[sl_len s := x]) = take (sl_len s) ?a @ [x]"
      using True by (simp add: take_Suc_conv_app_nth)
    with True s assms(3) show ?thesis
      by (auto simp: slice_append_def Let_def slice_read_def)
  next
    case False
    with s assms(3) show ?thesis
      by (auto simp: slice_append_def Let_def slice_read_def nth_append)
  qed
  show "slice_ok h' s'" using s assms(3)
    by (auto simp: slice_append_def Let_def slice_ok_def nth_append split: if_splits)
  show "heap_ok h'" using s assms(1,3)
    by (cases "sl_arr s = 0")
       (auto simp: slice_append_def Let_def heap_ok_def nth_append hd_conv_nth split: if_splits)
  show "heap_keeps h h' {sl_arr s}" using s assms(3)
    by (auto simp: slice_append_def Let_def heap_keeps_def nth_append split: if_splits)
  show "sl_arr s' = sl_arr s \<or> length h \<le> sl_arr s'" using assms(3)
    by (auto simp: slice_append_def Let_def split: if_splits)
  show "sl_arr s' \<noteq> 0" using s assms(1,3)
    by (cases "sl_arr s = 0")
       (auto simp: slice_append_def Let_def heap_ok_def split: if_splits)
qed

lemma firstIndex_None: "firstIndex xs y = None \<longleftrightarrow> y \<notin> set xs"
  by (induction xs) auto

lemma firstIndex_Some:
  "firstIndex xs y = Some i \<Longrightarrow> i < length xs \<and> remove1 y xs = take i xs @ drop (Suc i) xs"
proof (induction xs arbitrary: i)
  case Nil
  then show ?case by simp
next
  case (Cons x xs)
  then show ?case by (cases i) (auto split: if_splits)
qed

text \<open>Cutting reads back as list removal; it touches only its own array.\<close>

lemma removeField_spec:
  assumes "heap_ok h" and "slice_ok h s" and "removeField h s f = (h', s')"
  shows "slice_read h' s' = remove1 f (slice_read h s)"
    and "slice_ok h' s'" and "heap_ok h'"
    and "heap_keeps h h' {sl_arr s}" and "sl_arr s' = sl_arr s"
proof -
  let ?a = "h ! sl_arr s"
  have s: "sl_arr s < length h" "sl_len s \<le> length ?a" using assms(2) by (auto simp: slice_ok_def)
  have "slice_read h' s' = remove1 f (slice_read h s) \<and> slice_ok h' s' \<and> heap_ok h' \<and>
    heap_keeps h h' {sl_arr s} \<and> sl_arr s' = sl_arr s"
  proof (cases "firstIndex (slice_read h s) f")
    case None
    then have "h' = h" and "s' = s" using assms(3) by (auto simp: removeField_def)
    then show ?thesis using assms(1,2) None by (simp add: firstIndex_None remove1_idem)
  next
    case (Some i)
    let ?n = "take i ?a @ take (sl_len s - Suc i) (drop (Suc i) ?a) @ drop (sl_len s - 1) ?a"
    have i: "i < sl_len s"
      and r: "remove1 f (slice_read h s) = take i (slice_read h s) @ drop (Suc i) (slice_read h s)"
      using firstIndex_Some [OF Some] s by (auto simp: slice_read_def)
    have h': "h' = h[sl_arr s := ?n]" and s': "s' = s\<lparr>sl_len := sl_len s - 1\<rparr>"
      using assms(3) Some by (auto simp: removeField_def slice_cut_def Let_def)
    have len: "length ?n = length ?a" using i s by simp
    have "length (take i ?a @ take (sl_len s - Suc i) (drop (Suc i) ?a)) = sl_len s - 1"
      using i s by auto
    then have "take (sl_len s - 1) ?n = take i ?a @ take (sl_len s - Suc i) (drop (Suc i) ?a)"
      by (metis append_assoc append_eq_conv_conj)
    then have "slice_read h' s' = remove1 f (slice_read h s)"
      using i s r by (simp add: h' s' slice_read_def drop_take min_def)
    moreover have "heap_ok h'" using assms(1) h' len s
      by (cases "sl_arr s = 0") (auto simp: heap_ok_def)
    ultimately show ?thesis
      using s len by (auto simp: h' s' slice_ok_def heap_keeps_def nth_list_update)
  qed
  then show "slice_read h' s' = remove1 f (slice_read h s)"
    and "slice_ok h' s'" and "heap_ok h'"
    and "heap_keeps h h' {sl_arr s}" and "sl_arr s' = sl_arr s" by blast+
qed

end
