(* ===== verification/Store.thy ===== *)
theory Store
  imports Deque Slices "HOL-Library.Multiset"
begin

text \<open>
  The in-memory keyspace (\<^verbatim>\<open>internal/store\<close>: \<^verbatim>\<open>entry.go\<close>, \<^verbatim>\<open>errors.go\<close>, \<^verbatim>\<open>store.go\<close>,
  \<^verbatim>\<open>typed.go\<close>, \<^verbatim>\<open>keyspace.go\<close>). Each exported method is one definition on the store record,
  executed under the store mutex; the clock reading is the argument \<open>now\<close>. A Go map is an
  association list; a method that ranges over the map takes the visiting order \<open>ord\<close>, a
  permutation of the entries. The field order of a hash is a slice of the heap \<open>st_heap\<close>, so
  that the sharing introduced by COPY is part of the model. Telemetry counters are left out.
\<close>

section \<open>Data\<close>

datatype valueType = typeString | typeList | typeHash

primrec valueType_String :: "valueType \<Rightarrow> string" where
  "valueType_String typeString = ''string''"
| "valueType_String typeList = ''list''"
| "valueType_String typeHash = ''hash''"

record entry =
  e_typ :: valueType
  e_str :: bytes
  e_list :: deque
  e_hash :: "(string \<times> bytes) list"
  e_fieldOrder :: slice
  e_expireAt :: time
  e_seq :: nat

text \<open>The composite literal \<^verbatim>\<open>entry{typ: t, seq: q}\<close>: every other field has its zero value.\<close>

definition newEntry :: "valueType \<Rightarrow> nat \<Rightarrow> entry" where
  "newEntry t q = \<lparr>e_typ = t, e_str = [], e_list = emptyDeque, e_hash = [],
     e_fieldOrder = nilSlice, e_expireAt = zeroTime, e_seq = q\<rparr>"

definition expired :: "entry \<Rightarrow> time \<Rightarrow> bool" where
  "expired e now \<longleftrightarrow> \<not> isZero (e_expireAt e) \<and> \<not> now < e_expireAt e"

datatype store_err =
    ErrNotInteger | ErrOverflow | ErrWrongType | ErrNoKey | ErrSameObject | ErrBadPattern

datatype SetMode = SetAlways | SetNX | SetXX

record SetOpts =
  so_Mode :: SetMode
  so_ExpireAt :: time

definition TTLNoKey :: int where "TTLNoKey = -2 * Second"
definition TTLNoExpire :: int where "TTLNoExpire = -1 * Second"

record store =
  st_data :: "(string \<times> entry) list"
  st_seqCounter :: nat
  st_heap :: heap

definition NewStore :: store where
  "NewStore = \<lparr>st_data = [], st_seqCounter = 0, st_heap = emptyHeap\<rparr>"

text \<open>The sequence counter is a uint64.\<close>

definition nextSeq :: "store \<Rightarrow> nat \<times> store" where
  "nextSeq s =
     (let c = (st_seqCounter s + 1) mod 18446744073709551616
      in (c, s\<lparr>st_seqCounter := c\<rparr>))"

abbreviation lookup :: "store \<Rightarrow> string \<Rightarrow> entry option" where
  "lookup s k \<equiv> map_of (st_data s) k"

definition putEntry :: "string \<Rightarrow> entry \<Rightarrow> store \<Rightarrow> store" where
  "putEntry k e s = s\<lparr>st_data := AList.update k e (st_data s)\<rparr>"

definition delEntry :: "string \<Rightarrow> store \<Rightarrow> store" where
  "delEntry k s = s\<lparr>st_data := AList.delete k (st_data s)\<rparr>"

section \<open>store.go\<close>

text \<open>
  Get takes the read lock, and when it meets an expired entry releases it and takes the
  write lock: two atomic sections, the second re-reading the key. \<open>None\<close> of the first
  section means that the second one runs.
\<close>

definition getRLocked :: "time \<Rightarrow> string \<Rightarrow> store \<Rightarrow> (store_err + bytes option) option" where
  "getRLocked now k s =
     (case lookup s k of
        None \<Rightarrow> Some (Inr None)
      | Some e \<Rightarrow>
          if \<not> expired e now
          then (if e_typ e \<noteq> typeString then Some (Inl ErrWrongType) else Some (Inr (Some (e_str e))))
          else None)"

definition getLocked :: "time \<Rightarrow> string \<Rightarrow> store \<Rightarrow> (store_err + bytes option) \<times> store" where
  "getLocked now k s =
     (case lookup s k of
        None \<Rightarrow> (Inr None, s)
      | Some e \<Rightarrow>
          if expired e now then (Inr None, delEntry k s)
          else if e_typ e \<noteq> typeString then (Inl ErrWrongType, s)
          else (Inr (Some (e_str e)), s))"

definition Store_Get :: "time \<Rightarrow> string \<Rightarrow> store \<Rightarrow> (store_err + bytes option) \<times> store" where
  "Store_Get now k s =
     (case getRLocked now k s of Some r \<Rightarrow> (r, s) | None \<Rightarrow> getLocked now k s)"

definition Store_Exists :: "time \<Rightarrow> string list \<Rightarrow> store \<Rightarrow> nat" where
  "Store_Exists now keys s =
     foldl (\<lambda>n k. case lookup s k of
                    Some e \<Rightarrow> if \<not> expired e now then n + 1 else n
                  | None \<Rightarrow> n) 0 keys"

fun keysLoop :: "time \<Rightarrow> string \<Rightarrow> (string \<times> entry) list \<Rightarrow> string list \<Rightarrow> store_err + string list" where
  "keysLoop now pattern [] out = Inr out"
| "keysLoop now pattern ((k, e) # rest) out =
     (if expired e now then keysLoop now pattern rest out
      else case pathMatch pattern k of
             None \<Rightarrow> Inl ErrBadPattern
           | Some ok \<Rightarrow> keysLoop now pattern rest (if ok then out @ [k] else out))"

definition Store_Keys ::
  "(string \<times> entry) list \<Rightarrow> time \<Rightarrow> string \<Rightarrow> store_err + string list" where
  "Store_Keys ord now pattern =
     (case pathMatch pattern [] of
        None \<Rightarrow> Inl ErrBadPattern
      | Some _ \<Rightarrow> keysLoop now pattern ord [])"

text \<open>SCAN: the candidates past the cursor ordered by sequence, then the bounded walk.\<close>

fun scanCand :: "time \<Rightarrow> nat \<Rightarrow> (string \<times> entry) list \<Rightarrow> (string \<times> nat) list \<Rightarrow> (string \<times> nat) list" where
  "scanCand now cursor [] cand = cand"
| "scanCand now cursor ((k, e) # rest) cand =
     scanCand now cursor rest
       (if e_seq e > cursor \<and> \<not> expired e now then cand @ [(k, e_seq e)] else cand)"

fun scanLoop ::
  "string \<Rightarrow> int \<Rightarrow> (string \<times> nat) list \<Rightarrow> int \<Rightarrow> nat \<Rightarrow> string list \<Rightarrow> store_err + string list \<times> nat \<times> int"
where
  "scanLoop match cnt [] examined lst out = Inr (out, lst, examined)"
| "scanLoop match cnt ((k, q) # rest) examined lst out =
     (if examined \<ge> cnt then Inr (out, lst, examined)
      else case pathMatch match k of
             None \<Rightarrow> Inl ErrBadPattern
           | Some ok \<Rightarrow> scanLoop match cnt rest (examined + 1) q (if ok then out @ [k] else out))"

definition Store_Scan ::
  "(string \<times> entry) list \<Rightarrow> time \<Rightarrow> nat \<Rightarrow> string \<Rightarrow> int \<Rightarrow> store_err + string list \<times> nat" where
  "Store_Scan ord now cursor match count0 =
     (case pathMatch match [] of
        None \<Rightarrow> Inl ErrBadPattern
      | Some _ \<Rightarrow>
          (let cnt = (if count0 \<le> 0 then 10 else count0);
               cand = sort_key snd (scanCand now cursor ord [])
           in case scanLoop match cnt cand 0 0 [] of
                Inl err \<Rightarrow> Inl err
              | Inr (out, lst, examined) \<Rightarrow>
                  if examined \<ge> int (length cand) then Inr (out, 0) else Inr (out, lst)))"

definition Store_DBSize :: "store \<Rightarrow> nat" where
  "Store_DBSize s = length (st_data s)"

definition Store_Set :: "time \<Rightarrow> string \<Rightarrow> bytes \<Rightarrow> SetOpts \<Rightarrow> store \<Rightarrow> bool \<times> store" where
  "Store_Set now k v opts s0 =
     (let (s, existing) =
        (case lookup s0 k of
           None \<Rightarrow> (s0, None)
         | Some e \<Rightarrow> if expired e now then (delEntry k s0, None) else (s0, Some e))
      in if so_Mode opts = SetNX \<and> existing \<noteq> None then (False, s)
         else if so_Mode opts = SetXX \<and> existing = None then (False, s)
         else (let (q, s1) = (case existing of Some e \<Rightarrow> (e_seq e, s) | None \<Rightarrow> nextSeq s)
               in (True, putEntry k ((newEntry typeString q)\<lparr>e_str := v, e_expireAt := so_ExpireAt opts\<rparr>) s1)))"

fun delLoop :: "time \<Rightarrow> string list \<Rightarrow> store \<Rightarrow> nat \<Rightarrow> nat \<times> store" where
  "delLoop now [] s n = (n, s)"
| "delLoop now (k # keys) s n =
     (case lookup s k of
        None \<Rightarrow> delLoop now keys s n
      | Some e \<Rightarrow> delLoop now keys (delEntry k s) (if \<not> expired e now then n + 1 else n))"

definition Store_Del :: "time \<Rightarrow> string list \<Rightarrow> store \<Rightarrow> nat \<times> store" where
  "Store_Del now keys s = delLoop now keys s 0"

definition Store_Expire :: "time \<Rightarrow> string \<Rightarrow> time \<Rightarrow> store \<Rightarrow> bool \<times> store" where
  "Store_Expire now k expireAt s =
     (case lookup s k of
        None \<Rightarrow> (False, s)
      | Some e \<Rightarrow>
          if expired e now then (False, delEntry k s)
          else (True, putEntry k (e\<lparr>e_expireAt := expireAt\<rparr>) s))"

definition Store_Persist :: "time \<Rightarrow> string \<Rightarrow> store \<Rightarrow> bool \<times> store" where
  "Store_Persist now k s =
     (case lookup s k of
        None \<Rightarrow> (False, s)
      | Some e \<Rightarrow>
          if expired e now then (False, delEntry k s)
          else if isZero (e_expireAt e) then (False, s)
          else (True, putEntry k (e\<lparr>e_expireAt := zeroTime\<rparr>) s))"

definition Store_TTL :: "time \<Rightarrow> string \<Rightarrow> store \<Rightarrow> int" where
  "Store_TTL now k s =
     (case lookup s k of
        None \<Rightarrow> TTLNoKey
      | Some e \<Rightarrow>
          if expired e now then TTLNoKey
          else if isZero (e_expireAt e) then TTLNoExpire
          else timeSub (e_expireAt e) now)"

text \<open>The last section of incrBy, entered with the parsed value and the sequence (0: none).\<close>

definition incrFinish :: "string \<Rightarrow> int \<Rightarrow> int \<Rightarrow> nat \<Rightarrow> store \<Rightarrow> (store_err + int) \<times> store" where
  "incrFinish k delta n q s =
     (if (delta > 0 \<and> n > MaxInt64 - delta) \<or> (delta < 0 \<and> n < MinInt64 - delta)
      then (Inl ErrOverflow, s)
      else (let m = wrap64 (n + delta);
                (q', s') = (if q = 0 then nextSeq s else (q, s))
            in (Inr m, putEntry k ((newEntry typeString q')\<lparr>e_str := formatInt m\<rparr>) s')))"

definition incrBy :: "time \<Rightarrow> string \<Rightarrow> int \<Rightarrow> store \<Rightarrow> (store_err + int) \<times> store" where
  "incrBy now k delta s =
     (case lookup s k of
        None \<Rightarrow> incrFinish k delta 0 0 s
      | Some e \<Rightarrow>
          if expired e now then incrFinish k delta 0 0 (delEntry k s)
          else if e_typ e \<noteq> typeString then (Inl ErrWrongType, s)
          else (case parseInt (e_str e) of
                  None \<Rightarrow> (Inl ErrNotInteger, s)
                | Some n \<Rightarrow> incrFinish k delta n (e_seq e) s))"

definition Store_Incr :: "time \<Rightarrow> string \<Rightarrow> store \<Rightarrow> (store_err + int) \<times> store" where
  "Store_Incr now k s = incrBy now k 1 s"

definition Store_Decr :: "time \<Rightarrow> string \<Rightarrow> store \<Rightarrow> (store_err + int) \<times> store" where
  "Store_Decr now k s = incrBy now k (-1) s"

record snapshotEntry =
  se_Key :: string
  se_Type :: string
  se_Value :: bytes
  se_List :: "bytes list"
  se_Hash :: "(string \<times> bytes) list"
  se_HashOrder :: "string list"
  se_ExpireAt :: time

definition snapEntry :: "heap \<Rightarrow> string \<Rightarrow> entry \<Rightarrow> snapshotEntry" where
  "snapEntry h k e =
     (let se = \<lparr>se_Key = k, se_Type = valueType_String (e_typ e), se_Value = [], se_List = [],
                se_Hash = [], se_HashOrder = [], se_ExpireAt = e_expireAt e\<rparr>
      in case e_typ e of
           typeString \<Rightarrow> se\<lparr>se_Value := e_str e\<rparr>
         | typeList \<Rightarrow> se\<lparr>se_List := deque_rng (e_list e) 0 (-1)\<rparr>
         | typeHash \<Rightarrow> se\<lparr>se_Hash := e_hash e, se_HashOrder := slice_read h (e_fieldOrder e)\<rparr>)"

fun snapshotLoop ::
  "time \<Rightarrow> (string \<times> entry) list \<Rightarrow> store \<Rightarrow> snapshotEntry list \<Rightarrow> snapshotEntry list \<times> store" where
  "snapshotLoop now [] s out = (out, s)"
| "snapshotLoop now ((k, e) # rest) s out =
     (if expired e now then snapshotLoop now rest (delEntry k s) out
      else snapshotLoop now rest s (out @ [snapEntry (st_heap s) k e]))"

definition Store_Snapshot ::
  "(string \<times> entry) list \<Rightarrow> time \<Rightarrow> store \<Rightarrow> snapshotEntry list \<times> store" where
  "Store_Snapshot ord now s = snapshotLoop now ord s []"

definition Store_FlushDB :: "store \<Rightarrow> store" where
  "Store_FlushDB s = s\<lparr>st_data := []\<rparr>"

fun sweepLoop ::
  "time \<Rightarrow> int \<Rightarrow> (string \<times> entry) list \<Rightarrow> int \<Rightarrow> int \<Rightarrow> store \<Rightarrow> int \<times> int \<times> store" where
  "sweepLoop now batch [] sampled evicted s = (sampled, evicted, s)"
| "sweepLoop now batch ((k, e) # rest) sampled evicted s =
     (if sampled \<ge> batch then (sampled, evicted, s)
      else if expired e now
           then sweepLoop now batch rest (sampled + 1) (evicted + 1) (delEntry k s)
           else sweepLoop now batch rest (sampled + 1) evicted s)"

definition sweepOnce :: "(string \<times> entry) list \<Rightarrow> time \<Rightarrow> int \<Rightarrow> store \<Rightarrow> int \<times> int \<times> store" where
  "sweepOnce ord now batch s =
     (if batch \<le> 0 then (0, 0, s) else sweepLoop now batch ord 0 0 s)"

section \<open>typed.go\<close>

definition getForWrite :: "time \<Rightarrow> string \<Rightarrow> store \<Rightarrow> entry option \<times> store" where
  "getForWrite now k s =
     (case lookup s k of
        None \<Rightarrow> (None, s)
      | Some e \<Rightarrow> if expired e now then (None, delEntry k s) else (Some e, s))"

definition getForRead :: "time \<Rightarrow> string \<Rightarrow> store \<Rightarrow> entry option" where
  "getForRead now k s =
     (case lookup s k of
        None \<Rightarrow> None
      | Some e \<Rightarrow> if expired e now then None else Some e)"

definition Store_Type :: "time \<Rightarrow> string \<Rightarrow> store \<Rightarrow> string option" where
  "Store_Type now k s = map_option (\<lambda>e. valueType_String (e_typ e)) (getForRead now k s)"

definition push :: "time \<Rightarrow> string \<Rightarrow> bytes list \<Rightarrow> bool \<Rightarrow> store \<Rightarrow> (store_err + int) \<times> store" where
  "push now k vals front s =
     (let (r, s1) = getForWrite now k s;
          (e, s2) = (case r of
                       Some e \<Rightarrow> (e, s1)
                     | None \<Rightarrow> (let (q, s') = nextSeq s1 in (newEntry typeList q, s')))
      in if r \<noteq> None \<and> e_typ e \<noteq> typeList then (Inl ErrWrongType, s2)
         else (let e' = e\<lparr>e_list := foldl (if front then pushFront else pushBack) (e_list e) vals\<rparr>
               in (Inr (int (deque_len (e_list e'))), putEntry k e' s2)))"

definition Store_LPush :: "time \<Rightarrow> string \<Rightarrow> bytes list \<Rightarrow> store \<Rightarrow> (store_err + int) \<times> store" where
  "Store_LPush now k vals s = push now k vals True s"

definition Store_RPush :: "time \<Rightarrow> string \<Rightarrow> bytes list \<Rightarrow> store \<Rightarrow> (store_err + int) \<times> store" where
  "Store_RPush now k vals s = push now k vals False s"

definition pop :: "time \<Rightarrow> string \<Rightarrow> bool \<Rightarrow> store \<Rightarrow> (store_err + bytes option) \<times> store" where
  "pop now k front s0 =
     (let (r, s) = getForWrite now k s0
      in case r of
           None \<Rightarrow> (Inr None, s)
         | Some e \<Rightarrow>
             if e_typ e \<noteq> typeList then (Inl ErrWrongType, s)
             else (let (d, got) = (if front then popFront else popBack) (e_list e)
                   in case got of
                        None \<Rightarrow> (Inr None, delEntry k s)
                      | Some v \<Rightarrow>
                          (Inr (Some v),
                           if deque_len d = 0 then delEntry k s else putEntry k (e\<lparr>e_list := d\<rparr>) s)))"

definition Store_LPop :: "time \<Rightarrow> string \<Rightarrow> store \<Rightarrow> (store_err + bytes option) \<times> store" where
  "Store_LPop now k s = pop now k True s"

definition Store_RPop :: "time \<Rightarrow> string \<Rightarrow> store \<Rightarrow> (store_err + bytes option) \<times> store" where
  "Store_RPop now k s = pop now k False s"

definition Store_LLen :: "time \<Rightarrow> string \<Rightarrow> store \<Rightarrow> store_err + int" where
  "Store_LLen now k s =
     (case getForRead now k s of
        None \<Rightarrow> Inr 0
      | Some e \<Rightarrow> if e_typ e \<noteq> typeList then Inl ErrWrongType else Inr (int (deque_len (e_list e))))"

definition Store_LRange :: "time \<Rightarrow> string \<Rightarrow> int \<Rightarrow> int \<Rightarrow> store \<Rightarrow> store_err + bytes list" where
  "Store_LRange now k start stop s =
     (case getForRead now k s of
        None \<Rightarrow> Inr []
      | Some e \<Rightarrow> if e_typ e \<noteq> typeList then Inl ErrWrongType else Inr (deque_rng (e_list e) start stop))"

definition Store_LIndex :: "time \<Rightarrow> string \<Rightarrow> int \<Rightarrow> store \<Rightarrow> store_err + bytes option" where
  "Store_LIndex now k i0 s =
     (case getForRead now k s of
        None \<Rightarrow> Inr None
      | Some e \<Rightarrow>
          if e_typ e \<noteq> typeList then Inl ErrWrongType
          else (let n = int (deque_len (e_list e)); i = (if i0 < 0 then i0 + n else i0)
                in if i < 0 \<or> i \<ge> n then Inr None else Inr (Some (deque_at (e_list e) (nat i)))))"

text \<open>Indexing a Go map with an absent key gives the zero value, here the nil slice.\<close>

definition hashGet :: "(string \<times> bytes) list \<Rightarrow> string \<Rightarrow> bytes" where
  "hashGet m f = (case map_of m f of None \<Rightarrow> [] | Some v \<Rightarrow> v)"

fun hsetLoop :: "bytes list \<Rightarrow> heap \<Rightarrow> entry \<Rightarrow> int \<Rightarrow> int \<times> heap \<times> entry" where
  "hsetLoop (f # v # pairs) h e created =
     (let (created', h', e') =
        (if map_of (e_hash e) f = None
         then (let (h1, o1) = slice_append h (e_fieldOrder e) f
               in (created + 1, h1, e\<lparr>e_fieldOrder := o1\<rparr>))
         else (created, h, e))
      in hsetLoop pairs h' (e'\<lparr>e_hash := AList.update f v (e_hash e')\<rparr>) created')"
| "hsetLoop _ h e created = (created, h, e)"

definition Store_HSet :: "time \<Rightarrow> string \<Rightarrow> bytes list \<Rightarrow> store \<Rightarrow> (store_err + int) \<times> store" where
  "Store_HSet now k pairs s =
     (let (r, s1) = getForWrite now k s;
          (e, s2) = (case r of
                       Some e \<Rightarrow> (e, s1)
                     | None \<Rightarrow> (let (q, s') = nextSeq s1 in (newEntry typeHash q, s')))
      in if r \<noteq> None \<and> e_typ e \<noteq> typeHash then (Inl ErrWrongType, s2)
         else (let (created, h', e') = hsetLoop pairs (st_heap s2) e 0
               in (Inr created, putEntry k e' (s2\<lparr>st_heap := h'\<rparr>))))"

definition Store_HGet :: "time \<Rightarrow> string \<Rightarrow> string \<Rightarrow> store \<Rightarrow> store_err + bytes option" where
  "Store_HGet now k f s =
     (case getForRead now k s of
        None \<Rightarrow> Inr None
      | Some e \<Rightarrow> if e_typ e \<noteq> typeHash then Inl ErrWrongType else Inr (map_of (e_hash e) f))"

fun hdelLoop :: "string list \<Rightarrow> heap \<Rightarrow> entry \<Rightarrow> int \<Rightarrow> int \<times> heap \<times> entry" where
  "hdelLoop [] h e n = (n, h, e)"
| "hdelLoop (f # flds) h e n =
     (if map_of (e_hash e) f \<noteq> None
      then (let (h', o') = removeField h (e_fieldOrder e) f
            in hdelLoop flds h'
                 (e\<lparr>e_hash := AList.delete f (e_hash e), e_fieldOrder := o'\<rparr>) (n + 1))
      else hdelLoop flds h e n)"

definition Store_HDel :: "time \<Rightarrow> string \<Rightarrow> string list \<Rightarrow> store \<Rightarrow> (store_err + int) \<times> store" where
  "Store_HDel now k flds s0 =
     (let (r, s) = getForWrite now k s0
      in case r of
           None \<Rightarrow> (Inr 0, s)
         | Some e \<Rightarrow>
             if e_typ e \<noteq> typeHash then (Inl ErrWrongType, s)
             else (let (n, h', e') = hdelLoop flds (st_heap s) e 0; s' = s\<lparr>st_heap := h'\<rparr>
                   in (Inr n, if length (e_hash e') = 0 then delEntry k s' else putEntry k e' s')))"

definition Store_HExists :: "time \<Rightarrow> string \<Rightarrow> string \<Rightarrow> store \<Rightarrow> store_err + bool" where
  "Store_HExists now k f s =
     (case getForRead now k s of
        None \<Rightarrow> Inr False
      | Some e \<Rightarrow> if e_typ e \<noteq> typeHash then Inl ErrWrongType else Inr (map_of (e_hash e) f \<noteq> None))"

definition Store_HKeys :: "time \<Rightarrow> string \<Rightarrow> store \<Rightarrow> store_err + string list" where
  "Store_HKeys now k s =
     (case getForRead now k s of
        None \<Rightarrow> Inr []
      | Some e \<Rightarrow>
          if e_typ e \<noteq> typeHash then Inl ErrWrongType
          else Inr (slice_read (st_heap s) (e_fieldOrder e)))"

definition Store_HVals :: "time \<Rightarrow> string \<Rightarrow> store \<Rightarrow> store_err + bytes list" where
  "Store_HVals now k s =
     (case getForRead now k s of
        None \<Rightarrow> Inr []
      | Some e \<Rightarrow>
          if e_typ e \<noteq> typeHash then Inl ErrWrongType
          else Inr (map (hashGet (e_hash e)) (slice_read (st_heap s) (e_fieldOrder e))))"

definition Store_HLen :: "time \<Rightarrow> string \<Rightarrow> store \<Rightarrow> store_err + int" where
  "Store_HLen now k s =
     (case getForRead now k s of
        None \<Rightarrow> Inr 0
      | Some e \<Rightarrow> if e_typ e \<noteq> typeHash then Inl ErrWrongType else Inr (int (length (e_hash e))))"

definition Store_HGetAll :: "time \<Rightarrow> string \<Rightarrow> store \<Rightarrow> store_err + bytes list" where
  "Store_HGetAll now k s =
     (case getForRead now k s of
        None \<Rightarrow> Inr []
      | Some e \<Rightarrow>
          if e_typ e \<noteq> typeHash then Inl ErrWrongType
          else Inr (concat (map (\<lambda>f. [f, hashGet (e_hash e) f])
                             (slice_read (st_heap s) (e_fieldOrder e)))))"

section \<open>keyspace.go\<close>

text \<open>
  clone replaces the payload of the entry's own type by a copy. The struct assignment
  before it copies the field-order slice by descriptor, and no case replaces it.
\<close>

definition entry_clone :: "entry \<Rightarrow> entry" where
  "entry_clone e =
     (case e_typ e of
        typeString \<Rightarrow> e\<lparr>e_str := e_str e\<rparr>
      | typeList \<Rightarrow> e\<lparr>e_list := deque_clone (e_list e)\<rparr>
      | typeHash \<Rightarrow> e\<lparr>e_hash := e_hash e\<rparr>)"

definition Store_Rename :: "time \<Rightarrow> string \<Rightarrow> string \<Rightarrow> store \<Rightarrow> (store_err + unit) \<times> store" where
  "Store_Rename now src dst s0 =
     (let (r, s) = getForWrite now src s0
      in case r of
           None \<Rightarrow> (Inl ErrNoKey, s)
         | Some e \<Rightarrow>
             if src = dst then (Inr (), s)
             else (let (q, s1) = nextSeq s
                   in (Inr (), putEntry dst (e\<lparr>e_seq := q\<rparr>) (delEntry src s1))))"

definition Store_RenameNX :: "time \<Rightarrow> string \<Rightarrow> string \<Rightarrow> store \<Rightarrow> (store_err + bool) \<times> store" where
  "Store_RenameNX now src dst s0 =
     (let (r, s) = getForWrite now src s0
      in case r of
           None \<Rightarrow> (Inl ErrNoKey, s)
         | Some e \<Rightarrow>
             if src = dst then (Inr False, s)
             else (let (x, s1) = getForWrite now dst s
                   in if x \<noteq> None then (Inr False, s1)
                      else (let (q, s2) = nextSeq s1
                            in (Inr True, putEntry dst (e\<lparr>e_seq := q\<rparr>) (delEntry src s2)))))"

definition Store_Copy :: "time \<Rightarrow> string \<Rightarrow> string \<Rightarrow> bool \<Rightarrow> store \<Rightarrow> (store_err + bool) \<times> store" where
  "Store_Copy now src dst replace s0 =
     (let (r, s) = getForWrite now src s0
      in case r of
           None \<Rightarrow> (Inr False, s)
         | Some e \<Rightarrow>
             if src = dst then (Inl ErrSameObject, s)
             else (let (x, s1) = getForWrite now dst s
                   in if x \<noteq> None \<and> \<not> replace then (Inr False, s1)
                      else (let (q, s2) = nextSeq s1
                            in (Inr True, putEntry dst ((entry_clone e)\<lparr>e_seq := q\<rparr>) s2))))"

text \<open>The definitions of the operations, for evaluation.\<close>

lemmas [store_defs] =
  newEntry_def expired_def TTLNoKey_def TTLNoExpire_def NewStore_def nextSeq_def putEntry_def
  delEntry_def getRLocked_def getLocked_def Store_Get_def Store_Exists_def Store_Keys_def
  Store_Scan_def Store_DBSize_def Store_Set_def Store_Del_def Store_Expire_def Store_Persist_def
  Store_TTL_def incrFinish_def incrBy_def Store_Incr_def Store_Decr_def snapEntry_def
  Store_Snapshot_def Store_FlushDB_def sweepOnce_def getForWrite_def getForRead_def Store_Type_def
  push_def Store_LPush_def Store_RPush_def pop_def Store_LPop_def Store_RPop_def Store_LLen_def
  Store_LRange_def Store_LIndex_def hashGet_def Store_HSet_def Store_HGet_def Store_HDel_def
  Store_HExists_def Store_HKeys_def Store_HVals_def Store_HLen_def Store_HGetAll_def
  entry_clone_def Store_Rename_def Store_RenameNX_def Store_Copy_def
  emptyDeque_def deque_len_def deque_at_def grow_def growIfFull_def pushFront_def pushBack_def popFront_def
  popBack_def deque_clone_def deque_rng_def rngStart_def rngStop_def nilSlice_def emptyHeap_def slice_read_def
  growCap_def slice_append_def slice_cut_def removeField_def isZero_def zeroTime_def Second_def

end
