(* ===== verification/StoreSpec.thy ===== *)
theory StoreSpec
  imports Store
begin

text \<open>
  What the keyspace promises: a map from keys to values with deadlines, in which a key whose
  deadline has passed is absent. \<open>view\<close> is the abstraction of a store at an instant, \<open>spec\<close>
  the abstract effect of each operation, and the refinement lemmas say that every method of
  the store implements its abstract operation; eviction, creation sequences, ring buffers
  and field-order arrays are invisible.
\<close>

section \<open>The abstract keyspace\<close>

datatype aval = VString bytes | VList "bytes list" | VHash "(string \<times> bytes) list"

type_synonym db = "string \<Rightarrow> (aval \<times> time) option"

definition hashPairs :: "heap \<Rightarrow> entry \<Rightarrow> (string \<times> bytes) list" where
  "hashPairs h e = map (\<lambda>f. (f, hashGet (e_hash e) f)) (slice_read h (e_fieldOrder e))"

definition avalOf :: "heap \<Rightarrow> entry \<Rightarrow> aval" where
  "avalOf h e =
     (case e_typ e of
        typeString \<Rightarrow> VString (e_str e)
      | typeList \<Rightarrow> VList (dq_list (e_list e))
      | typeHash \<Rightarrow> VHash (hashPairs h e))"

definition view :: "store \<Rightarrow> time \<Rightarrow> db" where
  "view s now k =
     (case lookup s k of
        None \<Rightarrow> None
      | Some e \<Rightarrow> if expired e now then None else Some (avalOf (st_heap s) e, e_expireAt e))"

text \<open>\<open>live now\<close> drops the keys whose deadline has passed.\<close>

definition live :: "time \<Rightarrow> db \<Rightarrow> db" where
  "live now db k =
     (case db k of
        None \<Rightarrow> None
      | Some (v, t) \<Rightarrow> if \<not> isZero t \<and> \<not> now < t then None else Some (v, t))"

section \<open>Abstract operations\<close>

datatype store_op =
    OGet string
  | OExists "string list"
  | OSet string bytes SetMode time
  | ODel "string list"
  | OExpire string time
  | OPersist string
  | OTTL string
  | OIncr string
  | ODecr string
  | OType string
  | OLPush string "bytes list"
  | ORPush string "bytes list"
  | OLPop string
  | ORPop string
  | OLLen string
  | OLRange string int int
  | OLIndex string int
  | OHSet string "bytes list"
  | OHGet string string
  | OHDel string "string list"
  | OHExists string string
  | OHKeys string
  | OHVals string
  | OHLen string
  | OHGetAll string
  | ORename string string
  | ORenameNX string string
  | OCopy string string bool
  | OFlushDB

datatype store_reply =
    RpErr store_err
  | RpUnit
  | RpBool bool
  | RpInt int
  | RpOpt "bytes option"
  | RpList "bytes list"

fun rpWith :: "('a \<Rightarrow> store_reply) \<Rightarrow> store_err + 'a \<Rightarrow> store_reply" where
  "rpWith f (Inl e) = RpErr e"
| "rpWith f (Inr x) = f x"

text \<open>\<open>store_exec\<close> runs the method of the store behind an operation.\<close>

fun store_exec :: "time \<Rightarrow> store_op \<Rightarrow> store \<Rightarrow> store_reply \<times> store" where
  "store_exec now (OGet k) s = apfst (rpWith RpOpt) (Store_Get now k s)"
| "store_exec now (OExists ks) s = (RpInt (int (Store_Exists now ks s)), s)"
| "store_exec now (OSet k v m t) s = apfst RpBool (Store_Set now k v \<lparr>so_Mode = m, so_ExpireAt = t\<rparr> s)"
| "store_exec now (ODel ks) s = apfst (RpInt \<circ> int) (Store_Del now ks s)"
| "store_exec now (OExpire k t) s = apfst RpBool (Store_Expire now k t s)"
| "store_exec now (OPersist k) s = apfst RpBool (Store_Persist now k s)"
| "store_exec now (OTTL k) s = (RpInt (Store_TTL now k s), s)"
| "store_exec now (OIncr k) s = apfst (rpWith RpInt) (Store_Incr now k s)"
| "store_exec now (ODecr k) s = apfst (rpWith RpInt) (Store_Decr now k s)"
| "store_exec now (OType k) s = (RpOpt (Store_Type now k s), s)"
| "store_exec now (OLPush k vs) s = apfst (rpWith RpInt) (Store_LPush now k vs s)"
| "store_exec now (ORPush k vs) s = apfst (rpWith RpInt) (Store_RPush now k vs s)"
| "store_exec now (OLPop k) s = apfst (rpWith RpOpt) (Store_LPop now k s)"
| "store_exec now (ORPop k) s = apfst (rpWith RpOpt) (Store_RPop now k s)"
| "store_exec now (OLLen k) s = (rpWith RpInt (Store_LLen now k s), s)"
| "store_exec now (OLRange k i j) s = (rpWith RpList (Store_LRange now k i j s), s)"
| "store_exec now (OLIndex k i) s = (rpWith RpOpt (Store_LIndex now k i s), s)"
| "store_exec now (OHSet k ps) s = apfst (rpWith RpInt) (Store_HSet now k ps s)"
| "store_exec now (OHGet k f) s = (rpWith RpOpt (Store_HGet now k f s), s)"
| "store_exec now (OHDel k fs) s = apfst (rpWith RpInt) (Store_HDel now k fs s)"
| "store_exec now (OHExists k f) s = (rpWith RpBool (Store_HExists now k f s), s)"
| "store_exec now (OHKeys k) s = (rpWith RpList (Store_HKeys now k s), s)"
| "store_exec now (OHVals k) s = (rpWith RpList (Store_HVals now k s), s)"
| "store_exec now (OHLen k) s = (rpWith RpInt (Store_HLen now k s), s)"
| "store_exec now (OHGetAll k) s = (rpWith RpList (Store_HGetAll now k s), s)"
| "store_exec now (ORename a b) s = apfst (rpWith (\<lambda>_. RpUnit)) (Store_Rename now a b s)"
| "store_exec now (ORenameNX a b) s = apfst (rpWith RpBool) (Store_RenameNX now a b s)"
| "store_exec now (OCopy a b r) s = apfst (rpWith RpBool) (Store_Copy now a b r s)"
| "store_exec now OFlushDB s = (RpUnit, Store_FlushDB s)"

text \<open>The specification of the operations, without expiry, sequences or representation.\<close>

definition specIncr :: "string \<Rightarrow> int \<Rightarrow> db \<Rightarrow> store_reply \<times> db" where
  "specIncr k delta db =
     (case (case db k of
              None \<Rightarrow> Inr 0
            | Some (VString v, _) \<Rightarrow> (case parseInt v of None \<Rightarrow> Inl ErrNotInteger | Some n \<Rightarrow> Inr n)
            | Some _ \<Rightarrow> Inl ErrWrongType) of
        Inl err \<Rightarrow> (RpErr err, db)
      | Inr n \<Rightarrow> if int64 (n + delta)
                 then (RpInt (n + delta), db(k \<mapsto> (VString (formatInt (n + delta)), zeroTime)))
                 else (RpErr ErrOverflow, db))"

definition specPush :: "string \<Rightarrow> (bytes list \<Rightarrow> bytes list) \<Rightarrow> db \<Rightarrow> store_reply \<times> db" where
  "specPush k f db =
     (case db k of
        None \<Rightarrow> (RpInt (int (length (f []))), db(k \<mapsto> (VList (f []), zeroTime)))
      | Some (VList xs, t) \<Rightarrow> (RpInt (int (length (f xs))), db(k \<mapsto> (VList (f xs), t)))
      | Some _ \<Rightarrow> (RpErr ErrWrongType, db))"

definition specPop ::
  "string \<Rightarrow> (bytes list \<Rightarrow> bytes) \<Rightarrow> (bytes list \<Rightarrow> bytes list) \<Rightarrow> db \<Rightarrow> store_reply \<times> db" where
  "specPop k item rest db =
     (case db k of
        None \<Rightarrow> (RpOpt None, db)
      | Some (VList xs, t) \<Rightarrow>
          (RpOpt (Some (item xs)),
           if rest xs = [] then db(k := None) else db(k \<mapsto> (VList (rest xs), t)))
      | Some _ \<Rightarrow> (RpErr ErrWrongType, db))"

definition readList :: "string \<Rightarrow> db \<Rightarrow> store_reply \<Rightarrow> (bytes list \<Rightarrow> store_reply) \<Rightarrow> store_reply" where
  "readList k db miss f =
     (case db k of None \<Rightarrow> miss | Some (VList xs, _) \<Rightarrow> f xs | Some _ \<Rightarrow> RpErr ErrWrongType)"

definition readHash ::
  "string \<Rightarrow> db \<Rightarrow> store_reply \<Rightarrow> ((string \<times> bytes) list \<Rightarrow> store_reply) \<Rightarrow> store_reply" where
  "readHash k db miss f =
     (case db k of None \<Rightarrow> miss | Some (VHash m, _) \<Rightarrow> f m | Some _ \<Rightarrow> RpErr ErrWrongType)"

fun hsetPairs :: "bytes list \<Rightarrow> (string \<times> bytes) list \<Rightarrow> (string \<times> bytes) list" where
  "hsetPairs (f # v # ps) m = hsetPairs ps (AList.update f v m)"
| "hsetPairs _ m = m"

definition hdelFields :: "string list \<Rightarrow> (string \<times> bytes) list \<Rightarrow> (string \<times> bytes) list" where
  "hdelFields fs m = foldl (\<lambda>m f. AList.delete f m) m fs"

definition specHSet :: "string \<Rightarrow> bytes list \<Rightarrow> db \<Rightarrow> store_reply \<times> db" where
  "specHSet k ps db =
     (case db k of
        None \<Rightarrow> (RpInt (int (length (hsetPairs ps []))), db(k \<mapsto> (VHash (hsetPairs ps []), zeroTime)))
      | Some (VHash m, t) \<Rightarrow>
          (RpInt (int (length (hsetPairs ps m)) - int (length m)), db(k \<mapsto> (VHash (hsetPairs ps m), t)))
      | Some _ \<Rightarrow> (RpErr ErrWrongType, db))"

definition specHDel :: "string \<Rightarrow> string list \<Rightarrow> db \<Rightarrow> store_reply \<times> db" where
  "specHDel k fs db =
     (case db k of
        None \<Rightarrow> (RpInt 0, db)
      | Some (VHash m, t) \<Rightarrow>
          (RpInt (int (length m) - int (length (hdelFields fs m))),
           if hdelFields fs m = [] then db(k := None) else db(k \<mapsto> (VHash (hdelFields fs m), t)))
      | Some _ \<Rightarrow> (RpErr ErrWrongType, db))"

definition lrange :: "bytes list \<Rightarrow> int \<Rightarrow> int \<Rightarrow> bytes list" where
  "lrange xs start stop =
     (let n = int (length xs); s = rngStart n start; t = rngStop n stop
      in if s > t \<or> s \<ge> n then [] else take (Suc (nat t) - nat s) (drop (nat s) xs))"

definition lindex :: "bytes list \<Rightarrow> int \<Rightarrow> bytes option" where
  "lindex xs i0 =
     (let n = int (length xs); i = (if i0 < 0 then i0 + n else i0)
      in if i < 0 \<or> i \<ge> n then None else Some (xs ! nat i))"

fun typeName :: "aval \<Rightarrow> string" where
  "typeName (VString _) = ''string''"
| "typeName (VList _) = ''list''"
| "typeName (VHash _) = ''hash''"

fun spec :: "time \<Rightarrow> store_op \<Rightarrow> db \<Rightarrow> store_reply \<times> db" where
  "spec now (OGet k) db =
     (case db k of
        None \<Rightarrow> (RpOpt None, db)
      | Some (VString v, _) \<Rightarrow> (RpOpt (Some v), db)
      | Some _ \<Rightarrow> (RpErr ErrWrongType, db))"
| "spec now (OExists ks) db = (RpInt (int (length (filter (\<lambda>k. db k \<noteq> None) ks))), db)"
| "spec now (OSet k v m t) db =
     (if (m = SetNX \<and> db k \<noteq> None) \<or> (m = SetXX \<and> db k = None) then (RpBool False, db)
      else (RpBool True, db(k \<mapsto> (VString v, t))))"
| "spec now (ODel ks) db =
     (RpInt (int (card {k \<in> set ks. db k \<noteq> None})), (\<lambda>k. if k \<in> set ks then None else db k))"
| "spec now (OExpire k t) db =
     (case db k of None \<Rightarrow> (RpBool False, db) | Some (v, _) \<Rightarrow> (RpBool True, db(k \<mapsto> (v, t))))"
| "spec now (OPersist k) db =
     (case db k of
        None \<Rightarrow> (RpBool False, db)
      | Some (v, t) \<Rightarrow> if isZero t then (RpBool False, db) else (RpBool True, db(k \<mapsto> (v, zeroTime))))"
| "spec now (OTTL k) db =
     (case db k of
        None \<Rightarrow> (RpInt TTLNoKey, db)
      | Some (v, t) \<Rightarrow> (RpInt (if isZero t then TTLNoExpire else timeSub t now), db))"
| "spec now (OIncr k) db = specIncr k 1 db"
| "spec now (ODecr k) db = specIncr k (-1) db"
| "spec now (OType k) db = (RpOpt (map_option (typeName \<circ> fst) (db k)), db)"
| "spec now (OLPush k vs) db = specPush k (\<lambda>xs. rev vs @ xs) db"
| "spec now (ORPush k vs) db = specPush k (\<lambda>xs. xs @ vs) db"
| "spec now (OLPop k) db = specPop k hd tl db"
| "spec now (ORPop k) db = specPop k last butlast db"
| "spec now (OLLen k) db = (readList k db (RpInt 0) (\<lambda>xs. RpInt (int (length xs))), db)"
| "spec now (OLRange k i j) db = (readList k db (RpList []) (\<lambda>xs. RpList (lrange xs i j)), db)"
| "spec now (OLIndex k i) db = (readList k db (RpOpt None) (\<lambda>xs. RpOpt (lindex xs i)), db)"
| "spec now (OHSet k ps) db = specHSet k ps db"
| "spec now (OHGet k f) db = (readHash k db (RpOpt None) (\<lambda>m. RpOpt (map_of m f)), db)"
| "spec now (OHDel k fs) db = specHDel k fs db"
| "spec now (OHExists k f) db = (readHash k db (RpBool False) (\<lambda>m. RpBool (f \<in> fst ` set m)), db)"
| "spec now (OHKeys k) db = (readHash k db (RpList []) (\<lambda>m. RpList (map fst m)), db)"
| "spec now (OHVals k) db = (readHash k db (RpList []) (\<lambda>m. RpList (map snd m)), db)"
| "spec now (OHLen k) db = (readHash k db (RpInt 0) (\<lambda>m. RpInt (int (length m))), db)"
| "spec now (OHGetAll k) db =
     (readHash k db (RpList []) (\<lambda>m. RpList (concat (map (\<lambda>(f, v). [f, v]) m))), db)"
| "spec now (ORename a b) db =
     (case db a of
        None \<Rightarrow> (RpErr ErrNoKey, db)
      | Some x \<Rightarrow> (RpUnit, if a = b then db else db(a := None, b \<mapsto> x)))"
| "spec now (ORenameNX a b) db =
     (case db a of
        None \<Rightarrow> (RpErr ErrNoKey, db)
      | Some x \<Rightarrow> if a = b \<or> db b \<noteq> None then (RpBool False, db)
                  else (RpBool True, db(a := None, b \<mapsto> x)))"
| "spec now (OCopy a b r) db =
     (case db a of
        None \<Rightarrow> (RpBool False, db)
      | Some x \<Rightarrow> if a = b then (RpErr ErrSameObject, db)
                  else if db b \<noteq> None \<and> \<not> r then (RpBool False, db)
                  else (RpBool True, db(b \<mapsto> x)))"
| "spec now OFlushDB db = (RpUnit, Map.empty)"

section \<open>Invariant\<close>

definition hash_ok :: "heap \<Rightarrow> entry \<Rightarrow> bool" where
  "hash_ok h e \<longleftrightarrow>
     distinct (map fst (e_hash e)) \<and> slice_ok h (e_fieldOrder e) \<and>
     distinct (slice_read h (e_fieldOrder e)) \<and>
     set (slice_read h (e_fieldOrder e)) = fst ` set (e_hash e)"

definition entry_ok :: "heap \<Rightarrow> entry \<Rightarrow> bool" where
  "entry_ok h e =
     (case e_typ e of
        typeString \<Rightarrow> True
      | typeList \<Rightarrow> deque_inv (e_list e) \<and> dq_count (e_list e) \<noteq> 0
      | typeHash \<Rightarrow> hash_ok h e \<and> e_hash e \<noteq> [])"

text \<open>No two hashes share a field-order array.\<close>

definition apart :: "entry \<Rightarrow> entry \<Rightarrow> bool" where
  "apart e1 e2 \<longleftrightarrow>
     (e_typ e1 = typeHash \<longrightarrow> e_typ e2 = typeHash \<longrightarrow>
      sl_arr (e_fieldOrder e1) \<noteq> sl_arr (e_fieldOrder e2))"

definition store_ok :: "store \<Rightarrow> bool" where
  "store_ok s \<longleftrightarrow>
     heap_ok (st_heap s) \<and> distinct (map fst (st_data s)) \<and>
     (\<forall>k e. lookup s k = Some e \<longrightarrow> entry_ok (st_heap s) e) \<and>
     (\<forall>k1 e1 k2 e2. lookup s k1 = Some e1 \<longrightarrow> lookup s k2 = Some e2 \<longrightarrow> k1 \<noteq> k2 \<longrightarrow> apart e1 e2)"

lemma store_ok_New: "store_ok NewStore" "view NewStore now = Map.empty"
  by (auto simp: store_ok_def NewStore_def emptyHeap_def heap_ok_def view_def)

lemma store_okD:
  assumes "store_ok s"
  shows "heap_ok (st_heap s)" and "distinct (map fst (st_data s))"
    and "lookup s k = Some e \<Longrightarrow> entry_ok (st_heap s) e"
    and "lookup s k1 = Some e1 \<Longrightarrow> lookup s k2 = Some e2 \<Longrightarrow> k1 \<noteq> k2 \<Longrightarrow> apart e1 e2"
  using assms unfolding store_ok_def by blast+

lemma store_okI:
  assumes "heap_ok (st_heap s)" and "distinct (map fst (st_data s))"
    and "\<And>k e. lookup s k = Some e \<Longrightarrow> entry_ok (st_heap s) e"
    and "\<And>k1 e1 k2 e2. lookup s k1 = Some e1 \<Longrightarrow> lookup s k2 = Some e2 \<Longrightarrow> k1 \<noteq> k2 \<Longrightarrow> apart e1 e2"
  shows "store_ok s"
  using assms unfolding store_ok_def by blast

lemma apart_sym: "apart e1 e2 \<Longrightarrow> apart e2 e1"
  by (auto simp: apart_def)

lemma view_None: "lookup s k = None \<Longrightarrow> view s now k = None"
  by (simp add: view_def)

lemma view_Some:
  "lookup s k = Some e \<Longrightarrow> \<not> expired e now \<Longrightarrow> view s now k = Some (avalOf (st_heap s) e, e_expireAt e)"
  by (simp add: view_def)

lemma view_expired: "lookup s k = Some e \<Longrightarrow> expired e now \<Longrightarrow> view s now k = None"
  by (simp add: view_def)

text \<open>The state changes every method is made of: removing a key, replacing one.\<close>

lemma lookup_delEntry [simp]: "map_of (st_data (delEntry k s)) = (map_of (st_data s))(k := None)"
  by (simp add: delEntry_def)

lemma heap_delEntry [simp]: "st_heap (delEntry k s) = st_heap s"
  by (simp add: delEntry_def)

lemma lookup_putEntry [simp]: "map_of (st_data (putEntry k e s)) = (map_of (st_data s))(k \<mapsto> e)"
  by (simp add: putEntry_def)

lemma heap_putEntry [simp]: "st_heap (putEntry k e s) = st_heap s"
  by (simp add: putEntry_def)

lemma delEntry_ok:
  assumes "store_ok s"
  shows "store_ok (delEntry k s)" and "view (delEntry k s) now = (view s now)(k := None)"
proof -
  show "store_ok (delEntry k s)"
    using assms by (auto simp: store_ok_def delEntry_def split: if_splits)
  show "view (delEntry k s) now = (view s now)(k := None)"
    by (rule ext) (auto simp: view_def split: option.splits)
qed

lemma nextSeq_frame:
  assumes "nextSeq s = (q, s')"
  shows "st_data s' = st_data s" and "st_heap s' = st_heap s" and "view s' now = view s now"
    and "store_ok s' = store_ok s"
  using assms by (auto simp: nextSeq_def Let_def view_def store_ok_def fun_eq_iff split: option.splits)

text \<open>An entry is unchanged by heap writes outside its own array.\<close>

lemma entry_frame:
  assumes "heap_keeps h h' A" and "entry_ok h e" and "e_typ e = typeHash \<Longrightarrow> sl_arr (e_fieldOrder e) \<notin> A"
  shows "entry_ok h' e" and "avalOf h' e = avalOf h e"
  using assms slice_frame [OF assms(1), of "e_fieldOrder e"]
  by (cases "e_typ e"; auto simp: entry_ok_def hash_ok_def avalOf_def hashPairs_def)+

lemma putEntry_ok:
  assumes s: "store_ok s" and h: "heap_ok h'" and keeps: "heap_keeps (st_heap s) h' A"
    and others: "\<And>k' e'. lookup s k' = Some e' \<Longrightarrow> k' \<noteq> k \<Longrightarrow>
        (e_typ e' = typeHash \<longrightarrow> sl_arr (e_fieldOrder e') \<notin> A)"
    and ok: "entry_ok h' e"
  shows "view (putEntry k e (s\<lparr>st_heap := h'\<rparr>)) now =
      (view s now)(k := if expired e now then None else Some (avalOf h' e, e_expireAt e))"
    and "(\<And>k' e'. lookup s k' = Some e' \<Longrightarrow> k' \<noteq> k \<Longrightarrow> apart e e') \<Longrightarrow>
      store_ok (putEntry k e (s\<lparr>st_heap := h'\<rparr>))"
proof -
  have frame: "entry_ok h' e' \<and> avalOf h' e' = avalOf (st_heap s) e'"
    if "lookup s k' = Some e'" "k' \<noteq> k" for k' e'
    using entry_frame [OF keeps store_okD(3) [OF s that(1)]] others [OF that] by blast
  show "view (putEntry k e (s\<lparr>st_heap := h'\<rparr>)) now =
      (view s now)(k := if expired e now then None else Some (avalOf h' e, e_expireAt e))"
    using frame by (auto simp: view_def fun_eq_iff split: option.splits)
  assume ap: "\<And>k' e'. lookup s k' = Some e' \<Longrightarrow> k' \<noteq> k \<Longrightarrow> apart e e'"
  show "store_ok (putEntry k e (s\<lparr>st_heap := h'\<rparr>))"
  proof (rule store_okI)
    show "heap_ok (st_heap (putEntry k e (s\<lparr>st_heap := h'\<rparr>)))" using h by simp
    show "distinct (map fst (st_data (putEntry k e (s\<lparr>st_heap := h'\<rparr>))))"
      using store_okD(2) [OF s] by (simp add: putEntry_def)
  next
    fix k0 e0 assume "lookup (putEntry k e (s\<lparr>st_heap := h'\<rparr>)) k0 = Some e0"
    then show "entry_ok (st_heap (putEntry k e (s\<lparr>st_heap := h'\<rparr>))) e0"
      using frame [of k0 e0] ok by (auto split: if_splits)
  next
    fix k1 e1 k2 e2
    assume "lookup (putEntry k e (s\<lparr>st_heap := h'\<rparr>)) k1 = Some e1"
      and "lookup (putEntry k e (s\<lparr>st_heap := h'\<rparr>)) k2 = Some e2" and "k1 \<noteq> k2"
    then show "apart e1 e2"
      using ap [of k1 e1] ap [of k2 e2] store_okD(4) [OF s, of k1 e1 k2 e2] apart_sym
      by (auto split: if_splits)
  qed
qed

lemma putEntry_same_heap:
  assumes "store_ok s" and "entry_ok (st_heap s) e"
  shows "view (putEntry k e s) now =
      (view s now)(k := if expired e now then None else Some (avalOf (st_heap s) e, e_expireAt e))"
    and "(\<And>k' e'. lookup s k' = Some e' \<Longrightarrow> k' \<noteq> k \<Longrightarrow> apart e e') \<Longrightarrow> store_ok (putEntry k e s)"
  using putEntry_ok [OF assms(1) store_okD(1) [OF assms(1)], of "{}" k e] assms(2)
  by simp_all

lemma getForWrite_spec:
  assumes "store_ok s" and "getForWrite now k s = (r, s')"
  shows "store_ok s'" and "view s' now = view s now" and "st_heap s' = st_heap s"
    and "r = None \<Longrightarrow> lookup s' k = None \<and> view s now k = None"
    and "r = Some e \<Longrightarrow> s' = s \<and> lookup s k = Some e \<and> \<not> expired e now \<and>
           view s now k = Some (avalOf (st_heap s) e, e_expireAt e)"
  using assms delEntry_ok [OF assms(1)]
  by (auto simp: getForWrite_def view_def fun_eq_iff split: option.splits if_splits)

lemma getForRead_spec:
  "getForRead now k s = None \<longleftrightarrow> view s now k = None"
  "getForRead now k s = Some e \<Longrightarrow>
     lookup s k = Some e \<and> \<not> expired e now \<and> view s now k = Some (avalOf (st_heap s) e, e_expireAt e)"
  by (auto simp: getForRead_def view_def split: option.splits if_splits)

section \<open>Refinement\<close>

lemma live_view [simp]: "live now (view s now) = view s now"
  by (auto simp: live_def view_def expired_def fun_eq_iff split: option.splits)

lemma live_fun_upd:
  "live now (db(k := x)) = (live now db)(k := live now (\<lambda>_. x) k)"
  by (simp add: live_def fun_eq_iff)

lemma live_upd [simp]:
  "live now ((view s now)(k \<mapsto> (v, t))) =
     (view s now)(k := if \<not> isZero t \<and> \<not> now < t then None else Some (v, t))"
  by (simp only: live_fun_upd live_view) (simp add: live_def)

lemma live_del [simp]: "live now ((view s now)(k := None)) = (view s now)(k := None)"
  by (simp only: live_fun_upd live_view) (simp add: live_def)

lemma live_empty [simp]: "live now Map.empty = Map.empty"
  by (simp add: live_def fun_eq_iff)

text \<open>What the server checks before it calls the store: a push carries a value, HSET a pair.\<close>

fun args_ok :: "store_op \<Rightarrow> bool" where
  "args_ok (OLPush k vs) = (vs \<noteq> [])"
| "args_ok (ORPush k vs) = (vs \<noteq> [])"
| "args_ok (OHSet k ps) = (2 \<le> length ps)"
| "args_ok _ = True"

text \<open>The one operation after which two hashes may share a field-order array.\<close>

fun copies_hash :: "store_op \<Rightarrow> db \<Rightarrow> bool" where
  "copies_hash (OCopy a b r) db = (case db a of Some (VHash _, _) \<Rightarrow> True | _ \<Rightarrow> False)"
| "copies_hash _ _ = False"

definition step_ok :: "time \<Rightarrow> store_op \<Rightarrow> store \<Rightarrow> bool" where
  "step_ok now op s =
     (let (r, s') = store_exec now op s; (r', db') = spec now op (view s now)
      in r = r' \<and> view s' now = live now db' \<and> (\<not> copies_hash op (view s now) \<longrightarrow> store_ok s'))"

lemma step_okI:
  assumes "store_exec now op s = (r, s')" and "spec now op (view s now) = (r, db')"
    and "view s' now = live now db'" and "\<not> copies_hash op (view s now) \<Longrightarrow> store_ok s'"
  shows "step_ok now op s"
  using assms by (simp add: step_ok_def)

text \<open>Putting an entry that is no hash, or that keeps the key's own array.\<close>

lemma apart_nonhash: "e_typ e \<noteq> typeHash \<Longrightarrow> apart e e'"
  by (simp add: apart_def)

lemma apart_cong:
  "apart e0 e' \<Longrightarrow> e_typ e = e_typ e0 \<Longrightarrow> e_fieldOrder e = e_fieldOrder e0 \<Longrightarrow> apart e e'"
  by (simp add: apart_def)

lemma put_nonhash:
  assumes "store_ok s" and "e_typ e \<noteq> typeHash" and "entry_ok (st_heap s) e"
  shows "store_ok (putEntry k e s)"
    and "view (putEntry k e s) now =
      (view s now)(k := if expired e now then None else Some (avalOf (st_heap s) e, e_expireAt e))"
  using putEntry_same_heap [OF assms(1,3)] apart_nonhash [OF assms(2)] by blast+

lemma put_same_key:
  assumes "store_ok s" and "lookup s k = Some e0" and "e_typ e = e_typ e0"
    and "e_fieldOrder e = e_fieldOrder e0" and "entry_ok (st_heap s) e"
  shows "store_ok (putEntry k e s)"
    and "view (putEntry k e s) now =
      (view s now)(k := if expired e now then None else Some (avalOf (st_heap s) e, e_expireAt e))"
proof -
  have "apart e e'" if "lookup s k' = Some e'" "k' \<noteq> k" for k' e'
    using store_okD(4) [OF assms(1,2) that(1)] that(2) assms(3,4) by (auto intro: apart_cong)
  then show "store_ok (putEntry k e s)" using putEntry_same_heap [OF assms(1,5)] by blast
  show "view (putEntry k e s) now =
      (view s now)(k := if expired e now then None else Some (avalOf (st_heap s) e, e_expireAt e))"
    by (rule putEntry_same_heap [OF assms(1,5)])
qed

text \<open>Every write begins with the eviction of the key if its deadline has passed.\<close>

lemma getForWrite_cases:
  assumes "store_ok s"
  obtains (miss) s1 where "getForWrite now k s = (None, s1)" and "store_ok s1"
      and "view s1 now = view s now" and "st_heap s1 = st_heap s"
      and "lookup s1 k = None" and "view s now k = None"
  | (hit) e where "getForWrite now k s = (Some e, s)" and "lookup s k = Some e" and "\<not> expired e now"
      and "view s now k = Some (avalOf (st_heap s) e, e_expireAt e)" and "entry_ok (st_heap s) e"
proof (cases "getForWrite now k s")
  case (Pair r s1)
  note g = getForWrite_spec [OF assms Pair]
  show thesis
  proof (cases r)
    case None
    then show thesis using g miss Pair by blast
  next
    case (Some e)
    then show thesis using g(5) [OF Some] hit Pair store_okD(3) [OF assms] by blast
  qed
qed

lemma Store_Get_alt:
  "Store_Get now k s =
     (let (r, s1) = getForWrite now k s
      in (case r of None \<Rightarrow> Inr None
          | Some e \<Rightarrow> if e_typ e \<noteq> typeString then Inl ErrWrongType else Inr (Some (e_str e)), s1))"
  by (simp add: Store_Get_def getRLocked_def getLocked_def getForWrite_def split: option.splits)

lemma Store_Set_alt:
  "Store_Set now k v opts s =
     (let (r, s1) = getForWrite now k s
      in if so_Mode opts = SetNX \<and> r \<noteq> None then (False, s1)
         else if so_Mode opts = SetXX \<and> r = None then (False, s1)
         else (let (q, s2) = (case r of Some e \<Rightarrow> (e_seq e, s1) | None \<Rightarrow> nextSeq s1)
               in (True, putEntry k ((newEntry typeString q)\<lparr>e_str := v, e_expireAt := so_ExpireAt opts\<rparr>) s2)))"
  by (simp add: Store_Set_def getForWrite_def split: option.splits)

lemma Store_Expire_alt:
  "Store_Expire now k t s =
     (case getForWrite now k s of
        (None, s1) \<Rightarrow> (False, s1)
      | (Some e, s1) \<Rightarrow> (True, putEntry k (e\<lparr>e_expireAt := t\<rparr>) s1))"
  by (simp add: Store_Expire_def getForWrite_def split: option.splits)

lemma Store_Persist_alt:
  "Store_Persist now k s =
     (case getForWrite now k s of
        (None, s1) \<Rightarrow> (False, s1)
      | (Some e, s1) \<Rightarrow> if isZero (e_expireAt e) then (False, s1)
                        else (True, putEntry k (e\<lparr>e_expireAt := zeroTime\<rparr>) s1))"
  by (simp add: Store_Persist_def getForWrite_def split: option.splits)

lemma incrBy_alt:
  "incrBy now k delta s =
     (case getForWrite now k s of
        (None, s1) \<Rightarrow> incrFinish k delta 0 0 s1
      | (Some e, s1) \<Rightarrow>
          if e_typ e \<noteq> typeString then (Inl ErrWrongType, s1)
          else (case parseInt (e_str e) of
                  None \<Rightarrow> (Inl ErrNotInteger, s1)
                | Some n \<Rightarrow> incrFinish k delta n (e_seq e) s1))"
  by (simp add: incrBy_def getForWrite_def split: option.splits)

lemmas write_alts = Store_Get_alt Store_Set_alt Store_Expire_alt Store_Persist_alt incrBy_alt

lemma step_Get:
  assumes ok: "store_ok s"
  shows "step_ok now (OGet k) s"
proof (rule getForWrite_cases [OF ok, of now k])
  fix e assume "getForWrite now k s = (Some e, s)"
    "view s now k = Some (avalOf (st_heap s) e, e_expireAt e)"
  then show ?thesis using ok by (cases "e_typ e") (simp_all add: step_ok_def write_alts avalOf_def)
qed (simp add: step_ok_def write_alts)

lemma Exists_foldl:
  "foldl (\<lambda>n k. case lookup s k of Some e \<Rightarrow> if \<not> expired e now then n + 1 else n | None \<Rightarrow> n) n ks =
     n + length (filter (\<lambda>k. view s now k \<noteq> None) ks)"
  by (induction ks arbitrary: n) (auto simp: view_def split: option.splits)

lemma step_Exists: "store_ok s \<Longrightarrow> step_ok now (OExists ks) s"
  using Exists_foldl [of now s 0 ks] by (simp add: step_ok_def Store_Exists_def)

text \<open>A fresh string entry: what SET and INCR write.\<close>

lemma put_string:
  assumes "store_ok s1"
  shows "store_ok (putEntry k ((newEntry typeString q)\<lparr>e_str := v, e_expireAt := t\<rparr>) s1)"
    and "view (putEntry k ((newEntry typeString q)\<lparr>e_str := v, e_expireAt := t\<rparr>) s1) now =
      (view s1 now)(k := if \<not> isZero t \<and> \<not> now < t then None else Some (VString v, t))"
proof -
  let ?e = "(newEntry typeString q)\<lparr>e_str := v, e_expireAt := t\<rparr>"
  have e: "e_typ ?e \<noteq> typeHash" "entry_ok h ?e" "avalOf h ?e = VString v" "e_expireAt ?e = t"
    "expired ?e now = (\<not> isZero t \<and> \<not> now < t)" for h
    by (simp_all add: newEntry_def entry_ok_def avalOf_def expired_def)
  show "store_ok (putEntry k ?e s1)" by (rule put_nonhash [OF assms e(1,2)])
  show "view (putEntry k ?e s1) now =
      (view s1 now)(k := if \<not> isZero t \<and> \<not> now < t then None else Some (VString v, t))"
    using put_nonhash(2) [OF assms e(1,2), of k now] e(3-5) by simp
qed

lemma put_string_seq:
  assumes "store_ok s1" and "nextSeq s1 = (q, s2)"
  shows "store_ok s2" and "view s2 now = view s1 now" and "st_heap s2 = st_heap s1"
    and "lookup s2 k = lookup s1 k"
  using nextSeq_frame [OF assms(2)] assms(1) by simp_all

lemma step_Set:
  assumes ok: "store_ok s"
  shows "step_ok now (OSet k v m t) s"
proof (rule getForWrite_cases [OF ok, of now k])
  fix s1 assume a: "getForWrite now k s = (None, s1)" "store_ok s1" "view s1 now = view s now"
    "view s now k = None"
  obtain q s2 where q: "nextSeq s1 = (q, s2)" by (cases "nextSeq s1")
  show ?thesis
    using a q put_string_seq [OF a(2) q] put_string [OF put_string_seq(1) [OF a(2) q]]
    by (auto simp: step_ok_def write_alts)
next
  fix e assume "getForWrite now k s = (Some e, s)"
    "view s now k = Some (avalOf (st_heap s) e, e_expireAt e)"
  then show ?thesis using ok put_string [OF ok] by (auto simp: step_ok_def write_alts)
qed

lemma card_live_Cons:
  "card {j \<in> set (k # ks). f j \<noteq> None} =
     (if f k = None then 0 else 1) + card {j \<in> set ks. (f(k := None)) j \<noteq> None}"
proof -
  have "{j \<in> set (k # ks). f j \<noteq> None} =
      (if f k = None then {} else {k}) \<union> {j \<in> set ks. (f(k := None)) j \<noteq> None}"
    by (auto split: if_splits)
  then show ?thesis by (simp add: card_insert_if)
qed

lemma delLoop_spec:
  "store_ok s \<Longrightarrow>
     store_ok (snd (delLoop now ks s n)) \<and>
     view (snd (delLoop now ks s n)) now = (\<lambda>k. if k \<in> set ks then None else view s now k) \<and>
     fst (delLoop now ks s n) = n + card {k \<in> set ks. view s now k \<noteq> None}"
proof (induction ks arbitrary: s n)
  case Nil
  then show ?case by simp
next
  case (Cons k ks)
  note card = card_live_Cons [of k ks "view s now"]
  show ?case
  proof (cases "lookup s k")
    case None
    then have v: "view s now k = None" by (rule view_None)
    then have "(view s now)(k := None) = view s now" by auto
    then show ?thesis using None v card Cons.IH [OF Cons.prems, of n] by (auto simp: fun_eq_iff)
  next
    case (Some e)
    note d = delEntry_ok [OF Cons.prems]
    have "view s now k = None \<longleftrightarrow> expired e now" using Some by (simp add: view_def)
    then show ?thesis using Some card Cons.IH [OF d(1), of k] d(2) [of k now]
      by (auto simp: fun_eq_iff)
  qed
qed

lemma live_restrict:
  "live now (\<lambda>k. if P k then None else view s now k) = (\<lambda>k. if P k then None else view s now k)"
  by (rule ext) (simp add: live_def view_def expired_def split: option.splits)

lemma step_Del:
  assumes ok: "store_ok s"
  shows "step_ok now (ODel ks) s"
  using delLoop_spec [OF ok, of now ks 0]
  by (simp add: step_ok_def Store_Del_def live_restrict case_prod_beta Let_def apfst_def map_prod_def)

text \<open>Changing only the deadline of an entry.\<close>

lemma put_deadline:
  assumes ok: "store_ok s" and e: "lookup s k = Some e"
  shows "store_ok (putEntry k (e\<lparr>e_expireAt := t\<rparr>) s)"
    and "view (putEntry k (e\<lparr>e_expireAt := t\<rparr>) s) now =
      (view s now)(k := if \<not> isZero t \<and> \<not> now < t then None else Some (avalOf (st_heap s) e, t))"
proof -
  have "entry_ok (st_heap s) (e\<lparr>e_expireAt := t\<rparr>)" "avalOf (st_heap s) (e\<lparr>e_expireAt := t\<rparr>) = avalOf (st_heap s) e"
    using store_okD(3) [OF ok e]
    by (cases "e_typ e"; simp add: entry_ok_def hash_ok_def avalOf_def hashPairs_def)+
  then show "store_ok (putEntry k (e\<lparr>e_expireAt := t\<rparr>) s)"
    and "view (putEntry k (e\<lparr>e_expireAt := t\<rparr>) s) now =
      (view s now)(k := if \<not> isZero t \<and> \<not> now < t then None else Some (avalOf (st_heap s) e, t))"
    using put_same_key [OF ok e, of "e\<lparr>e_expireAt := t\<rparr>"] by (simp_all add: expired_def)
qed

lemma step_Expire:
  assumes ok: "store_ok s"
  shows "step_ok now (OExpire k t) s"
proof (rule getForWrite_cases [OF ok, of now k])
  fix e assume "getForWrite now k s = (Some e, s)" "lookup s k = Some e"
    "view s now k = Some (avalOf (st_heap s) e, e_expireAt e)"
  then show ?thesis using put_deadline [OF ok] by (simp add: step_ok_def write_alts)
qed (simp add: step_ok_def write_alts)

lemma step_Persist:
  assumes ok: "store_ok s"
  shows "step_ok now (OPersist k) s"
proof (rule getForWrite_cases [OF ok, of now k])
  fix e assume "getForWrite now k s = (Some e, s)" "lookup s k = Some e"
    "view s now k = Some (avalOf (st_heap s) e, e_expireAt e)"
  then show ?thesis using ok put_deadline [OF ok]
    by (simp add: step_ok_def write_alts isZero_def)
qed (simp add: step_ok_def write_alts)

lemma step_TTL:
  assumes ok: "store_ok s"
  shows "step_ok now (OTTL k) s"
  using ok by (auto simp: step_ok_def Store_TTL_def view_def split: option.splits)

lemma overflow_guard:
  assumes "int64 n" and "delta = 1 \<or> delta = -1"
  shows "((delta > 0 \<and> n > MaxInt64 - delta) \<or> (delta < 0 \<and> n < MinInt64 - delta)) = (\<not> int64 (n + delta))"
  using assms by (auto simp: int64_def MinInt64_def MaxInt64_def)

lemma incrFinish_spec:
  assumes ok: "store_ok s" and n: "int64 n" and d: "delta = 1 \<or> delta = -1"
  shows "fst (incrFinish k delta n q s) = (if int64 (n + delta) then Inr (n + delta) else Inl ErrOverflow)"
    and "store_ok (snd (incrFinish k delta n q s))"
    and "view (snd (incrFinish k delta n q s)) now =
      (if int64 (n + delta) then (view s now)(k \<mapsto> (VString (formatInt (n + delta)), zeroTime))
       else view s now)"
proof -
  let ?p = "if q = 0 then nextSeq s else (q, s)"
  have p: "store_ok (snd ?p)" "view (snd ?p) now = view s now"
    using ok put_string_seq [OF ok, of "fst (nextSeq s)" "snd (nextSeq s)"] by auto
  have z: "(newEntry typeString q')\<lparr>e_str := v\<rparr> = (newEntry typeString q')\<lparr>e_str := v, e_expireAt := zeroTime\<rparr>" for q' v
    by (simp add: newEntry_def)
  have put: "store_ok (putEntry k ((newEntry typeString q')\<lparr>e_str := v\<rparr>) (snd ?p))"
    "view (putEntry k ((newEntry typeString q')\<lparr>e_str := v\<rparr>) (snd ?p)) now =
       (view s now)(k \<mapsto> (VString v, zeroTime))" for q' v
    using put_string [OF p(1), where k = k and q = q' and v = v and t = zeroTime] p(2) by (simp_all add: isZero_def flip: z)
  have g: "incrFinish k delta n q s =
      (if int64 (n + delta)
       then (Inr (n + delta), putEntry k ((newEntry typeString (fst ?p))\<lparr>e_str := formatInt (n + delta)\<rparr>) (snd ?p))
       else (Inl ErrOverflow, s))"
    unfolding incrFinish_def overflow_guard [OF n d]
    by (simp add: wrap64_id case_prod_beta Let_def)
  show "fst (incrFinish k delta n q s) = (if int64 (n + delta) then Inr (n + delta) else Inl ErrOverflow)"
    by (simp add: g)
  show "store_ok (snd (incrFinish k delta n q s))"
    unfolding g using ok put(1) by simp
  show "view (snd (incrFinish k delta n q s)) now =
      (if int64 (n + delta) then (view s now)(k \<mapsto> (VString (formatInt (n + delta)), zeroTime))
       else view s now)"
    unfolding g using put(2) by simp
qed

lemma int64_0 [simp]: "int64 0"
  by (simp add: int64_def MinInt64_def MaxInt64_def)

lemma incrBy_refines:
  assumes ok: "store_ok s" and d: "delta = 1 \<or> delta = -1"
  shows "rpWith RpInt (fst (incrBy now k delta s)) = fst (specIncr k delta (view s now))"
    and "view (snd (incrBy now k delta s)) now = live now (snd (specIncr k delta (view s now)))"
    and "store_ok (snd (incrBy now k delta s))"
proof -
  have "rpWith RpInt (fst (incrBy now k delta s)) = fst (specIncr k delta (view s now)) \<and>
      view (snd (incrBy now k delta s)) now = live now (snd (specIncr k delta (view s now))) \<and>
      store_ok (snd (incrBy now k delta s))"
  proof (rule getForWrite_cases [OF ok, of now k])
    fix s1 assume "getForWrite now k s = (None, s1)" "store_ok s1" "view s1 now = view s now"
      "view s now k = None"
    then show ?thesis
      using incrFinish_spec [of s1 0 delta k 0] d
      by (simp add: incrBy_alt specIncr_def isZero_def)
  next
    fix e assume a: "getForWrite now k s = (Some e, s)"
      "view s now k = Some (avalOf (st_heap s) e, e_expireAt e)"
    show ?thesis
    proof (cases "e_typ e = typeString")
      case False
      then show ?thesis using a ok
        by (cases "e_typ e") (simp_all add: incrBy_alt specIncr_def avalOf_def)
    next
      case True
      then have v: "view s now k = Some (VString (e_str e), e_expireAt e)"
        using a by (simp add: avalOf_def)
      show ?thesis
      proof (cases "parseInt (e_str e)")
        case None
        then show ?thesis using a(1) v True ok by (simp add: incrBy_alt specIncr_def)
      next
        case (Some n)
        then show ?thesis
          using a(1) v True ok incrFinish_spec [OF ok parseInt_range [OF Some] d, of k "e_seq e"]
          by (simp add: incrBy_alt specIncr_def isZero_def)
      qed
    qed
  qed
  then show "rpWith RpInt (fst (incrBy now k delta s)) = fst (specIncr k delta (view s now))"
    and "view (snd (incrBy now k delta s)) now = live now (snd (specIncr k delta (view s now)))"
    and "store_ok (snd (incrBy now k delta s))" by blast+
qed

lemma step_Incr:
  assumes ok: "store_ok s"
  shows "step_ok now (OIncr k) s" and "step_ok now (ODecr k) s"
  using incrBy_refines [OF ok, of 1 now k] incrBy_refines [OF ok, of "-1" now k]
  by (simp_all add: step_ok_def Store_Incr_def Store_Decr_def case_prod_beta apfst_def map_prod_def)

text \<open>Reads: the entry found under the read lock, case by case.\<close>

lemma getForRead_cases:
  assumes "store_ok s"
  obtains (miss) "getForRead now k s = None" and "view s now k = None"
  | (str) e where "getForRead now k s = Some e" and "e_typ e = typeString"
      and "view s now k = Some (VString (e_str e), e_expireAt e)"
  | (list) e where "getForRead now k s = Some e" and "e_typ e = typeList"
      and "view s now k = Some (VList (dq_list (e_list e)), e_expireAt e)" and "deque_inv (e_list e)"
  | (hash) e where "getForRead now k s = Some e" and "e_typ e = typeHash"
      and "view s now k = Some (VHash (hashPairs (st_heap s) e), e_expireAt e)" and "hash_ok (st_heap s) e"
proof (cases "getForRead now k s")
  case None
  then show thesis using getForRead_spec(1) [of now k s] by (intro miss) simp_all
next
  case (Some e)
  note v = getForRead_spec(2) [OF Some]
  have ok: "entry_ok (st_heap s) e" using v store_okD(3) [OF assms] by blast
  show thesis
  proof (cases "e_typ e")
    case typeString
    then show thesis using str [OF Some] v by (simp add: avalOf_def)
  next
    case typeList
    then show thesis using list [OF Some] v ok by (simp add: avalOf_def entry_ok_def)
  next
    case typeHash
    then show thesis using hash [OF Some] v ok by (simp add: avalOf_def entry_ok_def)
  qed
qed

lemma hashPairs_keys [simp]: "map fst (hashPairs h e) = slice_read h (e_fieldOrder e)"
  by (simp add: hashPairs_def comp_def)

lemma hashPairs_lookup: "hash_ok h e \<Longrightarrow> map_of (hashPairs h e) f = map_of (e_hash e) f"
proof -
  assume ok: "hash_ok h e"
  have m: "map_of (hashPairs h e) f = (if f \<in> set (slice_read h (e_fieldOrder e)) then Some (hashGet (e_hash e) f) else None)"
    by (simp add: hashPairs_def map_of_map_restrict restrict_map_def)
  show ?thesis
  proof (cases "map_of (e_hash e) f")
    case None
    then have "f \<notin> fst ` set (e_hash e)" by (simp add: map_of_eq_None_iff)
    then show ?thesis using None m ok by (simp add: hash_ok_def)
  next
    case (Some v)
    then have "f \<in> fst ` set (e_hash e)" by (metis domI dom_map_of_conv_image_fst)
    then show ?thesis using Some m ok by (simp add: hash_ok_def hashGet_def)
  qed
qed

lemma hashPairs_length: "hash_ok h e \<Longrightarrow> length (hashPairs h e) = length (e_hash e)"
  by (simp add: hash_ok_def hashPairs_def) (metis distinct_card length_map list.set_map)

lemma hashPairs_member: "hash_ok h e \<Longrightarrow> f \<in> fst ` set (hashPairs h e) \<longleftrightarrow> map_of (e_hash e) f \<noteq> None"
  by (metis hashPairs_lookup map_of_eq_None_iff)

lemma hashPairs_flat:
  "concat (map (\<lambda>(f, v). [f, v]) (hashPairs h e)) =
     concat (map (\<lambda>f. [f, hashGet (e_hash e) f]) (slice_read h (e_fieldOrder e)))"
  by (simp add: hashPairs_def comp_def)

lemma hashPairs_vals: "map snd (hashPairs h e) = map (hashGet (e_hash e)) (slice_read h (e_fieldOrder e))"
  by (simp add: hashPairs_def comp_def)

lemmas hash_read_defs = step_ok_def readHash_def Store_HGet_def Store_HExists_def Store_HKeys_def
  Store_HVals_def Store_HLen_def Store_HGetAll_def

lemma step_Type:
  assumes ok: "store_ok s"
  shows "step_ok now (OType k) s"
  by (rule getForRead_cases [OF ok, of now k]) (simp_all add: step_ok_def Store_Type_def ok)

lemma step_list_reads:
  assumes ok: "store_ok s"
  shows "step_ok now (OLLen k) s" and "step_ok now (OLRange k i j) s" and "step_ok now (OLIndex k i) s"
  by (rule getForRead_cases [OF ok, of now k],
      simp_all add: step_ok_def readList_def ok Store_LLen_def Store_LRange_def Store_LIndex_def
        deque_len_def deque_rng_list lrange_def lindex_def Let_def dq_list_nth)+

lemma step_hash_reads:
  assumes ok: "store_ok s"
  shows "step_ok now (OHGet k f) s" and "step_ok now (OHExists k f) s" and "step_ok now (OHKeys k) s"
    and "step_ok now (OHVals k) s" and "step_ok now (OHLen k) s" and "step_ok now (OHGetAll k) s"
proof -
  have "step_ok now (OHGet k f) s \<and> step_ok now (OHExists k f) s \<and> step_ok now (OHKeys k) s \<and>
    step_ok now (OHVals k) s \<and> step_ok now (OHLen k) s \<and> step_ok now (OHGetAll k) s"
  proof (rule getForRead_cases [OF ok, of now k])
    fix e assume "getForRead now k s = Some e" "e_typ e = typeHash"
      "view s now k = Some (VHash (hashPairs (st_heap s) e), e_expireAt e)" "hash_ok (st_heap s) e"
    then show ?thesis
      using hashPairs_vals [of "st_heap s" e]
      by (simp add: hash_read_defs ok hashPairs_lookup hashPairs_length hashPairs_member hashPairs_flat)
  qed (simp_all add: hash_read_defs ok)
  then show "step_ok now (OHGet k f) s" and "step_ok now (OHExists k f) s" and "step_ok now (OHKeys k) s"
    and "step_ok now (OHVals k) s" and "step_ok now (OHLen k) s" and "step_ok now (OHGetAll k) s"
    by blast+
qed

text \<open>Writing back a list entry whose deque holds \<open>xs\<close>.\<close>

lemma put_list:
  assumes ok: "store_ok s" and e: "e_typ e = typeList" and d: "deque_inv (e_list e)" "dq_list (e_list e) \<noteq> []"
    and live: "\<not> expired e now"
  shows "store_ok (putEntry k e s)"
    and "view (putEntry k e s) now = (view s now)(k \<mapsto> (VList (dq_list (e_list e)), e_expireAt e))"
proof -
  have "dq_count (e_list e) \<noteq> 0" using d(2) by (metis length_0_conv length_dq_list)
  then have "entry_ok (st_heap s) e" using e d(1) by (simp add: entry_ok_def)
  then show "store_ok (putEntry k e s)"
    and "view (putEntry k e s) now = (view s now)(k \<mapsto> (VList (dq_list (e_list e)), e_expireAt e))"
    using put_nonhash [OF ok] e live by (simp_all add: avalOf_def)
qed

definition pushed :: "bool \<Rightarrow> bytes list \<Rightarrow> bytes list \<Rightarrow> bytes list" where
  "pushed front vs xs = (if front then rev vs @ xs else xs @ vs)"

lemma foldl_push:
  assumes "deque_inv d"
  shows "deque_inv (foldl (if front then pushFront else pushBack) d vs)"
    and "dq_list (foldl (if front then pushFront else pushBack) d vs) = pushed front vs (dq_list d)"
  using ring.pushes_front [OF assms, of vs] ring.pushes_back [OF assms, of vs]
  by (simp_all add: pushed_def)

lemma push_refines:
  assumes ok: "store_ok s" and vs: "vs \<noteq> []"
  shows "rpWith RpInt (fst (push now k vs front s)) = fst (specPush k (pushed front vs) (view s now)) \<and>
     view (snd (push now k vs front s)) now = live now (snd (specPush k (pushed front vs) (view s now))) \<and>
     store_ok (snd (push now k vs front s))"
proof (rule getForWrite_cases [OF ok, of now k])
  fix s1 assume a: "getForWrite now k s = (None, s1)" "store_ok s1" "view s1 now = view s now"
    "view s now k = None"
  obtain q s2 where q: "nextSeq s1 = (q, s2)" by (cases "nextSeq s1")
  let ?e = "newEntry typeList q"
  let ?d = "foldl (if front then pushFront else pushBack) (e_list ?e) vs"
  have d: "deque_inv ?d" "dq_list ?d = pushed front vs []" "dq_list ?d \<noteq> []"
    using foldl_push [OF ring.invar_empty, of front vs] vs
    by (auto simp: newEntry_def ring.seq_empty pushed_def)
  have e: "e_typ (?e\<lparr>e_list := ?d\<rparr>) = typeList" "\<not> expired (?e\<lparr>e_list := ?d\<rparr>) now"
    "e_expireAt (?e\<lparr>e_list := ?d\<rparr>) = zeroTime"
    by (simp_all add: newEntry_def expired_def isZero_def)
  show ?thesis
    using a q put_string_seq [OF a(2) q] d e put_list [OF put_string_seq(1) [OF a(2) q] e(1) _ _ e(2)]
      length_dq_list [of ?d]
    by (simp add: push_def specPush_def deque_len_def isZero_def)
next
  fix e assume a: "getForWrite now k s = (Some e, s)" "\<not> expired e now"
    "view s now k = Some (avalOf (st_heap s) e, e_expireAt e)" "entry_ok (st_heap s) e"
  show ?thesis
  proof (cases "e_typ e = typeList")
    case False
    then show ?thesis using a ok by (cases "e_typ e") (simp_all add: push_def specPush_def avalOf_def)
  next
    case True
    let ?d = "foldl (if front then pushFront else pushBack) (e_list e) vs"
    have i: "deque_inv (e_list e)" using a(4) True by (simp add: entry_ok_def)
    have d: "deque_inv ?d" "dq_list ?d = pushed front vs (dq_list (e_list e))" "dq_list ?d \<noteq> []"
      using foldl_push [OF i, of front vs] vs by (auto simp: pushed_def)
    have e: "e_typ (e\<lparr>e_list := ?d\<rparr>) = typeList" "\<not> expired (e\<lparr>e_list := ?d\<rparr>) now"
      using True a(2) by (simp_all add: expired_def)
    show ?thesis
      using a(1,3) True ok d e put_list [OF ok e(1) _ _ e(2)] length_dq_list [of ?d] a(2)
      by (auto simp: push_def specPush_def deque_len_def avalOf_def expired_def)
  qed
qed

lemma step_push:
  assumes ok: "store_ok s" and "vs \<noteq> []"
  shows "step_ok now (OLPush k vs) s" and "step_ok now (ORPush k vs) s"
  using push_refines [OF assms, of now k True] push_refines [OF assms, of now k False]
  by (simp_all add: step_ok_def Store_LPush_def Store_RPush_def case_prod_beta apfst_def map_prod_def
      pushed_def [abs_def])

lemma pop_cases:
  assumes "deque_inv d" and "dq_count d \<noteq> 0"
  shows "snd (popFront d) = Some (hd (dq_list d))" and "deque_inv (fst (popFront d))"
    and "dq_list (fst (popFront d)) = tl (dq_list d)"
    and "snd (popBack d) = Some (last (dq_list d))" and "deque_inv (fst (popBack d))"
    and "dq_list (fst (popBack d)) = butlast (dq_list d)"
proof -
  have ne: "dq_list d \<noteq> []" using assms(2) length_dq_list [of d] by (metis length_0_conv)
  note f = ring.pop_front_cases [OF assms(1)] and b = ring.pop_back_cases [OF assms(1)]
  have "snd (popFront d) = Some (hd (dq_list d))" using f ne by (cases "dq_list d") auto
  moreover have "snd (popBack d) = Some (last (dq_list d))" using b ne by simp
  ultimately show "snd (popFront d) = Some (hd (dq_list d))" and "deque_inv (fst (popFront d))"
    and "dq_list (fst (popFront d)) = tl (dq_list d)"
    and "snd (popBack d) = Some (last (dq_list d))" and "deque_inv (fst (popBack d))"
    and "dq_list (fst (popBack d)) = butlast (dq_list d)"
    using f b by simp_all
qed

text \<open>The deque after a pop: the entry goes back, or the key goes when it is empty.\<close>

lemma pop_finish:
  assumes ok: "store_ok s" and e: "e_typ e = typeList" "\<not> expired e now" and d: "deque_inv d"
  shows "view (if deque_len d = 0 then delEntry k s else putEntry k (e\<lparr>e_list := d\<rparr>) s) now =
      (if dq_list d = [] then (view s now)(k := None)
       else (view s now)(k \<mapsto> (VList (dq_list d), e_expireAt e)))"
    and "store_ok (if deque_len d = 0 then delEntry k s else putEntry k (e\<lparr>e_list := d\<rparr>) s)"
proof -
  have len: "deque_len d = 0 \<longleftrightarrow> dq_list d = []"
    by (metis deque_len_def length_0_conv length_dq_list)
  have e': "e_typ (e\<lparr>e_list := d\<rparr>) = typeList" "\<not> expired (e\<lparr>e_list := d\<rparr>) now"
    using e by (simp_all add: expired_def)
  show "view (if deque_len d = 0 then delEntry k s else putEntry k (e\<lparr>e_list := d\<rparr>) s) now =
      (if dq_list d = [] then (view s now)(k := None)
       else (view s now)(k \<mapsto> (VList (dq_list d), e_expireAt e)))"
    and "store_ok (if deque_len d = 0 then delEntry k s else putEntry k (e\<lparr>e_list := d\<rparr>) s)"
    using delEntry_ok [OF ok] put_list [OF ok e'(1) _ _ e'(2)] d by (simp_all add: len)
qed

lemma pop_refines:
  assumes ok: "store_ok s"
  shows "step_ok now (OLPop k) s" and "step_ok now (ORPop k) s"
proof -
  have "step_ok now (OLPop k) s \<and> step_ok now (ORPop k) s"
  proof (rule getForWrite_cases [OF ok, of now k])
    fix e assume a: "getForWrite now k s = (Some e, s)" "\<not> expired e now"
      "view s now k = Some (avalOf (st_heap s) e, e_expireAt e)" "entry_ok (st_heap s) e"
    have nz: "(\<not> isZero (e_expireAt e) \<and> \<not> now < e_expireAt e) = False"
      using a(2) by (simp add: expired_def)
    show ?thesis
    proof (cases "e_typ e = typeList")
      case False
      then show ?thesis using a ok
        by (cases "e_typ e")
           (simp_all add: step_ok_def Store_LPop_def Store_RPop_def pop_def specPop_def avalOf_def)
    next
      case True
      have d: "deque_inv (e_list e)" "dq_count (e_list e) \<noteq> 0"
        using a(4) True by (simp_all add: entry_ok_def)
      note p = pop_cases [OF d]
      have v: "view s now k = Some (VList (dq_list (e_list e)), e_expireAt e)"
        using a(3) True by (simp add: avalOf_def)
      have l: "Store_LPop now k s = (Inr (Some (hd (dq_list (e_list e)))),
          if deque_len (fst (popFront (e_list e))) = 0 then delEntry k s
          else putEntry k (e\<lparr>e_list := fst (popFront (e_list e))\<rparr>) s)"
        using a(1) True by (simp add: Store_LPop_def pop_def case_prod_beta Let_def p(1))
      have r: "Store_RPop now k s = (Inr (Some (last (dq_list (e_list e)))),
          if deque_len (fst (popBack (e_list e))) = 0 then delEntry k s
          else putEntry k (e\<lparr>e_list := fst (popBack (e_list e))\<rparr>) s)"
        using a(1) True by (simp add: Store_RPop_def pop_def case_prod_beta Let_def p(4))
      show ?thesis
      proof
        show "step_ok now (OLPop k) s"
          using pop_finish [OF ok True a(2) p(2), of k]
          by (intro step_okI) (auto simp: l specPop_def v p(3) nz)
        show "step_ok now (ORPop k) s"
          using pop_finish [OF ok True a(2) p(5), of k]
          by (intro step_okI) (auto simp: r specPop_def v p(6) nz)
      qed
    qed
  qed (simp add: step_ok_def Store_LPop_def Store_RPop_def pop_def specPop_def)
  then show "step_ok now (OLPop k) s" and "step_ok now (ORPop k) s" by blast+
qed

section \<open>Hash updates\<close>

lemma heap_keeps_step:
  "heap_keeps h h1 {a} \<Longrightarrow> heap_keeps h1 h2 {a1} \<Longrightarrow> a1 = a \<or> length h \<le> a1 \<Longrightarrow> heap_keeps h h2 {a}"
  by (fastforce simp: heap_keeps_def)

lemma pairs_update_in:
  "distinct fs \<Longrightarrow> f \<in> set fs \<Longrightarrow>
   map (\<lambda>g. (g, hashGet (AList.update f v m) g)) fs = AList.update f v (map (\<lambda>g. (g, hashGet m g)) fs)"
proof (induction fs)
  case (Cons g fs)
  then show ?case by (auto simp: hashGet_def intro: map_cong)
qed simp

lemma pairs_update_notin:
  "f \<notin> set fs \<Longrightarrow>
   map (\<lambda>g. (g, hashGet (AList.update f v m) g)) fs @ [(f, v)] = AList.update f v (map (\<lambda>g. (g, hashGet m g)) fs)"
  by (induction fs) (auto simp: hashGet_def)

lemma pairs_delete:
  "distinct fs \<Longrightarrow>
   map (\<lambda>g. (g, hashGet (AList.delete f m) g)) (remove1 f fs) = AList.delete f (map (\<lambda>g. (g, hashGet m g)) fs)"
proof (induction fs)
  case (Cons g fs)
  have "map (\<lambda>g. (g, hashGet (AList.delete f m) g)) fs = map (\<lambda>g. (g, hashGet m g)) fs" if "f \<notin> set fs"
    using that by (auto simp: hashGet_def intro!: map_cong)
  moreover have "AList.delete f (map (\<lambda>g. (g, hashGet m g)) fs) = map (\<lambda>g. (g, hashGet m g)) fs" if "f \<notin> set fs"
    using that by (auto simp: AList.delete_eq intro!: filter_True)
  ultimately show ?case using Cons by (auto simp: hashGet_def)
qed simp

text \<open>One field written, one field removed; \<open>hash_step\<close> collects what the loops keep.\<close>

definition hash_step :: "heap \<Rightarrow> entry \<Rightarrow> heap \<Rightarrow> entry \<Rightarrow> bool" where
  "hash_step h e h' e' \<longleftrightarrow>
     heap_ok h' \<and> hash_ok h' e' \<and> heap_keeps h h' {sl_arr (e_fieldOrder e)} \<and>
     (sl_arr (e_fieldOrder e') = sl_arr (e_fieldOrder e) \<or> length h \<le> sl_arr (e_fieldOrder e')) \<and>
     e_typ e' = e_typ e \<and> e_expireAt e' = e_expireAt e \<and> e_seq e' = e_seq e"

lemma hash_step_refl: "heap_ok h \<Longrightarrow> hash_ok h e \<Longrightarrow> hash_step h e h e"
  by (simp add: hash_step_def)

lemma hash_step_trans: "hash_step h e h1 e1 \<Longrightarrow> hash_step h1 e1 h2 e2 \<Longrightarrow> hash_step h e h2 e2"
proof -
  assume a: "hash_step h e h1 e1" "hash_step h1 e1 h2 e2"
  then have "length h \<le> length h1" by (simp add: hash_step_def heap_keeps_def)
  moreover have "heap_keeps h h2 {sl_arr (e_fieldOrder e)}"
    using a heap_keeps_step by (meson hash_step_def)
  ultimately show ?thesis using a by (auto simp: hash_step_def)
qed

lemma hset_one:
  assumes h: "heap_ok h" and e: "hash_ok h e"
    and new: "(h1, o1) = (if map_of (e_hash e) f = None then slice_append h (e_fieldOrder e) f else (h, e_fieldOrder e))"
    and e1: "e1 = e\<lparr>e_fieldOrder := o1, e_hash := AList.update f v (e_hash e)\<rparr>"
  shows "hash_step h e h1 e1" and "hashPairs h1 e1 = AList.update f v (hashPairs h e)"
proof -
  have s: "slice_ok h (e_fieldOrder e)" "distinct (slice_read h (e_fieldOrder e))" "distinct (map fst (e_hash e))"
    and dom: "set (slice_read h (e_fieldOrder e)) = fst ` set (e_hash e)"
    using e by (simp_all add: hash_ok_def)
  have mem: "map_of (e_hash e) f = None \<longleftrightarrow> f \<notin> set (slice_read h (e_fieldOrder e))"
    using dom by (simp add: map_of_eq_None_iff)
  have upd: "fst ` set (AList.update f v (e_hash e)) = insert f (fst ` set (e_hash e))"
    by (metis (no_types) dom_map_of_conv_image_fst dom_fun_upd map_of_update_eq option.distinct(1))
  have "hash_step h e h1 e1 \<and> hashPairs h1 e1 = AList.update f v (hashPairs h e)"
  proof (cases "map_of (e_hash e) f = None")
    case True
    then have ap: "slice_append h (e_fieldOrder e) f = (h1, o1)" using new by simp
    note a = slice_append_spec [OF h s(1) ap]
    have "hash_ok h1 e1" using a(1,2) s mem True dom upd by (simp add: hash_ok_def e1)
    moreover have "hashPairs h1 e1 = AList.update f v (hashPairs h e)"
      using a(1) True mem pairs_update_notin [of f "slice_read h (e_fieldOrder e)" v "e_hash e"]
      by (simp add: hashPairs_def e1 hashGet_def)
    ultimately show ?thesis using a by (simp add: hash_step_def e1)
  next
    case False
    then have o: "h1 = h" "o1 = e_fieldOrder e" using new by auto
    have "hash_ok h1 e1" using o s dom upd False mem by (auto simp: hash_ok_def e1)
    moreover have "hashPairs h1 e1 = AList.update f v (hashPairs h e)"
      using pairs_update_in [OF s(2), of f v "e_hash e"] False mem o by (simp add: hashPairs_def e1)
    ultimately show ?thesis using o h by (simp add: hash_step_def e1)
  qed
  then show "hash_step h e h1 e1" and "hashPairs h1 e1 = AList.update f v (hashPairs h e)" by blast+
qed

lemma hash_step_ok: "hash_step h e h' e' \<Longrightarrow> heap_ok h'" "hash_step h e h' e' \<Longrightarrow> hash_ok h' e'"
  by (simp_all add: hash_step_def)

lemma length_update_hash:
  "distinct (map fst m) \<Longrightarrow>
   int (length (AList.update f v m)) - int (length m) = (if map_of m f = None then 1 else 0)"
  using length_update_alist [of m f v] by (cases "map_of m f = None") simp_all

lemma hash_ok_pairs: "hash_ok h e \<Longrightarrow> distinct (map fst (hashPairs h e))"
  by (simp only: hashPairs_keys) (simp add: hash_ok_def)

lemma hsetLoop_spec:
  "heap_ok h \<Longrightarrow> hash_ok h e \<Longrightarrow> hsetLoop ps h e c = (c', h', e') \<Longrightarrow>
   hash_step h e h' e' \<and> hashPairs h' e' = hsetPairs ps (hashPairs h e) \<and>
   c' = c + (int (length (hsetPairs ps (hashPairs h e))) - int (length (hashPairs h e)))"
proof (induction ps arbitrary: h e c rule: induct_list012)
  case (3 f v ps)
  note prems = "3.prems"
  define p where "p = (if map_of (e_hash e) f = None then slice_append h (e_fieldOrder e) f else (h, e_fieldOrder e))"
  define e1 where "e1 = e\<lparr>e_fieldOrder := snd p, e_hash := AList.update f v (e_hash e)\<rparr>"
  define c1 where "c1 = (if map_of (e_hash e) f = None then c + 1 else c)"
  have "(fst p, snd p) = (if map_of (e_hash e) f = None then slice_append h (e_fieldOrder e) f else (h, e_fieldOrder e))"
    by (simp add: p_def)
  note one = hset_one [OF prems(1,2) this e1_def]
  have run: "hsetLoop ps (fst p) e1 c1 = (c', h', e')"
    using prems(3) by (auto simp: p_def e1_def c1_def case_prod_beta Let_def split: if_splits)
  have "c1 - c = int (length (hashPairs (fst p) e1)) - int (length (hashPairs h e))"
    using length_update_hash [OF hash_ok_pairs [OF prems(2)], of f v] one(2)
      hashPairs_lookup [OF prems(2), of f] by (simp add: c1_def)
  then show ?case
    using "3.IH"(1) [OF hash_step_ok [OF one(1)] run] one hash_step_trans [OF one(1)] by simp
qed (auto simp: hash_step_refl)

lemma delete_absent: "map_of al k = None \<Longrightarrow> AList.delete k al = al"
  by (induction al) (auto split: if_splits)

lemma hdel_one:
  assumes h: "heap_ok h" and e: "hash_ok h e" and rm: "removeField h (e_fieldOrder e) f = (h1, o1)"
    and e1: "e1 = e\<lparr>e_hash := AList.delete f (e_hash e), e_fieldOrder := o1\<rparr>"
  shows "hash_step h e h1 e1" and "hashPairs h1 e1 = AList.delete f (hashPairs h e)"
proof -
  have s: "slice_ok h (e_fieldOrder e)" "distinct (slice_read h (e_fieldOrder e))" "distinct (map fst (e_hash e))"
    and dom: "set (slice_read h (e_fieldOrder e)) = fst ` set (e_hash e)"
    using e by (simp_all add: hash_ok_def)
  note r = removeField_spec [OF h s(1) rm]
  have "fst ` set (AList.delete f (e_hash e)) = fst ` set (e_hash e) - {f}"
    by (auto simp: set_delete_alist image_iff)
  then have "hash_ok h1 e1" using r s dom by (simp add: hash_ok_def e1)
  then show "hash_step h e h1 e1" using r by (simp add: hash_step_def e1)
  show "hashPairs h1 e1 = AList.delete f (hashPairs h e)"
    using pairs_delete [OF s(2), of f "e_hash e"] r(1) by (simp add: hashPairs_def e1)
qed

lemma hdelFields_Cons: "hdelFields (f # fs) m = hdelFields fs (AList.delete f m)"
  by (simp add: hdelFields_def)

lemma hdelLoop_spec:
  "heap_ok h \<Longrightarrow> hash_ok h e \<Longrightarrow> hdelLoop fs h e n = (n', h', e') \<Longrightarrow>
   hash_step h e h' e' \<and> hashPairs h' e' = hdelFields fs (hashPairs h e) \<and>
   n' = n + (int (length (hashPairs h e)) - int (length (hdelFields fs (hashPairs h e))))"
proof (induction fs arbitrary: h e n)
  case Nil
  then show ?case by (simp add: hash_step_refl hdelFields_def)
next
  case (Cons f fs)
  have d: "distinct (map fst (hashPairs h e))" by (rule hash_ok_pairs [OF Cons.prems(2)])
  have m: "map_of (hashPairs h e) f = map_of (e_hash e) f" by (rule hashPairs_lookup [OF Cons.prems(2)])
  show ?case
  proof (cases "map_of (e_hash e) f = None")
    case True
    have "AList.delete f (hashPairs h e) = hashPairs h e"
      using True m by (intro delete_absent) simp
    then show ?thesis using True Cons by (simp add: hdelFields_Cons)
  next
    case False
    obtain h1 o1 where rm: "removeField h (e_fieldOrder e) f = (h1, o1)" by fastforce
    define e1 where "e1 = e\<lparr>e_hash := AList.delete f (e_hash e), e_fieldOrder := o1\<rparr>"
    note one = hdel_one [OF Cons.prems(1,2) rm e1_def]
    have run: "hdelLoop fs h1 e1 (n + 1) = (n', h', e')"
      using Cons.prems(3) False rm by (simp add: e1_def)
    have "int (length (hashPairs h e)) - int (length (AList.delete f (hashPairs h e))) = 1"
      using length_delete_alist [OF d, of f] False m by (cases "hashPairs h e") auto
    then show ?thesis
      using Cons.IH [OF hash_step_ok [OF one(1)] run] one hash_step_trans [OF one(1)]
      by (simp add: hdelFields_Cons)
  qed
qed

text \<open>A hash entry written back after a \<open>hash_step\<close> from the key's own entry or a new one.\<close>

lemma hash_entry_arr:
  assumes "store_ok s" and "lookup s k = Some e" and "e_typ e = typeHash"
  shows "sl_arr (e_fieldOrder e) \<noteq> 0" and "sl_arr (e_fieldOrder e) < length (st_heap s)"
proof -
  have "entry_ok (st_heap s) e" by (rule store_okD(3) [OF assms(1,2)])
  then have e: "hash_ok (st_heap s) e" "e_hash e \<noteq> []" using assms(3) by (simp_all add: entry_ok_def)
  then have "slice_read (st_heap s) (e_fieldOrder e) \<noteq> []" by (auto simp: hash_ok_def)
  then show "sl_arr (e_fieldOrder e) \<noteq> 0"
    using e slice_nonempty_arr store_okD(1) [OF assms(1)] by (simp add: hash_ok_def)
  show "sl_arr (e_fieldOrder e) < length (st_heap s)" using e by (simp add: hash_ok_def slice_ok_def)
qed

lemma put_hash:
  assumes ok: "store_ok s" and st: "hash_step (st_heap s) e0 h' e" and ty: "e_typ e0 = typeHash"
    and own: "lookup s k = Some e0 \<or> (lookup s k = None \<and> e_fieldOrder e0 = nilSlice)"
    and ne: "e_hash e \<noteq> []" and live: "\<not> expired e0 now"
  shows "store_ok (putEntry k e (s\<lparr>st_heap := h'\<rparr>))"
    and "view (putEntry k e (s\<lparr>st_heap := h'\<rparr>)) now = (view s now)(k \<mapsto> (VHash (hashPairs h' e), e_expireAt e0))"
proof -
  have h': "heap_ok h'" and keeps: "heap_keeps (st_heap s) h' {sl_arr (e_fieldOrder e0)}"
    and e: "entry_ok h' e" "e_typ e = typeHash" "\<not> expired e now" "e_expireAt e = e_expireAt e0"
    and arr: "sl_arr (e_fieldOrder e) = sl_arr (e_fieldOrder e0) \<or> length (st_heap s) \<le> sl_arr (e_fieldOrder e)"
    using st ty ne live by (auto simp: hash_step_def entry_ok_def expired_def)
  have ho: "hash_ok h' e" using e by (simp add: entry_ok_def)
  then have "slice_read h' (e_fieldOrder e) \<noteq> []" using ne by (auto simp: hash_ok_def)
  then have nz: "sl_arr (e_fieldOrder e) \<noteq> 0"
    using slice_nonempty_arr [OF h'] ho by (simp add: hash_ok_def)
  have other: "sl_arr (e_fieldOrder e') \<noteq> sl_arr (e_fieldOrder e0) \<and> sl_arr (e_fieldOrder e') \<noteq> sl_arr (e_fieldOrder e)"
    if l: "lookup s k' = Some e'" "k' \<noteq> k" "e_typ e' = typeHash" for k' e'
  proof -
    note x = hash_entry_arr [OF ok l(1,3)]
    have "sl_arr (e_fieldOrder e') \<noteq> sl_arr (e_fieldOrder e0)"
      using own
    proof
      assume "lookup s k = Some e0"
      then show ?thesis using store_okD(4) [OF ok _ l(1), of k e0] l ty by (auto simp: apart_def)
    next
      assume "lookup s k = None \<and> e_fieldOrder e0 = nilSlice"
      then show ?thesis using x(1) by (simp add: nilSlice_def)
    qed
    then show ?thesis using arr x(2) by auto
  qed
  have o: "e_typ e' = typeHash \<longrightarrow> sl_arr (e_fieldOrder e') \<notin> {sl_arr (e_fieldOrder e0)}"
    "apart e e'" if "lookup s k' = Some e'" "k' \<noteq> k" for k' e'
    using other [OF that] e(2) by (auto simp: apart_def)
  show "store_ok (putEntry k e (s\<lparr>st_heap := h'\<rparr>))"
    by (rule putEntry_ok(2) [OF ok h' keeps o(1) e(1) o(2)])
  show "view (putEntry k e (s\<lparr>st_heap := h'\<rparr>)) now = (view s now)(k \<mapsto> (VHash (hashPairs h' e), e_expireAt e0))"
    using putEntry_ok(1) [OF ok h' keeps o(1) e(1)] e by (simp add: avalOf_def)
qed

lemma hsetPairs_ne: "2 \<le> length ps \<Longrightarrow> hsetPairs ps m \<noteq> []"
proof -
  have keep: "m \<noteq> [] \<Longrightarrow> hsetPairs qs m \<noteq> []" for qs m
    by (induction qs m rule: hsetPairs.induct) (auto simp: update_nonempty)
  assume "2 \<le> length ps"
  then obtain f v qs where "ps = f # v # qs" by (cases ps; cases "tl ps") auto
  then show ?thesis using keep by (simp add: update_nonempty)
qed

lemma hash_pairs_ne: "hash_ok h e \<Longrightarrow> e_hash e \<noteq> [] \<longleftrightarrow> hashPairs h e \<noteq> []"
  by (metis hashPairs_length length_0_conv)

lemma not_expired_zone: "\<not> expired e now \<Longrightarrow> (\<not> isZero (e_expireAt e) \<and> \<not> now < e_expireAt e) = False"
  by (simp add: expired_def)

lemma hset_finish:
  assumes ok: "store_ok s" and e0: "hash_ok (st_heap s) e0" "e_typ e0 = typeHash" "\<not> expired e0 now"
    and own: "lookup s k = Some e0 \<or> (lookup s k = None \<and> e_fieldOrder e0 = nilSlice)"
    and run: "hsetLoop ps (st_heap s) e0 0 = (c, h', e)" and ps: "2 \<le> length ps"
  shows "store_ok (putEntry k e (s\<lparr>st_heap := h'\<rparr>))"
    and "view (putEntry k e (s\<lparr>st_heap := h'\<rparr>)) now =
      (view s now)(k \<mapsto> (VHash (hsetPairs ps (hashPairs (st_heap s) e0)), e_expireAt e0))"
    and "c = int (length (hsetPairs ps (hashPairs (st_heap s) e0))) - int (length (hashPairs (st_heap s) e0))"
proof -
  note l = hsetLoop_spec [OF store_okD(1) [OF ok] e0(1) run]
  have st: "hash_step (st_heap s) e0 h' e" using l by blast
  have ne: "e_hash e \<noteq> []"
    using hash_pairs_ne [OF hash_step_ok(2) [OF st]] l hsetPairs_ne [OF ps] by metis
  show "store_ok (putEntry k e (s\<lparr>st_heap := h'\<rparr>))"
    and "view (putEntry k e (s\<lparr>st_heap := h'\<rparr>)) now =
      (view s now)(k \<mapsto> (VHash (hsetPairs ps (hashPairs (st_heap s) e0)), e_expireAt e0))"
    using put_hash [OF ok st e0(2) own ne e0(3)] l by simp_all
  show "c = int (length (hsetPairs ps (hashPairs (st_heap s) e0))) - int (length (hashPairs (st_heap s) e0))"
    using l by simp
qed

lemma step_HSet:
  assumes ok: "store_ok s" and ps: "2 \<le> length ps"
  shows "step_ok now (OHSet k ps) s"
proof (rule getForWrite_cases [OF ok, of now k])
  fix s1 assume a: "getForWrite now k s = (None, s1)" "store_ok s1" "view s1 now = view s now"
    "lookup s1 k = None" "view s now k = None"
  obtain q s2 where q: "nextSeq s1 = (q, s2)" by (cases "nextSeq s1")
  note f = put_string_seq [OF a(2) q]
  let ?e = "newEntry typeHash q"
  obtain c h' e where run: "hsetLoop ps (st_heap s2) ?e 0 = (c, h', e)" by (cases "hsetLoop ps (st_heap s2) ?e 0")
  have e0: "hash_ok (st_heap s2) ?e" "e_typ ?e = typeHash" "\<not> expired ?e now"
    "lookup s2 k = None \<and> e_fieldOrder ?e = nilSlice" "hashPairs (st_heap s2) ?e = []" "e_expireAt ?e = zeroTime"
    using store_okD(1) [OF f(1)] a(4) f(4) [of k]
    by (simp_all add: newEntry_def hash_ok_def expired_def isZero_def hashPairs_def)
  show ?thesis
    using hset_finish [OF f(1) e0(1-3) disjI2 [OF e0(4)] run ps] a(1,3,5) f(2) q run e0(5,6)
    by (intro step_okI) (auto simp: Store_HSet_def specHSet_def isZero_def)
next
  fix e0 assume a: "getForWrite now k s = (Some e0, s)" "lookup s k = Some e0" "\<not> expired e0 now"
    "view s now k = Some (avalOf (st_heap s) e0, e_expireAt e0)" "entry_ok (st_heap s) e0"
  show ?thesis
  proof (cases "e_typ e0 = typeHash")
    case False
    then show ?thesis using a ok
      by (cases "e_typ e0") (simp_all add: step_ok_def Store_HSet_def specHSet_def avalOf_def)
  next
    case True
    obtain c h' e where run: "hsetLoop ps (st_heap s) e0 0 = (c, h', e)" by (cases "hsetLoop ps (st_heap s) e0 0")
    have "hash_ok (st_heap s) e0" using a(5) True by (simp add: entry_ok_def)
    from hset_finish [OF ok this True a(3) disjI1 [OF a(2)] run ps] show ?thesis
      using a True run not_expired_zone [OF a(3)]
      by (intro step_okI) (auto simp: Store_HSet_def specHSet_def avalOf_def)
  qed
qed

lemma hdel_finish:
  assumes ok: "store_ok s" and e0: "hash_ok (st_heap s) e0" "e_typ e0 = typeHash" "\<not> expired e0 now"
    and own: "lookup s k = Some e0" and run: "hdelLoop fs (st_heap s) e0 0 = (n, h', e)"
  shows "view (if length (e_hash e) = 0 then delEntry k (s\<lparr>st_heap := h'\<rparr>) else putEntry k e (s\<lparr>st_heap := h'\<rparr>)) now =
      (if hdelFields fs (hashPairs (st_heap s) e0) = [] then (view s now)(k := None)
       else (view s now)(k \<mapsto> (VHash (hdelFields fs (hashPairs (st_heap s) e0)), e_expireAt e0)))"
    and "store_ok (if length (e_hash e) = 0 then delEntry k (s\<lparr>st_heap := h'\<rparr>) else putEntry k e (s\<lparr>st_heap := h'\<rparr>))"
    and "n = int (length (hashPairs (st_heap s) e0)) - int (length (hdelFields fs (hashPairs (st_heap s) e0)))"
proof -
  note l = hdelLoop_spec [OF store_okD(1) [OF ok] e0(1) run]
  have st: "hash_step (st_heap s) e0 h' e" using l by blast
  have ne: "e_hash e = [] \<longleftrightarrow> hdelFields fs (hashPairs (st_heap s) e0) = []"
    using hash_pairs_ne [OF hash_step_ok(2) [OF st]] l by metis
  show "n = int (length (hashPairs (st_heap s) e0)) - int (length (hdelFields fs (hashPairs (st_heap s) e0)))"
    using l by simp
  let ?s = "delEntry k s"
  have gone: "delEntry k (s\<lparr>st_heap := h'\<rparr>) = ?s\<lparr>st_heap := h'\<rparr>" by (simp add: delEntry_def)
  have keeps: "heap_keeps (st_heap ?s) h' {sl_arr (e_fieldOrder e0)}" "heap_ok h'"
    using st by (simp_all add: hash_step_def)
  have own': "e_typ e' = typeHash \<longrightarrow> sl_arr (e_fieldOrder e') \<notin> {sl_arr (e_fieldOrder e0)}"
    if "lookup ?s k' = Some e'" for k' e'
    using that store_okD(4) [OF ok own, of k' e'] e0(2) by (auto simp: apart_def split: if_splits)
  have del: "store_ok (?s\<lparr>st_heap := h'\<rparr>)" "view (?s\<lparr>st_heap := h'\<rparr>) now = (view s now)(k := None)"
  proof -
    note d = delEntry_ok [OF ok]
    have fr: "entry_ok h' e'" "avalOf h' e' = avalOf (st_heap s) e'" if "lookup ?s k' = Some e'" for k' e'
      using entry_frame [OF keeps(1) store_okD(3) [OF d(1) that]] own' [OF that] by simp_all
    show "store_ok (?s\<lparr>st_heap := h'\<rparr>)"
      using d(1) [of k] keeps(2) fr(1) store_okD(4) [OF d(1) [of k]] store_okD(2) [OF d(1) [of k]]
      by (intro store_okI) auto
    show "view (?s\<lparr>st_heap := h'\<rparr>) now = (view s now)(k := None)"
    proof
      fix j
      show "view (?s\<lparr>st_heap := h'\<rparr>) now j = ((view s now)(k := None)) j"
        using fr(2) [of j] by (cases "j = k"; cases "lookup s j") (simp_all add: view_def)
    qed
  qed
  show "store_ok (if length (e_hash e) = 0 then delEntry k (s\<lparr>st_heap := h'\<rparr>) else putEntry k e (s\<lparr>st_heap := h'\<rparr>))"
    using del(1) put_hash(1) [OF ok st e0(2) disjI1 [OF own] _ e0(3)] gone by simp
  show "view (if length (e_hash e) = 0 then delEntry k (s\<lparr>st_heap := h'\<rparr>) else putEntry k e (s\<lparr>st_heap := h'\<rparr>)) now =
      (if hdelFields fs (hashPairs (st_heap s) e0) = [] then (view s now)(k := None)
       else (view s now)(k \<mapsto> (VHash (hdelFields fs (hashPairs (st_heap s) e0)), e_expireAt e0)))"
    using del(2) put_hash(2) [OF ok st e0(2) disjI1 [OF own] _ e0(3)] gone ne l by simp
qed

lemma step_HDel:
  assumes ok: "store_ok s"
  shows "step_ok now (OHDel k fs) s"
proof (rule getForWrite_cases [OF ok, of now k])
  fix e0 assume a: "getForWrite now k s = (Some e0, s)" "lookup s k = Some e0" "\<not> expired e0 now"
    "view s now k = Some (avalOf (st_heap s) e0, e_expireAt e0)" "entry_ok (st_heap s) e0"
  show ?thesis
  proof (cases "e_typ e0 = typeHash")
    case False
    then show ?thesis using a ok
      by (cases "e_typ e0") (simp_all add: step_ok_def Store_HDel_def specHDel_def avalOf_def)
  next
    case True
    obtain n h' e where run: "hdelLoop fs (st_heap s) e0 0 = (n, h', e)" by (cases "hdelLoop fs (st_heap s) e0 0")
    have "hash_ok (st_heap s) e0" using a(5) True by (simp add: entry_ok_def)
    note d = hdel_finish [OF ok this True a(3,2) run]
    have ex: "store_exec now (OHDel k fs) s = (RpInt n,
        if length (e_hash e) = 0 then delEntry k (s\<lparr>st_heap := h'\<rparr>) else putEntry k e (s\<lparr>st_heap := h'\<rparr>))"
      using a(1) True run by (simp add: Store_HDel_def)
    show ?thesis
      using d a(4) True not_expired_zone [OF a(3)]
      by (intro step_okI [OF ex]) (auto simp: specHDel_def avalOf_def)
  qed
qed (simp add: step_ok_def Store_HDel_def specHDel_def)

section \<open>Keyspace operations\<close>

text \<open>An entry that differs only in its sequence.\<close>

lemma reseq:
  "entry_ok h (e\<lparr>e_seq := q\<rparr>) = entry_ok h e" "avalOf h (e\<lparr>e_seq := q\<rparr>) = avalOf h e"
  "expired (e\<lparr>e_seq := q\<rparr>) now = expired e now" "apart (e\<lparr>e_seq := q\<rparr>) e' = apart e e'"
  by (cases "e_typ e"; simp add: entry_ok_def hash_ok_def avalOf_def hashPairs_def expired_def apart_def)+

lemma move_ok:
  assumes ok: "store_ok s" and src: "lookup s src = Some e" and live: "\<not> expired e now" and ne: "src \<noteq> dst"
    and q: "nextSeq s = (q, s2)"
  shows "store_ok (putEntry dst (e\<lparr>e_seq := q\<rparr>) (delEntry src s2))"
    and "view (putEntry dst (e\<lparr>e_seq := q\<rparr>) (delEntry src s2)) now =
      (view s now)(src := None, dst \<mapsto> (avalOf (st_heap s) e, e_expireAt e))"
proof -
  note f = nextSeq_frame [OF q]
  have ok2: "store_ok s2" using f(4) ok by simp
  note d = delEntry_ok [OF ok2]
  have e: "entry_ok (st_heap (delEntry src s2)) (e\<lparr>e_seq := q\<rparr>)"
    using store_okD(3) [OF ok src] f(2) by (simp add: reseq)
  have ap: "apart (e\<lparr>e_seq := q\<rparr>) e'" if "lookup (delEntry src s2) k' = Some e'" for k' e'
    using that store_okD(4) [OF ok src, of k' e'] f(1) by (auto simp: reseq split: if_splits)
  show "store_ok (putEntry dst (e\<lparr>e_seq := q\<rparr>) (delEntry src s2))"
    by (rule putEntry_same_heap(2) [OF d(1) e ap])
  show "view (putEntry dst (e\<lparr>e_seq := q\<rparr>) (delEntry src s2)) now =
      (view s now)(src := None, dst \<mapsto> (avalOf (st_heap s) e, e_expireAt e))"
    using putEntry_same_heap(1) [OF d(1) e] d(2) [of src now] f(2,3) live by (simp add: reseq)
qed

lemma live_move:
  assumes "view s now a = Some x"
  shows "live now ((view s now)(a := None, b \<mapsto> x)) = (view s now)(a := None, b \<mapsto> x)"
    and "live now ((view s now)(b \<mapsto> x)) = (view s now)(b \<mapsto> x)"
proof -
  have "live now (\<lambda>_. Some x) k = Some x" for k
    using assms by (auto simp: live_def view_def expired_def split: option.splits if_splits)
  then show "live now ((view s now)(a := None, b \<mapsto> x)) = (view s now)(a := None, b \<mapsto> x)"
    and "live now ((view s now)(b \<mapsto> x)) = (view s now)(b \<mapsto> x)"
    by (simp_all only: live_fun_upd live_view) (simp add: live_def)
qed

lemma step_Rename:
  assumes ok: "store_ok s"
  shows "step_ok now (ORename a b) s"
proof (rule getForWrite_cases [OF ok, of now a])
  fix e assume g: "getForWrite now a s = (Some e, s)" "lookup s a = Some e" "\<not> expired e now"
    and v: "view s now a = Some (avalOf (st_heap s) e, e_expireAt e)"
  obtain q s2 where q: "nextSeq s = (q, s2)" by (cases "nextSeq s")
  show ?thesis
    using g ok q v move_ok [OF ok g(2,3) _ q] live_move [OF v]
    by (cases "a = b") (simp_all add: step_ok_def Store_Rename_def)
qed (simp add: step_ok_def Store_Rename_def)

text \<open>Evicting a second key leaves an entry already fetched in place.\<close>

lemma getForWrite_other:
  assumes "store_ok s" and "lookup s a = Some e" and "a \<noteq> b" and "getForWrite now b s = (x, s1)"
  shows "lookup s1 a = Some e" and "x \<noteq> None \<longleftrightarrow> view s now b \<noteq> None"
  using assms by (cases "lookup s b"; auto simp: getForWrite_def view_def split: if_splits)+

lemma step_RenameNX:
  assumes ok: "store_ok s"
  shows "step_ok now (ORenameNX a b) s"
proof (rule getForWrite_cases [OF ok, of now a])
  fix e assume g: "getForWrite now a s = (Some e, s)" "lookup s a = Some e" "\<not> expired e now"
    and v: "view s now a = Some (avalOf (st_heap s) e, e_expireAt e)"
  obtain x s1 where x: "getForWrite now b s = (x, s1)" by (cases "getForWrite now b s")
  obtain q s2 where q: "nextSeq s1 = (q, s2)" by (cases "nextSeq s1")
  note gb = getForWrite_spec [OF ok x]
  show ?thesis
  proof (cases "a = b")
    case True
    then show ?thesis using g ok v by (simp add: step_ok_def Store_RenameNX_def)
  next
    case False
    note o = getForWrite_other [OF ok g(2) False x]
    show ?thesis
      using g(1) ok q v x o(2) False gb(1-3) move_ok [OF gb(1) o(1) g(3) False q] live_move [OF v]
      by (cases x) (simp_all add: step_ok_def Store_RenameNX_def)
  qed
qed (simp add: step_ok_def Store_RenameNX_def)

lemma clone_entry:
  "e_typ (entry_clone e) = e_typ e" "e_fieldOrder (entry_clone e) = e_fieldOrder e"
  "e_expireAt (entry_clone e) = e_expireAt e" "expired (entry_clone e) now = expired e now"
  "entry_ok h e \<Longrightarrow> entry_ok h (entry_clone e)" "avalOf h (entry_clone e) = avalOf h e"
  using deque_clone_list [of "e_list e"] length_dq_list [of "deque_clone (e_list e)"]
  by (cases "e_typ e"; simp add: entry_clone_def entry_ok_def hash_ok_def avalOf_def expired_def hashPairs_def)+

lemma step_Copy:
  assumes ok: "store_ok s"
  shows "step_ok now (OCopy a b r) s"
proof (rule getForWrite_cases [OF ok, of now a])
  fix e assume g: "getForWrite now a s = (Some e, s)" "lookup s a = Some e" "\<not> expired e now"
    and v: "view s now a = Some (avalOf (st_heap s) e, e_expireAt e)" and eok: "entry_ok (st_heap s) e"
  obtain x s1 where x: "getForWrite now b s = (x, s1)" by (cases "getForWrite now b s")
  obtain q s2 where q: "nextSeq s1 = (q, s2)" by (cases "nextSeq s1")
  note gb = getForWrite_spec [OF ok x] and f = nextSeq_frame [OF q]
  let ?e = "(entry_clone e)\<lparr>e_seq := q\<rparr>"
  have ok2: "store_ok s2" using f(4) gb(1) by simp
  have e: "entry_ok (st_heap s2) ?e" using eok f(2) gb(3) by (simp add: reseq clone_entry)
  have view2: "view (putEntry b ?e s2) now = (view s now)(b \<mapsto> (avalOf (st_heap s) e, e_expireAt e))"
    using putEntry_same_heap(1) [OF ok2 e] f(2,3) gb(2,3) g(3) by (simp add: reseq clone_entry)
  have ok3: "store_ok (putEntry b ?e s2)" if "e_typ e \<noteq> typeHash"
    using put_nonhash(1) [OF ok2 _ e] that by (simp add: clone_entry)
  have ch: "copies_hash (OCopy a b r) (view s now) \<longleftrightarrow> e_typ e = typeHash"
    using v by (cases "e_typ e") (simp_all add: avalOf_def)
  show ?thesis
  proof (cases "a = b")
    case True
    then show ?thesis using g ok v by (simp add: step_ok_def Store_Copy_def)
  next
    case False
    note o = getForWrite_other [OF ok g(2) False x]
    show ?thesis
    proof (cases "x \<noteq> None \<and> \<not> r")
      case True
      then show ?thesis
        using False g(1) x o(2) v gb(1,2) by (intro step_okI) (auto simp: Store_Copy_def)
    next
      case no: False
      have "store_exec now (OCopy a b r) s = (RpBool True, putEntry b ?e s2)"
        using no False g(1) x q by (auto simp: Store_Copy_def)
      then show ?thesis
        using no False v o(2) view2 ok3 ch live_move(2) [OF v] by (intro step_okI) auto
    qed
  qed
qed (simp add: step_ok_def Store_Copy_def)

lemma step_FlushDB: "store_ok s \<Longrightarrow> step_ok now OFlushDB s"
  by (auto simp: step_ok_def Store_FlushDB_def store_ok_def view_def fun_eq_iff)

lemmas step_simps = step_Get step_Exists step_Set step_Del step_Expire step_Persist step_TTL step_Incr
  step_Type step_list_reads step_hash_reads step_push pop_refines step_HSet step_HDel step_Rename
  step_RenameNX step_Copy step_FlushDB

lemma step_all: "store_ok s \<Longrightarrow> args_ok op \<Longrightarrow> step_ok now op s"
  by (cases op) (simp_all add: step_simps)

section \<open>The contract of a keyspace\<close>

text \<open>
  What the command handlers rely on: an operation answers as the abstract operation on the keys
  that are live at its clock reading, leaves the corresponding keyspace, and keeps the
  invariant; passing time only removes keys. \<open>legal\<close> restricts operations and arguments.
\<close>

fun history :: "(time \<Rightarrow> 'op \<Rightarrow> 's \<Rightarrow> 'r \<times> 's) \<Rightarrow> (time \<times> 'op) list \<Rightarrow> 's \<Rightarrow> 'r list \<times> 's" where
  "history f [] s = ([], s)"
| "history f ((now, op) # ops) s =
     (let (r, s') = f now op s; (rs, s'') = history f ops s' in (r # rs, s''))"

fun legalHistory :: "(time \<Rightarrow> 'op \<Rightarrow> 'd \<Rightarrow> 'r \<times> 'd) \<Rightarrow> ('op \<Rightarrow> 'd \<Rightarrow> bool) \<Rightarrow> (time \<Rightarrow> 'd \<Rightarrow> 'd) \<Rightarrow> time \<Rightarrow> (time \<times> 'op) list \<Rightarrow> 'd \<Rightarrow> bool" where
  "legalHistory g lg ltr t [] d = True"
| "legalHistory g lg ltr t ((now, op) # ops) d =
     (t \<le> now \<and> lg op (ltr now d) \<and> legalHistory g lg ltr now ops (snd (g now op (ltr now d))))"

locale keyspace_contract =
  fixes exec :: "time \<Rightarrow> 'op \<Rightarrow> 's \<Rightarrow> 'r \<times> 's"
    and absop :: "time \<Rightarrow> 'op \<Rightarrow> 'd \<Rightarrow> 'r \<times> 'd"
    and look :: "'s \<Rightarrow> time \<Rightarrow> 'd"
    and later :: "time \<Rightarrow> 'd \<Rightarrow> 'd"
    and inv :: "'s \<Rightarrow> bool"
    and legal :: "'op \<Rightarrow> 'd \<Rightarrow> bool"
  assumes look_later: "now \<le> t \<Longrightarrow> look s t = later t (look s now)"
    and later_later: "now \<le> t \<Longrightarrow> later t (later now d) = later t d"
    and exec_reply: "inv s \<Longrightarrow> legal op (look s now) \<Longrightarrow> fst (exec now op s) = fst (absop now op (look s now))"
    and exec_look: "inv s \<Longrightarrow> legal op (look s now) \<Longrightarrow>
      look (snd (exec now op s)) now = later now (snd (absop now op (look s now)))"
    and exec_inv: "inv s \<Longrightarrow> legal op (look s now) \<Longrightarrow> inv (snd (exec now op s))"
begin

lemma exec_later:
  assumes "inv s" and "legal op (look s now)" and "now \<le> t"
  shows "look (snd (exec now op s)) t = later t (snd (absop now op (look s now)))"
  using look_later [OF assms(3)] exec_look [OF assms(1,2)] later_later [OF assms(3)] by simp

theorem history_agrees:
  assumes "inv s" and "\<And>n. t \<le> n \<Longrightarrow> look s n = later n d" and "legalHistory absop legal later t ops d"
  shows "fst (history exec ops s) = fst (history (\<lambda>now op d. absop now op (later now d)) ops d) \<and> inv (snd (history exec ops s)) \<and>
    (\<forall>n. (case ops of [] \<Rightarrow> t | _ \<Rightarrow> fst (last ops)) \<le> n \<longrightarrow>
       look (snd (history exec ops s)) n = later n (snd (history (\<lambda>now op d. absop now op (later now d)) ops d)))"
  using assms
proof (induction ops arbitrary: s t d)
  case Nil
  then show ?case by simp
next
  case (Cons x ops)
  obtain now op where x: "x = (now, op)" by (cases x)
  have adm: "t \<le> now" "legal op (later now d)" "legalHistory absop legal later now ops (snd (absop now op (later now d)))"
    using Cons.prems(3) x by simp_all
  have v: "look s now = later now d" using Cons.prems(2) adm(1) by blast
  have lg: "legal op (look s now)" using adm(2) v by simp
  have "look (snd (exec now op s)) n = later n (snd (absop now op (later now d)))" if "now \<le> n" for n
    using exec_later [OF Cons.prems(1) lg that] v by simp
  from Cons.IH [OF exec_inv [OF Cons.prems(1) lg] this adm(3)] show ?case
    using x v exec_reply [OF Cons.prems(1) lg] by (cases ops) (auto simp: case_prod_beta Let_def)
qed

end

lemma view_later: "now \<le> n2 \<Longrightarrow> view s n2 = live n2 (view s now)"
  by (auto simp: view_def live_def expired_def fun_eq_iff split: option.splits)

lemma live_live: "now \<le> n2 \<Longrightarrow> live n2 (live now db) = live n2 db"
  by (auto simp: live_def fun_eq_iff split: option.splits if_splits)

text \<open>The store keeps the contract for every operation but COPY of a hash.\<close>

definition legalOp :: "store_op \<Rightarrow> db \<Rightarrow> bool" where
  "legalOp op db \<longleftrightarrow> args_ok op \<and> \<not> copies_hash op db"

interpretation keyspace: keyspace_contract store_exec spec view live store_ok legalOp
proof (unfold_locales, goal_cases)
  case (1 now t s)
  then show ?case by (rule view_later)
next
  case (2 now t d)
  then show ?case by (rule live_live)
qed (use step_all in \<open>auto simp: legalOp_def step_ok_def case_prod_beta Let_def\<close>)

section \<open>Runs\<close>

text \<open>A client history: operations with the clock reading each one sees.\<close>

fun run :: "(time \<times> store_op) list \<Rightarrow> store \<Rightarrow> store_reply list \<times> store" where
  "run [] s = ([], s)"
| "run ((now, op) # ops) s =
     (let (r, s') = store_exec now op s; (rs, s'') = run ops s' in (r # rs, s''))"

fun run_spec :: "(time \<times> store_op) list \<Rightarrow> db \<Rightarrow> store_reply list \<times> db" where
  "run_spec [] db = ([], db)"
| "run_spec ((now, op) # ops) db =
     (let (r, db') = spec now op (live now db); (rs, db'') = run_spec ops db' in (r # rs, db''))"

fun admissible :: "time \<Rightarrow> (time \<times> store_op) list \<Rightarrow> db \<Rightarrow> bool" where
  "admissible t [] db = True"
| "admissible t ((now, op) # ops) db =
     (t \<le> now \<and> args_ok op \<and> \<not> copies_hash op (live now db) \<and>
      admissible now ops (snd (spec now op (live now db))))"

lemma run_history: "run ops s = history store_exec ops s"
  by (induction ops arbitrary: s) (auto simp: case_prod_beta Let_def)

lemma run_spec_history: "run_spec ops db = history (\<lambda>now op d. spec now op (live now d)) ops db"
  by (induction ops arbitrary: db) (auto simp: case_prod_beta Let_def)

lemma admissible_legal: "admissible t ops db = legalHistory spec legalOp live t ops db"
  by (induction ops arbitrary: t db) (auto simp: legalOp_def)

lemmas run_histories = run_history run_spec_history admissible_legal

lemma run_refines:
  assumes "store_ok s" and "\<And>n. t \<le> n \<Longrightarrow> view s n = live n db" and "admissible t ops db"
  shows "fst (run ops s) = fst (run_spec ops db) \<and> store_ok (snd (run ops s)) \<and>
    (\<forall>n. (case ops of [] \<Rightarrow> t | _ \<Rightarrow> fst (last ops)) \<le> n \<longrightarrow>
       view (snd (run ops s)) n = live n (snd (run_spec ops db)))"
  using keyspace.history_agrees [OF assms(1,2)] assms(3) by (simp add: run_histories)

section \<open>Properties\<close>

text \<open>
  Claim C1. Every history of keyspace operations on a new store, with a clock that does not run backwards
  and without COPY of a hash, gets exactly the replies of the abstract keyspace in which a key with a passed
  deadline is absent; the invariant of the representation holds at the end.
\<close>

theorem store_refines_spec:
  assumes "admissible t0 ops Map.empty"
  shows "fst (run ops NewStore) = fst (run_spec ops Map.empty) \<and> store_ok (snd (run ops NewStore))"
  using run_refines [OF store_ok_New(1) _ assms] by (simp add: store_ok_New(2))

theorem store_refines_spec_witness:
  "fst (run [(1, OSet ''k'' ''7'' SetAlways 50), (2, OIncr ''k''), (3, OLPush ''l'' [''a'', ''b'']),
             (60, ORPop ''l''), (61, OHSet ''h'' [''f'', ''v'', ''g'', ''w'']), (62, OHDel ''h'' [''f'']),
             (63, OHGetAll ''h''), (64, OCopy ''k'' ''c'' False), (65, OGet ''c'')] NewStore) =
   [RpBool True, RpInt 8, RpInt 2, RpOpt (Some ''a''), RpInt 2, RpInt 1, RpList [''g'', ''w''],
    RpBool True, RpOpt (Some ''8'')]"
proof -
  let ?ops = "[(1, OSet ''k'' ''7'' SetAlways 50), (2, OIncr ''k''), (3, OLPush ''l'' [''a'', ''b'']),
             (60, ORPop ''l''), (61, OHSet ''h'' [''f'', ''v'', ''g'', ''w'']), (62, OHDel ''h'' [''f'']),
             (63, OHGetAll ''h''), (64, OCopy ''k'' ''c'' False), (65, OGet ''c'')]"
  have num: "parseInt ''7'' = Some 7" "formatInt 8 = ''8''" by (simp_all add: go_simps)
  note ev = live_def isZero_def zeroTime_def specIncr_def specPush_def specPop_def specHSet_def specHDel_def
    readHash_def hdelFields_def int64_def MinInt64_def MaxInt64_def num
  have "admissible 0 ?ops Map.empty" by (simp add: ev)
  from store_refines_spec [OF this] have "fst (run ?ops NewStore) = fst (run_spec ?ops Map.empty)" by blast
  also have "\<dots> = [RpBool True, RpInt 8, RpInt 2, RpOpt (Some ''a''), RpInt 2, RpInt 1, RpList [''g'', ''w''],
    RpBool True, RpOpt (Some ''8'')]" by (simp add: ev)
  finally show ?thesis .
qed

text \<open>
  COPY of a hash does not give an independent hash: the two keys share the field-order array, and
  after HDEL on the source the copy, which still has both fields, lists one of them twice and the other
  never. The same history without COPY's sharing would list \<open>a\<close> and \<open>b\<close>.
\<close>

lemma copy_hash_shares_order:
  "fst (run [(1, OHSet ''h'' [''a'', ''1'', ''b'', ''2'']), (2, OCopy ''h'' ''c'' False),
             (3, OHDel ''h'' [''a'']), (4, OHKeys ''c''), (5, OHExists ''c'' ''a''), (6, OHLen ''c'')] NewStore) =
   [RpInt 2, RpBool True, RpInt 1, RpList [''b'', ''b''], RpBool True, RpInt 2]"
  by (simp add: store_defs)

end
