(* ===== verification/Codec.thy ===== *)
theory Codec
  imports Prelude
begin

text \<open>
  The contract of a self-delimiting record format. Two byte streams of toykv are sequences of
  such records: the commands of a connection and the append-only log. Each is consumed by a loop
  that decodes a record, acts on it and goes on with the rest.
\<close>

text \<open>Acting on one record after the other, until one of them ends the loop.\<close>

fun steps :: "('a \<Rightarrow> 's \<Rightarrow> 'r + 's) \<Rightarrow> 'a list \<Rightarrow> 's \<Rightarrow> 'r + 's" where
  "steps f [] st = Inr st"
| "steps f (x # xs) st = (case f x st of Inl r \<Rightarrow> Inl r | Inr st' \<Rightarrow> steps f xs st')"

locale record_codec =
  fixes enc :: "'a \<Rightarrow> bytes"
    and dec :: "bytes \<Rightarrow> 'e + 'a \<times> bytes"
    and ok :: "'a \<Rightarrow> bool"
  assumes dec_enc: "ok x \<Longrightarrow> dec (enc x @ rest) = Inr (x, rest)"
    and enc_ne: "enc x \<noteq> []"
begin

text \<open>No record is a proper prefix of another, so a stream determines its records.\<close>

lemma enc_prefix_free: "ok x \<Longrightarrow> ok y \<Longrightarrow> enc x @ r = enc y @ r' \<Longrightarrow> x = y \<and> r = r'"
  by (metis dec_enc prod.inject sum.inject(2))

lemma stream_inj:
  "\<forall>x \<in> set xs. ok x \<Longrightarrow> \<forall>y \<in> set ys. ok y \<Longrightarrow> concat (map enc xs) = concat (map enc ys) \<Longrightarrow> xs = ys"
proof (induction xs arbitrary: ys)
  case Nil
  then show ?case by (cases ys) (simp_all add: enc_ne)
next
  case (Cons x xs)
  obtain y ys' where ys: "ys = y # ys'" using Cons.prems(3) enc_ne [of x] by (cases ys) simp_all
  have e: "enc x @ concat (map enc xs) = enc y @ concat (map enc ys')" using Cons.prems(3) ys by simp
  have o: "ok x" "ok y" "\<forall>x \<in> set xs. ok x" "\<forall>y \<in> set ys'. ok y" using Cons.prems(1,2) ys by simp_all
  note p = enc_prefix_free [OF o(1,2) e]
  have "xs = ys'" by (rule Cons.IH [OF o(3,4)]) (simp add: p)
  then show ?case using p ys by simp
qed

text \<open>A decoding loop runs through the records of a stream and goes on with what follows them.\<close>

lemma loop_stream:
  assumes loop: "\<And>inp st. loop inp st =
      (case dec inp of Inl e \<Rightarrow> fin e st
       | Inr (x, rest) \<Rightarrow> (case f x st of Inl r \<Rightarrow> r | Inr st' \<Rightarrow> loop rest st'))"
    and "\<forall>x \<in> set xs. ok x"
  shows "loop (concat (map enc xs) @ tail) st = (case steps f xs st of Inl r \<Rightarrow> r | Inr st' \<Rightarrow> loop tail st')"
  using assms(2)
proof (induction xs arbitrary: st)
  case (Cons x xs)
  have "loop (concat (map enc (x # xs)) @ tail) st =
      (case f x st of Inl r \<Rightarrow> r | Inr st' \<Rightarrow> loop (concat (map enc xs) @ tail) st')"
    using dec_enc [of x "concat (map enc xs) @ tail"] Cons.prems by (subst loop) simp
  then show ?case using Cons by (simp split: sum.splits)
qed simp

end

end
