(* ===== verification/Resp.thy ===== *)
theory Resp
  imports Golib Codec
begin

text \<open>
  The RESP codec (\<^verbatim>\<open>internal/resp\<close>: \<^verbatim>\<open>types.go\<close>, \<^verbatim>\<open>errors.go\<close>, \<^verbatim>\<open>reader.go\<close>,
  \<^verbatim>\<open>writer.go\<close>). A \<^verbatim>\<open>Value\<close> is a tagged union on its kind. The reader consumes a byte list,
  the bytes still to come on the stream, whose end is EOF; the writer yields the bytes it
  appends and whether it succeeded. The 16 KiB read buffer shows only as the limit on a
  line. A float64 is its 64-bit pattern; the text conversions of finite numbers
  (\<^verbatim>\<open>strconv.FormatFloat(f, 'g', -1, 64)\<close> and \<^verbatim>\<open>strconv.ParseFloat\<close>) are fields of the
  record \<open>floatlib\<close>.
\<close>

section \<open>Values and errors\<close>

type_synonym float64 = "64 word"

datatype resp_value =
    RString string
  | RError string
  | RInt int
  | RBulk bytes
  | RNullBulk
  | RArray "resp_value list"
  | RNullArray
  | RMap "resp_value list"
  | RSet "resp_value list"
  | RPush "resp_value list"
  | RDouble float64
  | RBoolean bool
  | RNull
  | RVerbatim string bytes
  | RUnknown char

definition ROK :: resp_value where "ROK = RString ''OK''"

datatype resp_err = EOF | ErrProtocol | ErrInvalidArity | ErrTooLarge

datatype proto = Proto2 | Proto3

definition MaxBulkSize :: int where "MaxBulkSize = 67108864"
definition MaxArrayLen :: int where "MaxArrayLen = 1048576"
definition MaxDepth :: nat where "MaxDepth = 32"
definition readerBufSize :: nat where "readerBufSize = 16384"

abbreviation CR :: char where "CR \<equiv> CHR 0x0D"
abbreviation LF :: char where "LF \<equiv> CHR 0x0A"

definition CRLF :: string where "CRLF = [CR, LF]"

record floatlib =
  fl_format :: "float64 \<Rightarrow> string"
  fl_parse :: "string \<Rightarrow> float64 option"

text \<open>The IEEE classes \<^verbatim>\<open>math.IsInf\<close> and \<^verbatim>\<open>math.IsNaN\<close> test for, on the bit pattern.\<close>

definition posInf :: float64 where "posInf = 0x7FF0000000000000"
definition negInf :: float64 where "negInf = 0xFFF0000000000000"

definition isNaN :: "float64 \<Rightarrow> bool" where
  "isNaN f \<longleftrightarrow> posInf < take_bit 63 f"

section \<open>Reader\<close>

type_synonym 'a rres = "resp_err + 'a \<times> bytes"

fun rbind :: "'a rres \<Rightarrow> ('a \<Rightarrow> bytes \<Rightarrow> 'b rres) \<Rightarrow> 'b rres" where
  "rbind (Inl e) f = Inl e"
| "rbind (Inr (x, rest)) f = f x rest"

definition readByte :: "bytes \<Rightarrow> char rres" where
  "readByte inp = (case inp of [] \<Rightarrow> Inl EOF | c # rest \<Rightarrow> Inr (c, rest))"

text \<open>\<^verbatim>\<open>bufio.ReadSlice\<close> followed by the CRLF check.\<close>

definition readLine :: "bytes \<Rightarrow> string rres" where
  "readLine inp =
     (let line = takeWhile (\<lambda>c. c \<noteq> LF) inp; rest = dropWhile (\<lambda>c. c \<noteq> LF) inp
      in if rest \<noteq> [] \<and> length line < readerBufSize
         then (if line = [] \<or> last line \<noteq> CR then Inl ErrProtocol else Inr (butlast line, tl rest))
         else if length inp \<ge> readerBufSize then Inl ErrTooLarge
         else Inl EOF)"

definition readInt :: "bytes \<Rightarrow> int rres" where
  "readInt inp =
     rbind (readLine inp) (\<lambda>s rest. case parseInt s of None \<Rightarrow> Inl ErrProtocol | Some n \<Rightarrow> Inr (n, rest))"

text \<open>\<^verbatim>\<open>io.ReadFull\<close> into a buffer of \<open>n\<close> bytes; a partial read is reported by the callers as
  ErrProtocol, an empty one as EOF.\<close>

definition readFull :: "nat \<Rightarrow> bytes \<Rightarrow> bytes rres" where
  "readFull n inp =
     (if n \<le> length inp then Inr (take n inp, drop n inp)
      else if inp = [] then Inl EOF
      else Inl ErrProtocol)"

definition readTail :: "bytes \<Rightarrow> unit rres" where
  "readTail inp =
     rbind (readByte inp) (\<lambda>cr rest1.
       rbind (readByte rest1) (\<lambda>lf rest2.
         if cr \<noteq> CR \<or> lf \<noteq> LF then Inl ErrProtocol else Inr ((), rest2)))"

definition readBulk :: "bytes \<Rightarrow> resp_value rres" where
  "readBulk inp =
     rbind (readInt inp) (\<lambda>n rest.
       if n = -1 then Inr (RNullBulk, rest)
       else if n < 0 then Inl ErrProtocol
       else if n > MaxBulkSize then Inl ErrTooLarge
       else rbind (readFull (nat n) rest) (\<lambda>buf rest1.
              rbind (readTail rest1) (\<lambda>_ rest2. Inr (RBulk buf, rest2))))"

definition readDouble :: "floatlib \<Rightarrow> bytes \<Rightarrow> resp_value rres" where
  "readDouble F inp =
     rbind (readLine inp) (\<lambda>s rest.
       case fl_parse F s of None \<Rightarrow> Inl ErrProtocol | Some f \<Rightarrow> Inr (RDouble f, rest))"

definition readBoolean :: "bytes \<Rightarrow> resp_value rres" where
  "readBoolean inp =
     rbind (readLine inp) (\<lambda>s rest.
       if s = ''t'' then Inr (RBoolean True, rest)
       else if s = ''f'' then Inr (RBoolean False, rest)
       else Inl ErrProtocol)"

definition readNull :: "bytes \<Rightarrow> resp_value rres" where
  "readNull inp =
     rbind (readLine inp) (\<lambda>s rest. if s \<noteq> [] then Inl ErrProtocol else Inr (RNull, rest))"

definition readVerbatim :: "bytes \<Rightarrow> resp_value rres" where
  "readVerbatim inp =
     rbind (readInt inp) (\<lambda>n rest.
       if n < 4 then Inl ErrProtocol
       else if n > MaxBulkSize then Inl ErrTooLarge
       else rbind (readFull (nat n) rest) (\<lambda>buf rest1.
              if buf ! 3 \<noteq> CHR '':'' then Inl ErrProtocol
              else rbind (readTail rest1) (\<lambda>_ rest2. Inr (RVerbatim (take 3 buf) (drop 4 buf), rest2))))"

text \<open>
  The element loop. The recursive call is the argument \<open>rd\<close>, reading one frame a level
  deeper; \<open>None\<close> in the aggregate readers stands for a depth of at least MaxDepth.
\<close>

primrec readN :: "(bytes \<Rightarrow> resp_value rres) \<Rightarrow> nat \<Rightarrow> bytes \<Rightarrow> resp_value list rres" where
  "readN rd 0 inp = Inr ([], inp)"
| "readN rd (Suc n) inp =
     rbind (rd inp) (\<lambda>v rest. rbind (readN rd n rest) (\<lambda>vs rest1. Inr (v # vs, rest1)))"

definition readElements :: "(bytes \<Rightarrow> resp_value rres) \<Rightarrow> int \<Rightarrow> bytes \<Rightarrow> resp_value list rres" where
  "readElements rd cnt inp =
     (if cnt < 0 then Inl ErrProtocol
      else if cnt > MaxArrayLen then Inl ErrTooLarge
      else readN rd (nat cnt) inp)"

definition readArray :: "(bytes \<Rightarrow> resp_value rres) option \<Rightarrow> bytes \<Rightarrow> resp_value rres" where
  "readArray deeper inp =
     (case deeper of
        None \<Rightarrow> Inl ErrTooLarge
      | Some rd \<Rightarrow>
          rbind (readInt inp) (\<lambda>n rest.
            if n = -1 then Inr (RNullArray, rest)
            else rbind (readElements rd n rest) (\<lambda>vs rest1. Inr (RArray vs, rest1))))"

definition readSetLike ::
  "(resp_value list \<Rightarrow> resp_value) \<Rightarrow> (bytes \<Rightarrow> resp_value rres) option \<Rightarrow> bytes \<Rightarrow> resp_value rres" where
  "readSetLike kind deeper inp =
     (case deeper of
        None \<Rightarrow> Inl ErrTooLarge
      | Some rd \<Rightarrow>
          rbind (readInt inp) (\<lambda>n rest.
            rbind (readElements rd n rest) (\<lambda>vs rest1. Inr (kind vs, rest1))))"

definition readMap :: "(bytes \<Rightarrow> resp_value rres) option \<Rightarrow> bytes \<Rightarrow> resp_value rres" where
  "readMap deeper inp =
     (case deeper of
        None \<Rightarrow> Inl ErrTooLarge
      | Some rd \<Rightarrow>
          rbind (readInt inp) (\<lambda>pairs rest.
            if pairs < 0 then Inl ErrProtocol
            else if pairs > MaxArrayLen div 2 then Inl ErrTooLarge
            else rbind (readElements rd (pairs * 2) rest) (\<lambda>vs rest1. Inr (RMap vs, rest1))))"

text \<open>The dispatch on the prefix byte.\<close>

definition readKind ::
  "floatlib \<Rightarrow> (bytes \<Rightarrow> resp_value rres) option \<Rightarrow> char \<Rightarrow> bytes \<Rightarrow> resp_value rres" where
  "readKind F deeper prefix rest =
     (if prefix = CHR ''+'' then rbind (readLine rest) (\<lambda>s rest1. Inr (RString s, rest1))
      else if prefix = CHR ''-'' then rbind (readLine rest) (\<lambda>s rest1. Inr (RError s, rest1))
      else if prefix = CHR '':'' then rbind (readInt rest) (\<lambda>n rest1. Inr (RInt n, rest1))
      else if prefix = CHR ''$'' then readBulk rest
      else if prefix = CHR ''*'' then readArray deeper rest
      else if prefix = CHR ''%'' then readMap deeper rest
      else if prefix = CHR ''~'' then readSetLike RSet deeper rest
      else if prefix = CHR ''>'' then readSetLike RPush deeper rest
      else if prefix = CHR '','' then readDouble F rest
      else if prefix = CHR ''#'' then readBoolean rest
      else if prefix = CHR ''_'' then readNull rest
      else if prefix = CHR ''='' then readVerbatim rest
      else Inl ErrProtocol)"

text \<open>\<open>readFrame F lv\<close> reads at depth \<open>MaxDepth - lv\<close>.\<close>

primrec readFrame :: "floatlib \<Rightarrow> nat \<Rightarrow> bytes \<Rightarrow> resp_value rres" where
  "readFrame F 0 inp = rbind (readByte inp) (readKind F None)"
| "readFrame F (Suc lv) inp = rbind (readByte inp) (readKind F (Some (readFrame F lv)))"

definition ReadFrame :: "floatlib \<Rightarrow> bytes \<Rightarrow> resp_value rres" where
  "ReadFrame F inp = readFrame F MaxDepth inp"

fun argvOf :: "resp_value list \<Rightarrow> bytes list option" where
  "argvOf [] = Some []"
| "argvOf (RBulk b # els) = map_option ((#) b) (argvOf els)"
| "argvOf (_ # els) = None"

definition ReadCommand :: "floatlib \<Rightarrow> bytes \<Rightarrow> bytes list rres" where
  "ReadCommand F inp =
     rbind (ReadFrame F inp) (\<lambda>v rest.
       case v of
         RArray els \<Rightarrow>
           if els = [] then Inl ErrInvalidArity
           else (case argvOf els of None \<Rightarrow> Inl ErrProtocol | Some argv \<Rightarrow> Inr (argv, rest))
       | _ \<Rightarrow> Inl ErrProtocol)"

section \<open>Writer\<close>

text \<open>What a write appends to the buffer, and whether it returned nil. A failing element
  leaves the bytes before it in the buffer.\<close>

type_synonym wres = "bytes \<times> bool"

definition wok :: "bytes \<Rightarrow> wres" where "wok b = (b, True)"

definition wthen :: "wres \<Rightarrow> wres \<Rightarrow> wres" where
  "wthen a b = (if snd a then (fst a @ fst b, snd b) else a)"

definition writePrefixed :: "char \<Rightarrow> string \<Rightarrow> wres" where
  "writePrefixed prefix s = wok ([prefix] @ s @ CRLF)"

definition writeBulkBytes :: "bytes \<Rightarrow> wres" where
  "writeBulkBytes b = wok (''$'' @ formatNat (length b) @ CRLF @ b @ CRLF)"

definition writeHeader :: "char \<Rightarrow> nat \<Rightarrow> wres" where
  "writeHeader prefix n = wok ([prefix] @ formatNat n @ CRLF)"

definition formatDouble :: "floatlib \<Rightarrow> float64 \<Rightarrow> string" where
  "formatDouble F f =
     (if f = posInf then ''inf''
      else if f = negInf then ''-inf''
      else if isNaN f then ''nan''
      else fl_format F f)"

definition writeDouble :: "floatlib \<Rightarrow> proto \<Rightarrow> float64 \<Rightarrow> wres" where
  "writeDouble F p f =
     (if p = Proto2 then writeBulkBytes (formatDouble F f) else writePrefixed (CHR '','') (formatDouble F f))"

definition writeBoolean :: "proto \<Rightarrow> bool \<Rightarrow> wres" where
  "writeBoolean p b =
     (if p = Proto2 then writePrefixed (CHR '':'') (if b then ''1'' else ''0'')
      else writePrefixed (CHR ''#'') (if b then ''t'' else ''f''))"

definition writeNull :: "proto \<Rightarrow> wres" where
  "writeNull p = (if p = Proto2 then wok (''$-1'' @ CRLF) else wok (''_'' @ CRLF))"

definition writeVerbatim :: "proto \<Rightarrow> string \<Rightarrow> bytes \<Rightarrow> wres" where
  "writeVerbatim p fmtTag b =
     (if p = Proto2 then writeBulkBytes b
      else if length fmtTag \<noteq> 3 then ([], False)
      else wok (''='' @ formatNat (length fmtTag + 1 + length b) @ CRLF @ fmtTag @ '':'' @ b @ CRLF))"

fun WriteFrameProto :: "floatlib \<Rightarrow> proto \<Rightarrow> resp_value \<Rightarrow> wres"
  and writeElems :: "floatlib \<Rightarrow> proto \<Rightarrow> resp_value list \<Rightarrow> wres" where
  "WriteFrameProto F p (RString s) = writePrefixed (CHR ''+'') s"
| "WriteFrameProto F p (RError s) = writePrefixed (CHR ''-'') s"
| "WriteFrameProto F p (RInt n) = writePrefixed (CHR '':'') (formatInt n)"
| "WriteFrameProto F p (RBulk b) = writeBulkBytes b"
| "WriteFrameProto F p RNullBulk = wok (''$-1'' @ CRLF)"
| "WriteFrameProto F p (RArray vs) = wthen (writeHeader (CHR ''*'') (length vs)) (writeElems F p vs)"
| "WriteFrameProto F p RNullArray = wok (''*-1'' @ CRLF)"
| "WriteFrameProto F p (RMap vs) =
     wthen (if p = Proto2 then writeHeader (CHR ''*'') (length vs) else writeHeader (CHR ''%'') (length vs div 2))
       (writeElems F p vs)"
| "WriteFrameProto F p (RSet vs) =
     wthen (writeHeader (if p = Proto2 then CHR ''*'' else CHR ''~'') (length vs)) (writeElems F p vs)"
| "WriteFrameProto F p (RPush vs) =
     wthen (writeHeader (if p = Proto2 then CHR ''*'' else CHR ''>'') (length vs)) (writeElems F p vs)"
| "WriteFrameProto F p (RDouble f) = writeDouble F p f"
| "WriteFrameProto F p (RBoolean b) = writeBoolean p b"
| "WriteFrameProto F p RNull = writeNull p"
| "WriteFrameProto F p (RVerbatim fmtTag b) = writeVerbatim p fmtTag b"
| "WriteFrameProto F p (RUnknown c) = ([], False)"
| "writeElems F p [] = wok []"
| "writeElems F p (v # vs) = wthen (WriteFrameProto F p v) (writeElems F p vs)"

definition WriteFrame :: "floatlib \<Rightarrow> resp_value \<Rightarrow> wres" where
  "WriteFrame F v = WriteFrameProto F Proto2 v"

section \<open>Lines, numbers, bodies\<close>

lemma readLine_line:
  assumes "LF \<notin> set s" and "length s + 1 < readerBufSize"
  shows "readLine (s @ CRLF @ rest) = Inr (s, rest)"
proof -
  have e: "s @ CRLF @ rest = (s @ [CR]) @ LF # rest" by (simp add: CRLF_def)
  have "takeWhile (\<lambda>c. c \<noteq> LF) (s @ CRLF @ rest) = s @ [CR]"
    unfolding e by (rule take_while_append_hit) (use assms in auto)
  moreover have "dropWhile (\<lambda>c. c \<noteq> LF) (s @ CRLF @ rest) = LF # rest"
    unfolding e by (rule drop_while_append_hit) (use assms in auto)
  ultimately show ?thesis using assms(2) by (simp add: readLine_def)
qed

lemma readInt_line:
  assumes "int64 n"
  shows "readInt (formatInt n @ CRLF @ rest) = Inr (n, rest)"
proof -
  have "LF \<notin> set (formatInt n)" using formatInt_no_ctrl by blast
  then have "readLine (formatInt n @ CRLF @ rest) = Inr (formatInt n, rest)"
    using length_formatInt_le [OF assms] by (intro readLine_line) (simp_all add: readerBufSize_def)
  then show ?thesis using parseInt_formatInt [OF assms] by (simp add: readInt_def)
qed

lemma readInt_minus1: "readInt (''-1'' @ CRLF @ rest) = Inr (-1, rest)"
proof -
  have "formatInt (-1) = ''-1''" by (simp add: go_simps)
  then show ?thesis using readInt_line [of "-1" rest] by (simp add: int64_def MinInt64_def MaxInt64_def)
qed

lemma int64_small: "0 \<le> n \<Longrightarrow> n \<le> MaxBulkSize \<Longrightarrow> int64 n"
  by (simp add: int64_def MaxBulkSize_def MinInt64_def MaxInt64_def)

lemma readInt_len: "int n \<le> MaxBulkSize \<Longrightarrow> readInt (formatNat n @ CRLF @ rest) = Inr (int n, rest)"
  using readInt_line [of "int n" rest] int64_small [of "int n"] by (simp add: formatInt_of_nat)

lemma readFull_body [simp]: "readFull (length b) (b @ rest) = Inr (b, rest)"
  by (simp add: readFull_def)

lemma readTail_crlf [simp]: "readTail (CRLF @ rest) = Inr ((), rest)"
  by (simp add: readTail_def readByte_def CRLF_def)

lemma readBulk_body:
  "int (length b) \<le> MaxBulkSize \<Longrightarrow> readBulk (formatNat (length b) @ CRLF @ b @ CRLF @ rest) = Inr (RBulk b, rest)"
  by (simp add: readBulk_def readInt_len)

lemma readVerbatim_body:
  assumes "4 \<le> length buf" and "int (length buf) \<le> MaxBulkSize" and "buf ! 3 = CHR '':''"
  shows "readVerbatim (formatNat (length buf) @ CRLF @ buf @ CRLF @ rest) = Inr (RVerbatim (take 3 buf) (drop 4 buf), rest)"
  using assms by (simp add: readVerbatim_def readInt_len)

section \<open>Round trip\<close>

text \<open>The values a proto-3 peer can send: what the reader's limits and the line grammar allow.\<close>

fun shape_ok :: "(float64 \<Rightarrow> bool) \<Rightarrow> nat \<Rightarrow> resp_value \<Rightarrow> bool" where
  "shape_ok D lv (RString s) = (LF \<notin> set s \<and> length s + 1 < readerBufSize)"
| "shape_ok D lv (RError s) = (LF \<notin> set s \<and> length s + 1 < readerBufSize)"
| "shape_ok D lv (RInt n) = int64 n"
| "shape_ok D lv (RBulk b) = (int (length b) \<le> MaxBulkSize)"
| "shape_ok D lv (RArray vs) = (0 < lv \<and> int (length vs) \<le> MaxArrayLen \<and> (\<forall>v \<in> set vs. shape_ok D (lv - 1) v))"
| "shape_ok D lv (RMap vs) =
     (0 < lv \<and> even (length vs) \<and> int (length vs) \<le> MaxArrayLen \<and> (\<forall>v \<in> set vs. shape_ok D (lv - 1) v))"
| "shape_ok D lv (RSet vs) = (0 < lv \<and> int (length vs) \<le> MaxArrayLen \<and> (\<forall>v \<in> set vs. shape_ok D (lv - 1) v))"
| "shape_ok D lv (RPush vs) = (0 < lv \<and> int (length vs) \<le> MaxArrayLen \<and> (\<forall>v \<in> set vs. shape_ok D (lv - 1) v))"
| "shape_ok D lv (RDouble f) = D f"
| "shape_ok D lv (RVerbatim t b) = (length t = 3 \<and> int (length b) + 4 \<le> MaxBulkSize)"
| "shape_ok D lv (RUnknown c) = False"
| "shape_ok D lv RNullArray = (0 < lv)"
| "shape_ok D lv _ = True"

definition double_ok :: "floatlib \<Rightarrow> float64 \<Rightarrow> bool" where
  "double_ok F f \<longleftrightarrow>
     fl_parse F (formatDouble F f) = Some f \<and> LF \<notin> set (formatDouble F f) \<and>
     length (formatDouble F f) + 1 < readerBufSize"

abbreviation wire_ok :: "floatlib \<Rightarrow> nat \<Rightarrow> resp_value \<Rightarrow> bool" where
  "wire_ok F \<equiv> shape_ok (double_ok F)"

lemma MaxArrayLen_le: "n \<le> MaxArrayLen \<Longrightarrow> n \<le> MaxBulkSize"
  by (simp add: MaxArrayLen_def MaxBulkSize_def)

lemma wok_sel [simp]: "fst (wok b) = b" "snd (wok b) = True"
  by (simp_all add: wok_def)

lemma wthen_sel [simp]: "snd a \<Longrightarrow> fst (wthen a b) = fst a @ fst b" "snd (wthen a b) = (snd a \<and> snd b)"
  by (simp_all add: wthen_def)

lemma writeHeader_ok [simp]: "snd (writeHeader c n)" "fst (writeHeader c n) = c # formatNat n @ CRLF"
  by (simp_all add: writeHeader_def)

lemma readElements_ok:
  "int n \<le> MaxArrayLen \<Longrightarrow> readElements rd (int n) inp = readN rd n inp"
  by (simp add: readElements_def)

lemma read_write:
  "p = Proto3 \<Longrightarrow> wire_ok F lv v \<Longrightarrow>
     snd (WriteFrameProto F p v) \<and> readFrame F lv (fst (WriteFrameProto F p v) @ rest) = Inr (v, rest)"
  "p = Proto3 \<Longrightarrow> (\<forall>v \<in> set vs. wire_ok F lv v) \<Longrightarrow>
     snd (writeElems F p vs) \<and> readN (readFrame F lv) (length vs) (fst (writeElems F p vs) @ rest) = Inr (vs, rest)"
proof (induction F p v and F p vs arbitrary: lv rest and lv rest rule: WriteFrameProto_writeElems.induct)
  case (1 F p s)
  then show ?case by (cases lv) (simp_all add: writePrefixed_def readByte_def readKind_def readLine_line)
next
  case (2 F p s)
  then show ?case by (cases lv) (simp_all add: writePrefixed_def readByte_def readKind_def readLine_line)
next
  case (3 F p n)
  then show ?case by (cases lv) (simp_all add: writePrefixed_def readByte_def readKind_def readInt_line)
next
  case (4 F p b)
  then show ?case by (cases lv) (simp_all add: writeBulkBytes_def readByte_def readKind_def readBulk_body)
next
  case (5 F p)
  then show ?case using readInt_minus1 [of rest]
    by (cases lv) (simp_all add: readByte_def readKind_def readBulk_def)
next
  case (6 F p vs)
  then obtain l where l: "lv = Suc l" by (cases lv) auto
  show ?case using "6.IH" [OF "6.prems"(1), of l rest] "6.prems" MaxArrayLen_le [of "int (length vs)"]
    by (simp add: l readByte_def readKind_def readArray_def readInt_len readElements_ok)
next
  case (7 F p)
  then show ?case using readInt_minus1 [of rest]
    by (cases lv) (simp_all add: readByte_def readKind_def readArray_def)
next
  case (8 F p vs)
  then obtain l where l: "lv = Suc l" by (cases lv) auto
  obtain n where n: "length vs = 2 * n" using 8 by (auto elim: evenE)
  have twice: "nat (int n * 2) = 2 * n" by simp
  have half: "\<not> MaxArrayLen div 2 < int n" using 8 n by (simp add: MaxArrayLen_def)
  show ?case using "8.IH" [OF "8.prems"(1), of l rest] "8.prems" MaxArrayLen_le [of "int n"] n
    by (simp add: l readByte_def readKind_def readMap_def readInt_len half twice readElements_def)
next
  case (9 F p vs)
  then obtain l where l: "lv = Suc l" by (cases lv) auto
  show ?case using "9.IH" [OF "9.prems"(1), of l rest] "9.prems" MaxArrayLen_le [of "int (length vs)"]
    by (simp add: l readByte_def readKind_def readSetLike_def readInt_len readElements_ok)
next
  case (10 F p vs)
  then obtain l where l: "lv = Suc l" by (cases lv) auto
  show ?case using "10.IH" [OF "10.prems"(1), of l rest] "10.prems" MaxArrayLen_le [of "int (length vs)"]
    by (simp add: l readByte_def readKind_def readSetLike_def readInt_len readElements_ok)
next
  case (11 F p f)
  then show ?case
    by (cases lv) (simp_all add: writeDouble_def writePrefixed_def readByte_def readKind_def readDouble_def readLine_line double_ok_def)
next
  case (12 F p b)
  then show ?case
    using readLine_line [of "''t''" rest] readLine_line [of "''f''" rest]
    by (cases lv) (simp_all add: writeBoolean_def writePrefixed_def readByte_def readKind_def readBoolean_def readerBufSize_def)
next
  case (13 F p)
  then show ?case
    using readLine_line [of "[]" rest]
    by (cases lv) (simp_all add: writeNull_def readByte_def readKind_def readNull_def readerBufSize_def)
next
  case (14 F p t b)
  have body: "(t @ '':'' @ b) ! 3 = CHR '':''" "take 3 (t @ '':'' @ b) = t" "drop 4 (t @ '':'' @ b) = b"
    using 14 by (simp_all add: nth_append)
  have "readVerbatim (formatNat (length (t @ '':'' @ b)) @ CRLF @ (t @ '':'' @ b) @ CRLF @ rest) = Inr (RVerbatim t b, rest)"
    using readVerbatim_body [of "t @ '':'' @ b" rest] 14 unfolding body by simp
  then show ?case using 14 by (cases lv) (simp_all add: writeVerbatim_def readByte_def readKind_def)
next
  case (17 F p v vs)
  have w: "wire_ok F lv v" "\<forall>v \<in> set vs. wire_ok F lv v" using "17.prems" by auto
  note v = "17.IH"(1) [OF "17.prems"(1) w(1), of "fst (writeElems F p vs) @ rest"]
  note vs = "17.IH"(2) [OF "17.prems"(1) w(2), of rest]
  show ?case using v vs by simp
qed simp_all

section \<open>Downgrade to proto 2\<close>

fun downgrade :: "floatlib \<Rightarrow> resp_value \<Rightarrow> resp_value" where
  "downgrade F (RArray vs) = RArray (map (downgrade F) vs)"
| "downgrade F (RMap vs) = RArray (map (downgrade F) vs)"
| "downgrade F (RSet vs) = RArray (map (downgrade F) vs)"
| "downgrade F (RPush vs) = RArray (map (downgrade F) vs)"
| "downgrade F (RDouble f) = RBulk (formatDouble F f)"
| "downgrade F (RBoolean b) = RInt (if b then 1 else 0)"
| "downgrade F RNull = RNullBulk"
| "downgrade F (RVerbatim t b) = RBulk b"
| "downgrade F v = v"

lemma write_downgrade:
  "WriteFrameProto F Proto2 v = WriteFrameProto F Proto3 (downgrade F v)"
  "writeElems F Proto2 vs = writeElems F Proto3 (map (downgrade F) vs)"
proof (induction v and vs rule: WriteFrameProto_writeElems.induct [of "\<lambda>_ _ v. WriteFrameProto F Proto2 v = WriteFrameProto F Proto3 (downgrade F v)"
      "\<lambda>_ _ vs. writeElems F Proto2 vs = writeElems F Proto3 (map (downgrade F) vs)" for F])
qed (simp_all add: writeDouble_def writeBoolean_def writeNull_def writeVerbatim_def go_simps)

section \<open>Bounds of decoded values\<close>

text \<open>A reader that returns a value consumed at least one byte and left a suffix of its input.\<close>

definition eats :: "bytes \<Rightarrow> bytes \<Rightarrow> bool" where
  "eats inp rest \<longleftrightarrow> (\<exists>pre. inp = pre @ rest \<and> pre \<noteq> [])"

lemma eats_trans: "eats a b \<Longrightarrow> eats b c \<Longrightarrow> eats a c"
  unfolding eats_def by (metis append.assoc append_is_Nil_conv)

lemma eats_Cons [simp]: "eats (c # rest) rest"
  unfolding eats_def by (metis append_Cons append_Nil list.distinct(1))

lemma eats_Cons_trans: "eats inp rest \<Longrightarrow> eats (c # inp) rest"
  using eats_trans [OF eats_Cons] .

lemma eats_drop: "eats inp (drop n rest)" if "eats inp rest"
  using that unfolding eats_def by (metis append.assoc append_is_Nil_conv append_take_drop_id)

lemma rbind_Inr: "rbind m f = Inr y \<longleftrightarrow> (\<exists>x rest. m = Inr (x, rest) \<and> f x rest = Inr y)"
proof (cases m)
  case (Inr p)
  then show ?thesis by (cases p) auto
qed simp

lemma readLine_spec:
  assumes "readLine inp = Inr (s, rest)"
  shows "eats inp rest" and "LF \<notin> set s" and "length s + 1 < readerBufSize"
proof -
  let ?l = "takeWhile (\<lambda>c. c \<noteq> LF) inp" and ?r = "dropWhile (\<lambda>c. c \<noteq> LF) inp"
  have r: "?r \<noteq> []" "length ?l < readerBufSize" "?l \<noteq> []" "s = butlast ?l" "rest = tl ?r"
    using assms by (auto simp: readLine_def Let_def split: if_splits)
  have "inp = (?l @ [hd ?r]) @ tl ?r" using r(1) by simp
  then show "eats inp rest" unfolding eats_def r(5) by (metis append_is_Nil_conv list.distinct(1))
  show "LF \<notin> set s" unfolding r(4) using set_takeWhileD [of LF "\<lambda>c. c \<noteq> LF" inp] by (auto dest: in_set_butlastD)
  show "length s + 1 < readerBufSize" using r(2,3) unfolding r(4) by (cases ?l) auto
qed

lemma readLine_all:
  "readLine inp = Inr (s, rest) \<Longrightarrow> eats inp rest \<and> LF \<notin> set s \<and> length s + 1 < readerBufSize"
  using readLine_spec by blast

lemma readInt_spec:
  assumes "readInt inp = Inr (n, rest)"
  shows "eats inp rest" and "int64 n"
  using assms by (auto simp: readInt_def rbind_Inr split: option.splits dest: readLine_spec parseInt_range)

lemma readFull_spec: "readFull n inp = Inr (b, rest) \<Longrightarrow> length b = n \<and> rest = drop n inp"
  by (auto simp: readFull_def split: if_splits)

lemma readTail_spec: "readTail inp = Inr (u, rest) \<Longrightarrow> eats inp rest"
  by (auto simp: readTail_def readByte_def rbind_Inr eats_Cons_trans split: list.splits if_splits)

lemma readN_spec:
  assumes rd: "\<And>inp v rest. rd inp = Inr (v, rest) \<Longrightarrow> P v \<and> eats inp rest"
  shows "readN rd n inp = Inr (vs, rest) \<Longrightarrow>
    length vs = n \<and> (\<forall>v \<in> set vs. P v) \<and> (rest = inp \<or> eats inp rest)"
proof (induction n arbitrary: inp vs rest)
  case (Suc n)
  then obtain v r1 ws where a: "rd inp = Inr (v, r1)" "readN rd n r1 = Inr (ws, rest)" "vs = v # ws"
    by (auto simp: rbind_Inr)
  show ?case using rd [OF a(1)] Suc.IH [OF a(2)] a(3) eats_trans by auto
qed simp

lemma readElements_spec:
  assumes rd: "\<And>inp v rest. rd inp = Inr (v, rest) \<Longrightarrow> P v \<and> eats inp rest"
    and "readElements rd cnt inp = Inr (vs, rest)"
  shows "int (length vs) = cnt" and "cnt \<le> MaxArrayLen" and "\<forall>v \<in> set vs. P v" and "rest = inp \<or> eats inp rest"
  using readN_spec [where P = P and rd = rd, OF rd] assms(2) by (auto simp: readElements_def split: if_splits)

abbreviation decoded_ok :: "nat \<Rightarrow> resp_value \<Rightarrow> bool" where
  "decoded_ok \<equiv> shape_ok (\<lambda>_. True)"

text \<open>\<open>good lv inp m\<close>: if the reading \<open>m\<close> of \<open>inp\<close> gives a value, it is within the limits.\<close>

definition good :: "nat \<Rightarrow> bytes \<Rightarrow> resp_value rres \<Rightarrow> bool" where
  "good lv inp m \<longleftrightarrow> (\<forall>v rest. m = Inr (v, rest) \<longrightarrow> decoded_ok lv v \<and> eats inp rest)"

lemma good_scalars:
  "good lv inp (rbind (readLine inp) (\<lambda>s rest. Inr (RString s, rest)))"
  "good lv inp (rbind (readLine inp) (\<lambda>s rest. Inr (RError s, rest)))"
  "good lv inp (rbind (readInt inp) (\<lambda>n rest. Inr (RInt n, rest)))"
  "good lv inp (readDouble F inp)" "good lv inp (readBoolean inp)" "good lv inp (readNull inp)"
  by (auto simp: good_def rbind_Inr readDouble_def readBoolean_def readNull_def
      split: option.splits if_splits dest: readLine_all readInt_spec)

lemma good_bulk: "good lv inp (readBulk inp)"
  unfolding good_def
proof (intro allI impI)
  fix v rest assume "readBulk inp = Inr (v, rest)"
  then obtain n r1 where n: "readInt inp = Inr (n, r1)"
    and c: "(n = -1 \<and> v = RNullBulk \<and> rest = r1) \<or>
      (0 \<le> n \<and> n \<le> MaxBulkSize \<and> (\<exists>b r2 u. readFull (nat n) r1 = Inr (b, r2) \<and> readTail r2 = Inr (u, rest) \<and> v = RBulk b))"
    by (auto simp: readBulk_def rbind_Inr split: if_splits)
  show "decoded_ok lv v \<and> eats inp rest"
    using c readInt_spec(1) [OF n] by (auto dest!: readFull_spec readTail_spec intro: eats_trans eats_drop)
qed

lemma good_verbatim: "good lv inp (readVerbatim inp)"
  unfolding good_def
proof (intro allI impI)
  fix v rest assume "readVerbatim inp = Inr (v, rest)"
  then obtain n r1 b r2 u where a: "readInt inp = Inr (n, r1)" "4 \<le> n" "n \<le> MaxBulkSize"
    "readFull (nat n) r1 = Inr (b, r2)" "readTail r2 = Inr (u, rest)" "v = RVerbatim (take 3 b) (drop 4 b)"
    by (auto simp: readVerbatim_def rbind_Inr split: if_splits)
  have b: "length b = nat n" "r2 = drop (nat n) r1" using readFull_spec [OF a(4)] by simp_all
  then have "eats inp rest"
    using readInt_spec(1) [OF a(1)] readTail_spec [OF a(5)] by (auto intro: eats_trans eats_drop)
  then show "decoded_ok lv v \<and> eats inp rest" using a(2,3,6) b(1) by auto
qed

lemma good_aggregates:
  assumes deeper: "\<And>rd inp v rest. deeper = Some rd \<Longrightarrow> rd inp = Inr (v, rest) \<Longrightarrow> decoded_ok (lv - 1) v \<and> eats inp rest"
    and lv: "deeper \<noteq> None \<longleftrightarrow> 0 < lv"
  shows "good lv inp (readArray deeper inp)" and "good lv inp (readMap deeper inp)"
    and "good lv inp (readSetLike RSet deeper inp)" and "good lv inp (readSetLike RPush deeper inp)"
proof -
  have el: "lv \<noteq> 0" "int (length vs) = n" "n \<le> MaxArrayLen" "\<forall>v \<in> set vs. decoded_ok (lv - 1) v" "eats inp rest"
    if "deeper = Some rd" "readInt inp = Inr (m, r1)" "readElements rd n r1 = Inr (vs, rest)" for rd m n r1 vs rest
    using readElements_spec [where P = "decoded_ok (lv - 1)", OF deeper [OF that(1)] that(3)]
      readInt_spec(1) [OF that(2)] lv that(1) by (auto intro: eats_trans)
  show "good lv inp (readArray deeper inp)" unfolding good_def
  proof (intro allI impI)
    fix v rest assume "readArray deeper inp = Inr (v, rest)"
    then obtain rd n r1 where a: "deeper = Some rd" "readInt inp = Inr (n, r1)"
      and c: "(n = -1 \<and> v = RNullArray \<and> rest = r1) \<or> (\<exists>vs. readElements rd n r1 = Inr (vs, rest) \<and> v = RArray vs)"
      by (auto simp: readArray_def rbind_Inr split: option.splits if_splits)
    from c show "decoded_ok lv v \<and> eats inp rest"
    proof
      assume "n = -1 \<and> v = RNullArray \<and> rest = r1"
      then show ?thesis using lv a readInt_spec(1) [OF a(2)] by auto
    next
      assume "\<exists>vs. readElements rd n r1 = Inr (vs, rest) \<and> v = RArray vs"
      then show ?thesis using el [OF a] by auto
    qed
  qed
  show "good lv inp (readMap deeper inp)" unfolding good_def
  proof (intro allI impI)
    fix v rest assume "readMap deeper inp = Inr (v, rest)"
    then obtain rd n r1 vs where a: "deeper = Some rd" "readInt inp = Inr (n, r1)"
      "readElements rd (n * 2) r1 = Inr (vs, rest)" "v = RMap vs"
      by (auto simp: readMap_def rbind_Inr split: option.splits if_splits)
    have "even (length vs)" using el(2) [OF a(1-3)] by presburger
    then show "decoded_ok lv v \<and> eats inp rest" using el [OF a(1-3)] a(4) by auto
  qed
  have "good lv inp (readSetLike k deeper inp)" if "k = RSet \<or> k = RPush" for k unfolding good_def
  proof (intro allI impI)
    fix v rest assume "readSetLike k deeper inp = Inr (v, rest)"
    then obtain rd n r1 vs where a: "deeper = Some rd" "readInt inp = Inr (n, r1)"
      "readElements rd n r1 = Inr (vs, rest)" "v = k vs"
      by (auto simp: readSetLike_def rbind_Inr split: option.splits if_splits)
    show "decoded_ok lv v \<and> eats inp rest" using el [OF a(1-3)] a(4) that by auto
  qed
  then show "good lv inp (readSetLike RSet deeper inp)" and "good lv inp (readSetLike RPush deeper inp)" by blast+
qed

lemma readKind_spec:
  assumes "\<And>rd inp v rest. deeper = Some rd \<Longrightarrow> rd inp = Inr (v, rest) \<Longrightarrow> decoded_ok (lv - 1) v \<and> eats inp rest"
    and "deeper \<noteq> None \<longleftrightarrow> 0 < lv"
  shows "good lv inp (readKind F deeper prefix inp)"
proof -
  have "good lv inp (Inl ErrProtocol)" by (simp add: good_def)
  then show ?thesis
    unfolding readKind_def
    by (simp add: good_scalars good_bulk good_verbatim good_aggregates [OF assms])
qed

lemma readFrame_spec: "readFrame F lv inp = Inr (v, rest) \<Longrightarrow> decoded_ok lv v \<and> eats inp rest"
proof (induction lv arbitrary: inp v rest)
  case 0
  then obtain c r where "inp = c # r" "readKind F None c r = Inr (v, rest)"
    by (auto simp: rbind_Inr readByte_def split: list.splits)
  then show ?case using readKind_spec [of None 0 r F c] eats_Cons_trans by (auto simp: good_def)
next
  case (Suc lv)
  then obtain c r where a: "inp = c # r" "readKind F (Some (readFrame F lv)) c r = Inr (v, rest)"
    by (auto simp: rbind_Inr readByte_def split: list.splits)
  have "good (Suc lv) r (readKind F (Some (readFrame F lv)) c r)"
    by (rule readKind_spec) (use Suc.IH in auto)
  then have "decoded_ok (Suc lv) v \<and> eats r rest" using a(2) by (simp add: good_def)
  then show ?case using a(1) eats_Cons_trans by auto
qed

section \<open>Commands\<close>

lemma argvOf_bulks [simp]: "argvOf (map RBulk argv) = Some argv"
  by (induction argv) auto

lemma shape_ok_bulks:
  "0 < lv \<Longrightarrow> int (length argv) \<le> MaxArrayLen \<Longrightarrow> (\<forall>a \<in> set argv. int (length a) \<le> MaxBulkSize) \<Longrightarrow>
   shape_ok D lv (RArray (map RBulk argv))"
  by simp

definition command_ok :: "bytes list \<Rightarrow> bool" where
  "command_ok argv \<longleftrightarrow>
     argv \<noteq> [] \<and> int (length argv) \<le> MaxArrayLen \<and> (\<forall>a \<in> set argv. int (length a) \<le> MaxBulkSize)"

lemma downgrade_bulks [simp]: "map (downgrade F) (map RBulk argv) = map RBulk argv"
  by simp

lemma WriteFrame_command:
  assumes "command_ok argv"
  shows "snd (WriteFrame F (RArray (map RBulk argv)))"
    and "ReadCommand F (fst (WriteFrame F (RArray (map RBulk argv))) @ rest) = Inr (argv, rest)"
proof -
  have w: "wire_ok F MaxDepth (RArray (map RBulk argv))"
    using assms by (simp add: command_ok_def MaxDepth_def)
  have d: "downgrade F (RArray (map RBulk argv)) = RArray (map RBulk argv)" by simp
  have e: "WriteFrame F (RArray (map RBulk argv)) = WriteFrameProto F Proto3 (RArray (map RBulk argv))"
    unfolding WriteFrame_def write_downgrade(1) d ..
  note r = read_write(1) [OF refl w, of rest]
  show "snd (WriteFrame F (RArray (map RBulk argv)))" unfolding e using r by blast
  show "ReadCommand F (fst (WriteFrame F (RArray (map RBulk argv))) @ rest) = Inr (argv, rest)"
    unfolding e ReadCommand_def ReadFrame_def using r assms by (simp add: command_ok_def)
qed

lemma ReadCommand_spec:
  assumes "ReadCommand F inp = Inr (argv, rest)"
  shows "command_ok argv" and "eats inp rest"
proof -
  have "argvOf els = Some as \<Longrightarrow> els = map RBulk as" for els as
    by (induction els arbitrary: as rule: argvOf.induct) auto
  moreover obtain v r0 where v: "ReadFrame F inp = Inr (v, r0)" using assms by (auto simp: ReadCommand_def rbind_Inr)
  ultimately have r: "ReadFrame F inp = Inr (RArray (map RBulk argv), rest)" "argv \<noteq> []"
    using assms by (cases v; auto simp: ReadCommand_def split: if_splits option.splits)+
  then show "command_ok argv" and "eats inp rest"
    using readFrame_spec [of F MaxDepth inp] by (auto simp: ReadFrame_def command_ok_def)
qed

text \<open>Commands on a stream are self-delimiting records.\<close>

interpretation command_stream: record_codec "\<lambda>argv. fst (WriteFrame F (RArray (map RBulk argv)))" "ReadCommand F" command_ok for F
  by unfold_locales (rule WriteFrame_command(2), assumption, simp add: WriteFrame_def wthen_def)

section \<open>Properties\<close>

text \<open>
  Claim C3. Decoding inverts encoding at protocol 3: every value within the limits of the reader (line
  length, bulk size, element count, nesting depth, int64 range) is written without error and read back as
  itself, whatever follows it on the stream.
\<close>

theorem resp_roundtrip:
  assumes "wire_ok F MaxDepth v"
  shows "snd (WriteFrameProto F Proto3 v) \<and>
    ReadFrame F (fst (WriteFrameProto F Proto3 v) @ rest) = Inr (v, rest)"
  unfolding ReadFrame_def by (rule read_write(1) [OF refl assms])

definition demoFloat :: floatlib where
  "demoFloat = \<lparr>fl_format = (\<lambda>_. ''1.5''), fl_parse = (\<lambda>s. if s = ''1.5'' then Some 0x3FF8000000000000 else None)\<rparr>"

definition demoValue :: resp_value where
  "demoValue = RMap [RBulk ''k'', RArray [RInt (-7), RNull, RBoolean True], RString ''s'', RVerbatim ''txt'' ''body'',
     RBulk ''d'', RDouble 0x3FF8000000000000]"

lemma demoValue_ok: "wire_ok demoFloat MaxDepth demoValue" "wire_ok demoFloat MaxDepth (downgrade demoFloat demoValue)"
  by (simp_all add: demoValue_def demoFloat_def MaxDepth_def MaxArrayLen_def MaxBulkSize_def readerBufSize_def
      int64_def MinInt64_def MaxInt64_def double_ok_def formatDouble_def posInf_def negInf_def isNaN_def)

theorem resp_roundtrip_witness:
  "ReadFrame demoFloat (fst (WriteFrameProto demoFloat Proto3 demoValue) @ ''+x'') = Inr (demoValue, ''+x'')"
  using resp_roundtrip [OF demoValue_ok(1)] by blast

text \<open>
  A protocol-2 peer reads every reply as its RESP2 downgrade: maps, sets and pushes as arrays of
  the same elements, doubles as bulk strings, booleans as 1 and 0, null as the nil bulk.
\<close>

lemma resp2_downgrade:
  assumes "wire_ok F MaxDepth (downgrade F v)"
  shows "snd (WriteFrame F v) \<and> ReadFrame F (fst (WriteFrame F v) @ rest) = Inr (downgrade F v, rest)"
  unfolding ReadFrame_def WriteFrame_def write_downgrade(1) by (rule read_write(1) [OF refl assms])

text \<open>
  Claim C13. Whatever bytes arrive, a decoded frame is within the limits: bulk and verbatim bodies at most 64
  MiB, at most 1048576 elements per aggregate, at most 32 levels of nesting, integers in the int64 range;
  and the reader consumed a non-empty prefix of its input and nothing beyond the frame.
\<close>

theorem decoded_within_limits:
  assumes "ReadFrame F inp = Inr (v, rest)"
  shows "decoded_ok MaxDepth v \<and> (\<exists>pre. inp = pre @ rest \<and> pre \<noteq> [])"
  using readFrame_spec [of F MaxDepth inp v rest] assms by (auto simp: ReadFrame_def eats_def)

theorem decoded_within_limits_witness: "decoded_ok MaxDepth demoValue"
proof -
  have "ReadFrame demoFloat (fst (WriteFrameProto demoFloat Proto3 demoValue) @ []) = Inr (demoValue, [])"
    unfolding ReadFrame_def using read_write(1) [OF refl demoValue_ok(1)] by blast
  from decoded_within_limits [OF this] show ?thesis by blast
qed

text \<open>
  A stream of nested array headers is rejected: after 32 levels the next array header, of any
  announced length, is an error, so the recursion of the reader is bounded.
\<close>

lemma nesting_bomb_rejected:
  assumes "MaxDepth < n"
  shows "ReadFrame F (concat (replicate n (''*1'' @ CRLF)) @ rest) = Inl ErrTooLarge"
proof -
  have one: "readInt (''1'' @ CRLF @ inp) = Inr (1, inp)" for inp
    using readInt_len [of 1 inp] by (simp add: MaxBulkSize_def formatNat.simps digitChar_def)
  have "lv < m \<Longrightarrow> readFrame F lv (concat (replicate m (''*1'' @ CRLF)) @ rest) = Inl ErrTooLarge" for lv m
  proof (induction lv arbitrary: m)
    case 0
    then obtain k where "m = Suc k" by (cases m) auto
    then show ?case by (simp add: readByte_def readKind_def readArray_def)
  next
    case (Suc lv)
    then obtain k where "m = Suc k" "lv < k" by (cases m) auto
    then show ?case using Suc.IH [of k] one
      by (simp add: readByte_def readKind_def readArray_def readElements_def MaxArrayLen_def)
  qed
  then show ?thesis using assms by (simp add: ReadFrame_def)
qed

end
