(* ===== verification/Aof.thy ===== *)
theory Aof
  imports Resp "HOL-Library.Sublist"
begin

text \<open>
  The append-only file (\<^verbatim>\<open>internal/aof\<close>: \<^verbatim>\<open>format.go\<close>, \<^verbatim>\<open>writer.go\<close>, \<^verbatim>\<open>rewriter.go\<close>,
  \<^verbatim>\<open>replayer.go\<close>, \<^verbatim>\<open>errors.go\<close>). The data directory is a \<open>disk\<close>: inodes with the length known
  to be on stable storage and a mark that an fsync of it has failed, the directory entries of the log
  and of its temporary file, and the entry of the log that survives a power failure. Every system call takes its outcome
  from an environment \<open>io list\<close> (success when it is exhausted) and records the disk it
  leaves in a trace, so that a crash between any two calls is a disk of the trace. The
  operations of the writer run under its mutex and are single definitions.
\<close>

section \<open>Disk and system calls\<close>

record inode =
  in_data :: bytes
  in_synced :: nat
  in_lost :: bool

record disk =
  dk_files :: "inode list"
  dk_canon :: "nat option"
  dk_tmp :: "nat option"
  dk_dcanon :: "nat option"

text \<open>\<open>IoFail n\<close>: the call fails; a write has by then put \<open>n\<close> bytes into the file.\<close>

datatype io = IoOk | IoFail nat

record world =
  wd_disk :: disk
  wd_env :: "io list"
  wd_trace :: "disk list"

definition pullIo :: "world \<Rightarrow> io \<times> world" where
  "pullIo w = (case wd_env w of [] \<Rightarrow> (IoOk, w) | x # xs \<Rightarrow> (x, w\<lparr>wd_env := xs\<rparr>))"

definition setDisk :: "disk \<Rightarrow> world \<Rightarrow> world" where
  "setDisk d w = w\<lparr>wd_disk := d, wd_trace := wd_trace w @ [d]\<rparr>"

definition setFile :: "nat \<Rightarrow> inode \<Rightarrow> disk \<Rightarrow> disk" where
  "setFile i f d = d\<lparr>dk_files := (dk_files d)[i := f]\<rparr>"

definition ioWrite :: "nat \<Rightarrow> bytes \<Rightarrow> world \<Rightarrow> bool \<times> world" where
  "ioWrite i bs w0 =
     (let (r, w) = pullIo w0; d = wd_disk w; f = dk_files d ! i
      in case r of
           IoOk \<Rightarrow> (True, setDisk (setFile i (f\<lparr>in_data := in_data f @ bs\<rparr>) d) w)
         | IoFail n \<Rightarrow> (False, setDisk (setFile i (f\<lparr>in_data := in_data f @ take n bs\<rparr>) d) w))"

text \<open>
  After a failed fsync the system may have dropped the written pages and still report success for the next
  one: the file is marked, and no later fsync makes anything more of it durable.
\<close>

definition ioSync :: "nat \<Rightarrow> world \<Rightarrow> bool \<times> world" where
  "ioSync i w0 =
     (let (r, w) = pullIo w0; d = wd_disk w; f = dk_files d ! i
      in case r of
           IoOk \<Rightarrow> (True, setDisk (setFile i (f\<lparr>in_synced := (if in_lost f then in_synced f else length (in_data f))\<rparr>) d) w)
         | IoFail n \<Rightarrow> (False, setDisk (setFile i (f\<lparr>in_lost := True\<rparr>) d) w))"

text \<open>A call that leaves the disk as it is: opening an existing file, closing one, stat.\<close>

definition ioPlain :: "world \<Rightarrow> bool \<times> world" where
  "ioPlain w0 = (let (r, w) = pullIo w0 in (r = IoOk, w))"

definition ioCreateTmp :: "world \<Rightarrow> bool \<times> world" where
  "ioCreateTmp w0 =
     (let (r, w) = pullIo w0; d = wd_disk w; f = \<lparr>in_data = [], in_synced = 0, in_lost = False\<rparr>
      in case r of
           IoOk \<Rightarrow>
             (True,
              setDisk (case dk_tmp d of
                         Some i \<Rightarrow> setFile i f d
                       | None \<Rightarrow> d\<lparr>dk_files := dk_files d @ [f], dk_tmp := Some (length (dk_files d))\<rparr>) w)
         | IoFail n \<Rightarrow> (False, w))"

definition ioRemoveTmp :: "world \<Rightarrow> bool \<times> world" where
  "ioRemoveTmp w0 =
     (let (r, w) = pullIo w0
      in case r of
           IoOk \<Rightarrow> (True, setDisk ((wd_disk w)\<lparr>dk_tmp := None\<rparr>) w)
         | IoFail n \<Rightarrow> (False, w))"

definition ioRename :: "world \<Rightarrow> bool \<times> world" where
  "ioRename w0 =
     (let (r, w) = pullIo w0; d = wd_disk w
      in case r of
           IoOk \<Rightarrow> (True, setDisk (d\<lparr>dk_canon := dk_tmp d, dk_tmp := None\<rparr>) w)
         | IoFail n \<Rightarrow> (False, w))"

definition ioSyncDir :: "world \<Rightarrow> bool \<times> world" where
  "ioSyncDir w0 =
     (let (r, w) = pullIo w0; d = wd_disk w
      in case r of
           IoOk \<Rightarrow> (True, setDisk (d\<lparr>dk_dcanon := dk_canon d\<rparr>) w)
         | IoFail n \<Rightarrow> (False, w))"

text \<open>
  What may be found under the log's name after a power failure at disk \<open>d\<close>: the entry on stable storage or the
  current one, and of its file the synced bytes, followed by anything of at most the written length; nothing at all
  (\<^const>\<open>None\<close>) when no entry is on stable storage.
\<close>

definition survives :: "inode \<Rightarrow> bytes \<Rightarrow> bool" where
  "survives f c \<longleftrightarrow> length c \<le> length (in_data f) \<and> take (in_synced f) c = take (in_synced f) (in_data f)"

definition recoveries :: "disk \<Rightarrow> bytes option set" where
  "recoveries d =
     {Some c | c i. (dk_dcanon d = Some i \<or> dk_canon d = Some i) \<and> survives (dk_files d ! i) c} \<union>
     (if dk_dcanon d = None then {None} else {})"

section \<open>format.go\<close>

datatype aof_err = ErrBadHeader | ErrBadVersion | ErrIO | ErrState | ErrEmptyArgv

definition HeaderLen :: nat where "HeaderLen = 8"
definition Version1 :: char where "Version1 = CHR 0x01"
definition Version2 :: char where "Version2 = CHR 0x02"
definition Version3 :: char where "Version3 = CHR 0x03"
definition CurrentVersion :: char where "CurrentVersion = Version3"
definition supportedVersions :: "char list" where "supportedVersions = [Version1, Version2, Version3]"
definition Magic :: string where "Magic = ''TOYKV'' @ [CHR 0x00, CHR 0x00]"

definition headerBytes :: bytes where
  "headerBytes = Magic @ [CurrentVersion]"

definition aofWriteHeader :: "nat \<Rightarrow> world \<Rightarrow> bool \<times> world" where
  "aofWriteHeader i w = ioWrite i headerBytes w"

definition readHeader :: "bytes \<Rightarrow> aof_err + char \<times> bytes" where
  "readHeader inp =
     (if length inp < HeaderLen then Inl ErrBadHeader
      else let buf = take HeaderLen inp; version = buf ! (HeaderLen - 1)
           in if take (length Magic) buf \<noteq> Magic then Inl ErrBadHeader
              else if version \<in> set supportedVersions then Inr (version, drop HeaderLen inp)
              else Inl ErrBadVersion)"

text \<open>The write handle of upgradeHeader is opened, written at the version byte and synced.\<close>

definition upgradeHeader :: "nat \<Rightarrow> world \<Rightarrow> bool \<times> world" where
  "upgradeHeader i w0 =
     (let (ok1, w1) = ioPlain w0
      in if \<not> ok1 then (False, w1)
         else let (r, w2) = pullIo w1; d = wd_disk w2; f = dk_files d ! i
              in case r of
                   IoFail n \<Rightarrow> (False, w2)
                 | IoOk \<Rightarrow>
                     ioSync i (setDisk (setFile i (f\<lparr>in_data := (in_data f)[HeaderLen - 1 := CurrentVersion]\<rparr>) d) w2))"

section \<open>writer.go\<close>

datatype fsyncPolicy = FsyncAlways | FsyncEverysec | FsyncNever

primrec FsyncPolicy_String :: "fsyncPolicy \<Rightarrow> string" where
  "FsyncPolicy_String FsyncAlways = ''always''"
| "FsyncPolicy_String FsyncEverysec = ''everysec''"
| "FsyncPolicy_String FsyncNever = ''no''"

definition ParsePolicy :: "string \<Rightarrow> fsyncPolicy option" where
  "ParsePolicy s =
     (if s = ''always'' then Some FsyncAlways
      else if s = ''everysec'' then Some FsyncEverysec
      else if s = ''no'' then Some FsyncNever
      else None)"

text \<open>
  The writer. \<open>aw_f\<close> is the inode behind the open descriptor (\<open>None\<close>: closed by a failed
  swap); \<open>aw_bufErr\<close> is the sticky error of the bufio.Writer, after which every write and
  flush on it fails. Between operations its buffer is empty unless that error is set.
\<close>

record aofWriter =
  aw_f :: "nat option"
  aw_bufErr :: bool
  aw_policy :: fsyncPolicy
  aw_dirty :: bool
  aw_sideBuf :: "bytes option"

definition newWriter :: "nat \<Rightarrow> fsyncPolicy \<Rightarrow> aofWriter" where
  "newWriter i policy =
     \<lparr>aw_f = Some i, aw_bufErr = False, aw_policy = policy, aw_dirty = False, aw_sideBuf = None\<rparr>"

text \<open>Open: remove a stale temporary file, create or open the log, write or check its header.
  MkdirAll, the stat and the check's own handle are plain calls.\<close>

definition aofOpenFile :: "world \<Rightarrow> (nat \<times> bool) option \<times> world" where
  "aofOpenFile w0 =
     (let (r, w) = pullIo w0; d = wd_disk w
      in case r of
           IoFail n \<Rightarrow> (None, w)
         | IoOk \<Rightarrow>
             (case dk_canon d of
                Some i \<Rightarrow> (Some (i, in_data (dk_files d ! i) = []), w)
              | None \<Rightarrow>
                  (Some (length (dk_files d), True),
                   setDisk (d\<lparr>dk_files := dk_files d @ [\<lparr>in_data = [], in_synced = 0, in_lost = False\<rparr>],
                              dk_canon := Some (length (dk_files d))\<rparr>) w)))"

definition aofOpenHeader :: "nat \<Rightarrow> bool \<Rightarrow> world \<Rightarrow> aof_err option \<times> world" where
  "aofOpenHeader i fresh w0 =
     (if fresh
      then (let (ok1, w1) = aofWriteHeader i w0
            in if \<not> ok1 then (Some ErrIO, w1)
               else let (ok2, w2) = ioSync i w1 in (if ok2 then None else Some ErrIO, w2))
      else (let (ok1, w1) = ioPlain w0
            in if \<not> ok1 then (Some ErrIO, w1)
               else case readHeader (in_data (dk_files (wd_disk w1) ! i)) of
                      Inl e \<Rightarrow> (Some e, w1)
                    | Inr (ver, _) \<Rightarrow>
                        if (of_char ver :: nat) < of_char CurrentVersion
                        then (let (ok2, w2) = upgradeHeader i w1 in (if ok2 then None else Some ErrIO, w2))
                        else (None, w1)))"

definition aofOpen :: "fsyncPolicy \<Rightarrow> world \<Rightarrow> (aof_err + aofWriter) \<times> world" where
  "aofOpen policy w0 =
     (let (ok1, w1) = ioPlain w0
      in if \<not> ok1 then (Inl ErrIO, w1)
         else let (ok2, w2) = ioRemoveTmp w1
              in if \<not> ok2 then (Inl ErrIO, w2)
                 else case aofOpenFile w2 of
                        (None, w3) \<Rightarrow> (Inl ErrIO, w3)
                      | (Some (i, fresh), w3) \<Rightarrow>
                          (let (ok4, w4) = ioPlain w3
                           in if \<not> ok4 then (Inl ErrIO, w4)
                              else case aofOpenHeader i fresh w4 of
                                     (Some e, w5) \<Rightarrow> (Inl e, w5)
                                   | (None, w5) \<Rightarrow> (Inr (newWriter i policy), w5)))"

text \<open>The record of a command. It holds no double, so the float conversions do not matter.\<close>

definition noFloat :: floatlib where
  "noFloat = \<lparr>fl_format = (\<lambda>_. []), fl_parse = (\<lambda>_. None)\<rparr>"

definition respRecord :: "bytes list \<Rightarrow> bytes" where
  "respRecord argv = fst (WriteFrame noFloat (RArray (map RBulk argv)))"

definition bufioSize :: nat where "bufioSize = 4096"

text \<open>
  Append. Writing the record and flushing are one write call of the model; when it fails,
  the sticky error is set. The mirror into the side buffer comes between the buffered write
  and the flush: a record that fits the buffer is mirrored even when the flush then fails.
\<close>

definition aofFlush :: "bytes \<Rightarrow> aofWriter \<Rightarrow> world \<Rightarrow> bool \<times> aofWriter \<times> world" where
  "aofFlush bs aw w =
     (if aw_bufErr aw then (False, aw, w)
      else case aw_f aw of
             None \<Rightarrow> (bs = [], aw\<lparr>aw_bufErr := (bs \<noteq> [])\<rparr>, w)
           | Some i \<Rightarrow>
               if bs = [] then (True, aw, w)
               else (let (ok, w') = ioWrite i bs w in (ok, aw\<lparr>aw_bufErr := \<not> ok\<rparr>, w')))"

definition aofMirror :: "bytes \<Rightarrow> bool \<Rightarrow> aofWriter \<Rightarrow> aofWriter" where
  "aofMirror bs written aw =
     (case aw_sideBuf aw of
        None \<Rightarrow> aw
      | Some sb \<Rightarrow> if written then aw\<lparr>aw_sideBuf := Some (sb @ bs)\<rparr> else aw)"

definition aofAppend :: "bytes list \<Rightarrow> aofWriter \<Rightarrow> world \<Rightarrow> (aof_err option \<times> aofWriter) \<times> world" where
  "aofAppend argv aw w =
     (if argv = [] then ((Some ErrEmptyArgv, aw), w)
      else let bs = respRecord argv;
               (ok, aw1, w1) = aofFlush bs aw w;
               aw2 = aofMirror bs (ok \<or> (\<not> aw_bufErr aw \<and> length bs \<le> bufioSize)) aw1
           in if \<not> ok then ((Some ErrIO, aw2), w1)
              else (case aw_policy aw2 of
                      FsyncAlways \<Rightarrow>
                        (let (ok2, w2) = ioSync (the (aw_f aw2)) w1
                         in if ok2 then ((None, aw2\<lparr>aw_dirty := False\<rparr>), w2)
                            else ((Some ErrIO, aw2\<lparr>aw_dirty := True\<rparr>), w2))
                    | _ \<Rightarrow> ((None, aw2\<lparr>aw_dirty := True\<rparr>), w1)))"

fun decLoop :: "nat \<Rightarrow> nat \<Rightarrow> nat" where
  "decLoop n d = (if n > 0 then decLoop (n div 10) (d + 1) else d)"

declare decLoop.simps [simp del]

definition decDigits :: "nat \<Rightarrow> nat" where
  "decDigits n = (if n = 0 then 1 else decLoop n 0)"

definition respRecordLen :: "bytes list \<Rightarrow> nat" where
  "respRecordLen argv =
     foldl (\<lambda>n a. n + (1 + decDigits (length a) + 2 + length a + 2)) (1 + decDigits (length argv) + 2) argv"

text \<open>Close: flush, sync, close; the first error wins but every step runs.\<close>

definition aofClose :: "aofWriter \<Rightarrow> world \<Rightarrow> bool \<times> aofWriter \<times> world" where
  "aofClose aw w =
     (let (ok1, aw1, w1) = aofFlush [] aw w;
          (ok2, w2) = (case aw_f aw1 of None \<Rightarrow> (False, w1) | Some i \<Rightarrow> ioSync i w1);
          (ok3, w3) = (case aw_f aw1 of None \<Rightarrow> (False, w2) | Some i \<Rightarrow> ioPlain w2)
      in (ok1 \<and> ok2 \<and> ok3, aw1\<lparr>aw_f := None\<rparr>, w3))"

definition BeginRewrite :: "aofWriter \<Rightarrow> aof_err option \<times> aofWriter" where
  "BeginRewrite aw =
     (case aw_sideBuf aw of
        Some _ \<Rightarrow> (Some ErrState, aw)
      | None \<Rightarrow> (None, aw\<lparr>aw_sideBuf := Some []\<rparr>))"

definition AbortRewrite :: "aofWriter \<Rightarrow> aofWriter" where
  "AbortRewrite aw = aw\<lparr>aw_sideBuf := None\<rparr>"

definition swapTo :: "aofWriter \<Rightarrow> world \<Rightarrow> bool \<times> aofWriter \<times> world" where
  "swapTo aw w0 =
     (let (ok1, w1) = (case aw_f aw of None \<Rightarrow> (False, w0) | Some _ \<Rightarrow> ioPlain w0)
      in if \<not> ok1 then (False, aw\<lparr>aw_f := None\<rparr>, w1)
         else let (ok2, w2) = ioPlain w1
              in case (if ok2 then dk_canon (wd_disk w2) else None) of
                   Some j \<Rightarrow> (True, aw\<lparr>aw_f := Some j, aw_bufErr := False, aw_dirty := False\<rparr>, w2)
                 | None \<Rightarrow> (False, aw\<lparr>aw_f := None\<rparr>, w2))"

text \<open>Step 1 of FinalizeRewrite: the side buffer goes into the temporary file, which is synced.\<close>

definition foldSideBuf :: "bytes \<Rightarrow> world \<Rightarrow> bool \<times> world" where
  "foldSideBuf sb w0 =
     (let (ok1, w1) = ioPlain w0
      in case (if ok1 then dk_tmp (wd_disk w1) else None) of
           Some t \<Rightarrow>
             (let (ok2, w2) = (if sb = [] then (True, w1) else ioWrite t sb w1)
              in if \<not> ok2 then (False, snd (ioPlain w2))
                 else let (ok3, w3) = ioSync t w2
                      in if \<not> ok3 then (False, snd (ioPlain w3)) else ioPlain w3)
         | None \<Rightarrow> (False, w1))"

definition FinalizeRewrite :: "aofWriter \<Rightarrow> world \<Rightarrow> (aof_err option \<times> aofWriter) \<times> world" where
  "FinalizeRewrite aw0 w0 =
     (case aw_sideBuf aw0 of
        None \<Rightarrow> ((Some ErrState, aw0), w0)
      | Some sb \<Rightarrow>
          (let (ok1, aw, w1) = aofFlush [] aw0 w0; done = AbortRewrite aw
           in if \<not> ok1 then ((Some ErrIO, done), w1)
              else let (ok2, w2) = foldSideBuf sb w1
                   in if \<not> ok2 then ((Some ErrIO, done), w2)
                      else let (ok3, w3) = ioRename w2
                           in if \<not> ok3 then ((Some ErrIO, done), w3)
                              else let (ok4, w4) = ioSyncDir w3; (ok5, aw5, w5) = swapTo done w4
                                   in ((if ok4 \<and> ok5 then None else Some ErrIO, aw5), w5)))"

text \<open>One tick of the everysec goroutine: the result of the sync is ignored.\<close>

definition everysecTick :: "aofWriter \<Rightarrow> world \<Rightarrow> aofWriter \<times> world" where
  "everysecTick aw w =
     (if aw_dirty aw
      then (aw\<lparr>aw_dirty := False\<rparr>, case aw_f aw of None \<Rightarrow> w | Some i \<Rightarrow> snd (ioSync i w))
      else (aw, w))"

section \<open>rewriter.go\<close>

definition writeSnapshot :: "bytes list list \<Rightarrow> world \<Rightarrow> bool \<times> world" where
  "writeSnapshot cmds w0 =
     (let (ok1, w1) = ioCreateTmp w0
      in if \<not> ok1 then (False, w1)
         else let t = the (dk_tmp (wd_disk w1)); (ok2, w2) = aofWriteHeader t w1
              in if \<not> ok2 \<or> [] \<in> set cmds then (False, snd (ioPlain w2))
                 else let (ok3, w3) = (if cmds = [] then (True, w2) else ioWrite t (concat (map respRecord cmds)) w2)
                      in if \<not> ok3 then (False, snd (ioPlain w3))
                         else let (ok4, w4) = ioSync t w3
                              in if \<not> ok4 then (False, snd (ioPlain w4)) else ioPlain w4)"

text \<open>The tail of Rewrite, after BeginRewrite and writeSnapshot; \<open>cancelled\<close> is \<^verbatim>\<open>ctx.Err() != nil\<close>.\<close>

definition rewriteFinish ::
  "bool \<Rightarrow> bool \<Rightarrow> aofWriter \<Rightarrow> world \<Rightarrow> (aof_err option \<times> aofWriter) \<times> world" where
  "rewriteFinish wrote cancelled aw w =
     (if \<not> wrote \<or> cancelled then ((Some ErrIO, AbortRewrite aw), snd (ioRemoveTmp w))
      else case FinalizeRewrite aw w of
             ((None, aw'), w') \<Rightarrow> ((None, aw'), w')
           | ((Some e, aw'), w') \<Rightarrow> ((Some e, aw'), snd (ioRemoveTmp w')))"

section \<open>replayer.go\<close>

datatype 'e replay_err = ReplayHeader aof_err | ReplayRead resp_err | ReplayApply 'e

function replayLoop ::
  "floatlib \<Rightarrow> (bytes list \<Rightarrow> 's \<Rightarrow> 'e option \<times> 's) \<Rightarrow> bytes \<Rightarrow> nat \<Rightarrow> 's \<Rightarrow> 'e replay_err option \<times> nat \<times> 's" where
  "replayLoop F apply_cmd inp n st =
     (case ReadCommand F inp of
        Inl EOF \<Rightarrow> (None, n, st)
      | Inl e \<Rightarrow> (Some (ReplayRead e), n, st)
      | Inr (argv, rest) \<Rightarrow>
          (case apply_cmd argv st of
             (Some e, st') \<Rightarrow> (Some (ReplayApply e), n, st')
           | (None, st') \<Rightarrow> replayLoop F apply_cmd rest (n + 1) st'))"
  by pat_completeness auto

lemma eats_shorter: "eats inp rest \<Longrightarrow> length rest < length inp"
  by (auto simp: eats_def)

termination replayLoop
  by (relation "measure (\<lambda>(F, a, inp, n, st). length inp)")
     (auto dest!: ReadCommand_spec(2) eats_shorter)

declare replayLoop.simps [simp del]

text \<open>\<open>None\<close> as the content: the file does not exist. Open and read failures are not modelled here.\<close>

definition Replay ::
  "floatlib \<Rightarrow> (bytes list \<Rightarrow> 's \<Rightarrow> 'e option \<times> 's) \<Rightarrow> bytes option \<Rightarrow> 's \<Rightarrow> 'e replay_err option \<times> nat \<times> 's" where
  "Replay F apply_cmd content st =
     (case content of
        None \<Rightarrow> (None, 0, st)
      | Some inp \<Rightarrow>
          (case readHeader inp of
             Inl e \<Rightarrow> (Some (ReplayHeader e), 0, st)
           | Inr (_, body) \<Rightarrow> replayLoop F apply_cmd body 0 st))"

section \<open>Records\<close>

definition bulkBytes :: "bytes \<Rightarrow> bytes" where
  "bulkBytes a = ''$'' @ formatNat (length a) @ CRLF @ a @ CRLF"

lemma writeElems_bulks: "writeElems F p (map RBulk argv) = (concat (map bulkBytes argv), True)"
  by (induction argv) (simp_all add: wok_def wthen_def writeBulkBytes_def bulkBytes_def)

lemma WriteFrame_bulks:
  "WriteFrame F (RArray (map RBulk argv)) = (''*'' @ formatNat (length argv) @ CRLF @ concat (map bulkBytes argv), True)"
  by (simp add: WriteFrame_def writeElems_bulks wthen_def)

lemma respRecord_eq: "respRecord argv = ''*'' @ formatNat (length argv) @ CRLF @ concat (map bulkBytes argv)"
  by (simp add: respRecord_def WriteFrame_bulks)

lemma ReadCommand_record: "command_ok argv \<Longrightarrow> ReadCommand F (respRecord argv @ rest) = Inr (argv, rest)"
  using WriteFrame_command(2) [of argv F rest] by (simp add: respRecord_eq WriteFrame_bulks)

lemma respRecord_ne [simp]: "respRecord argv \<noteq> []"
  by (simp add: respRecord_eq)

lemma decLoop_eq: "0 < n \<Longrightarrow> decLoop n d = d + length (formatNat n)"
proof (induction n arbitrary: d rule: less_induct)
  case (less n)
  show ?case
  proof (cases "n < 10")
    case True
    then show ?thesis using less.prems by (simp add: decLoop.simps [of n] decLoop.simps [of 0] formatNat.simps [of n])
  next
    case False
    then have "n div 10 < n" "0 < n div 10" by simp_all
    from less.IH [OF this, of "d + 1"] show ?thesis
      using less.prems False by (simp add: decLoop.simps [of n] formatNat.simps [of n])
  qed
qed

lemma decDigits_eq: "decDigits n = length (formatNat n)"
  using decLoop_eq [of n 0] by (simp add: decDigits_def formatNat.simps [of 0])

section \<open>Header and replay\<close>

lemma headerBytes_len: "length headerBytes = HeaderLen"
  by (simp add: headerBytes_def Magic_def HeaderLen_def)

lemma readHeader_fresh: "readHeader (headerBytes @ body) = Inr (CurrentVersion, body)"
  by (simp add: readHeader_def headerBytes_def Magic_def HeaderLen_def CurrentVersion_def supportedVersions_def)

text \<open>Applying a list of commands until the first error.\<close>

fun applyAll :: "(bytes list \<Rightarrow> 's \<Rightarrow> 'e option \<times> 's) \<Rightarrow> bytes list list \<Rightarrow> 's \<Rightarrow> 'e option \<times> nat \<times> 's" where
  "applyAll ap [] st = (None, 0, st)"
| "applyAll ap (c # cs) st =
     (case ap c st of
        (Some e, st') \<Rightarrow> (Some e, 0, st')
      | (None, st') \<Rightarrow> (let (r, n, st'') = applyAll ap cs st' in (r, n + 1, st'')))"

lemma replayLoop_records:
  "(\<forall>c \<in> set cmds. command_ok c) \<Longrightarrow>
   replayLoop F ap (concat (map respRecord cmds) @ tail) n st =
     (case applyAll ap cmds st of
        (Some e, k, st') \<Rightarrow> (Some (ReplayApply e), n + k, st')
      | (None, k, st') \<Rightarrow> replayLoop F ap tail (n + k) st')"
proof (induction cmds arbitrary: n st)
  case (Cons c cmds)
  have "ReadCommand F (concat (map respRecord (c # cmds)) @ tail) = Inr (c, concat (map respRecord cmds) @ tail)"
    using ReadCommand_record [of c] Cons.prems by simp
  then show ?case
    using Cons by (subst replayLoop.simps) (simp add: case_prod_beta Let_def split: option.splits prod.splits)
qed simp

lemma replayLoop_Nil: "replayLoop F ap [] n st = (None, n, st)"
  by (simp add: replayLoop.simps ReadCommand_def ReadFrame_def MaxDepth_def readByte_def numeral_eq_Suc)

text \<open>A record cut at the start, inside a length line or between two elements reads as end of file.\<close>

lemma readN_cut:
  assumes rd: "\<And>a rest. a \<in> set as \<Longrightarrow> rd (bulkBytes a @ rest) = Inr (RBulk a, rest)" and eof: "rd [] = Inl EOF"
    and n: "length as < n"
  shows "readN rd n (concat (map bulkBytes as)) = Inl EOF"
  using assms(1,3)
proof (induction as arbitrary: n)
  case Nil
  then show ?case using eof by (cases n) simp_all
next
  case (Cons a as)
  then show ?case by (cases n) simp_all
qed

lemma readFrame_bulk:
  assumes "int (length a) \<le> MaxBulkSize"
  shows "readFrame F lv (bulkBytes a @ rest) = Inr (RBulk a, rest)"
  using read_write(1) [of Proto3 F lv "RBulk a" rest] assms by (simp add: bulkBytes_def writeBulkBytes_def)

lemma readFrame_Nil: "readFrame F lv [] = Inl EOF"
  by (cases lv) (simp_all add: readByte_def)

lemma ReadCommand_cut:
  assumes ok: "command_ok argv" and i: "i < length argv"
  shows "ReadCommand F (''*'' @ formatNat (length argv) @ CRLF @ concat (map bulkBytes (take i argv))) = Inl EOF"
proof -
  have sz: "\<forall>a \<in> set (take i argv). int (length a) \<le> MaxBulkSize"
    using ok set_take_subset [of i argv] by (auto simp: command_ok_def)
  have c: "readN (readFrame F lv) (length argv) (concat (map bulkBytes (take i argv))) = Inl EOF" for lv
    by (rule readN_cut) (use sz readFrame_bulk readFrame_Nil i in auto)
  have len: "int (length argv) \<le> MaxArrayLen" using ok by (simp add: command_ok_def)
  have f: "readFrame F (Suc lv) (CHR ''*'' # formatNat (length argv) @ CRLF @ concat (map bulkBytes (take i argv))) = Inl EOF" for lv
    using c [of lv] len by (simp add: readByte_def readKind_def readArray_def readInt_len MaxArrayLen_le readElements_ok)
  have "MaxDepth = Suc 31" by (simp add: MaxDepth_def)
  then show ?thesis using f [of 31] by (simp only: ReadCommand_def ReadFrame_def) simp
qed

section \<open>Crash states\<close>

lemma files_setFile [simp]:
  "i < length (dk_files d) \<Longrightarrow> dk_files (setFile i f d) ! j = (if j = i then f else dk_files d ! j)"
  "length (dk_files (setFile i f d)) = length (dk_files d)"
  "dk_canon (setFile i f d) = dk_canon d" "dk_dcanon (setFile i f d) = dk_dcanon d" "dk_tmp (setFile i f d) = dk_tmp d"
  by (simp_all add: setFile_def nth_list_update)

lemma setDisk_sel [simp]:
  "wd_disk (setDisk d w) = d" "wd_trace (setDisk d w) = wd_trace w @ [d]" "wd_env (setDisk d w) = wd_env w"
  by (simp_all add: setDisk_def)

lemma pullIo_sel [simp]: "wd_disk (snd (pullIo w)) = wd_disk w" "wd_trace (snd (pullIo w)) = wd_trace w"
  by (simp_all add: pullIo_def split: list.splits)

lemma pullIo_ok [simp]: "wd_env w = [] \<Longrightarrow> pullIo w = (IoOk, w)"
  by (simp add: pullIo_def)

text \<open>\<open>extends w w' P\<close>: every disk reached between \<open>w\<close> and \<open>w'\<close>, the last one included, satisfies \<open>P\<close>.\<close>

definition extends :: "(disk \<Rightarrow> bool) \<Rightarrow> world \<Rightarrow> world \<Rightarrow> bool" where
  "extends P w w' \<longleftrightarrow> (\<exists>ds. wd_trace w' = wd_trace w @ ds \<and> (\<forall>d \<in> set ds. P d)) \<and> P (wd_disk w')"

lemma extends_refl: "P (wd_disk w) \<Longrightarrow> extends P w w"
  by (simp add: extends_def)

lemma extends_trans: "extends P w w1 \<Longrightarrow> extends P w1 w2 \<Longrightarrow> extends P w w2"
  by (fastforce simp: extends_def)

lemma extends_mono: "extends P w w' \<Longrightarrow> (\<And>d. P d \<Longrightarrow> Q d) \<Longrightarrow> extends Q w w'"
  by (fastforce simp: extends_def)

lemma extends_plain: "P (wd_disk w) \<Longrightarrow> extends P w (snd (ioPlain w))"
  by (simp add: extends_def ioPlain_def case_prod_beta Let_def)

lemma extends_setDisk: "P d \<Longrightarrow> wd_trace w' = wd_trace w \<Longrightarrow> extends P w (setDisk d w')"
  by (simp add: extends_def)

lemma survives_self: "survives f (in_data f)"
  by (simp add: survives_def)

lemma survives_synced: "length (in_data f) \<le> in_synced f \<Longrightarrow> survives f c \<longleftrightarrow> c = in_data f"
  by (auto simp: survives_def)

lemma survives_prefix:
  assumes "survives f c" and "in_data f = p @ q" and "length p \<le> in_synced f"
  shows "\<exists>r. c = p @ r"
proof -
  have "take (length p) c = take (length p) (take (in_synced f) c)" using assms(3) by (simp add: min_def)
  also have "\<dots> = p" using assms by (simp add: survives_def min_def)
  finally show ?thesis by (metis append_take_drop_id)
qed

lemma recoveries_ne: "dk_canon d = Some j \<Longrightarrow> recoveries d \<noteq> {}"
  unfolding recoveries_def using survives_self by blast

lemma recoveries_setFile [simp]:
  "t < length (dk_files d) \<Longrightarrow> dk_canon d \<noteq> Some t \<Longrightarrow> dk_dcanon d \<noteq> Some t \<Longrightarrow> recoveries (setFile t f d) = recoveries d"
  by (auto simp: recoveries_def)

text \<open>
  The disk seen by the rewrite: a temporary file \<open>t\<close> beside the log, of which a power failure leaves one of \<open>R\<close>; and, more
  special, a log \<open>old\<close> that is synced together with its directory entry.
\<close>

definition beside :: "nat \<Rightarrow> bytes option set \<Rightarrow> disk \<Rightarrow> bool" where
  "beside t R d \<longleftrightarrow>
     dk_tmp d = Some t \<and> t < length (dk_files d) \<and> dk_canon d \<noteq> None \<and> dk_canon d \<noteq> Some t \<and> dk_dcanon d \<noteq> Some t \<and> recoveries d = R"

definition stable_log :: "nat \<Rightarrow> bytes \<Rightarrow> disk \<Rightarrow> bool" where
  "stable_log i old d \<longleftrightarrow>
     dk_canon d = Some i \<and> dk_dcanon d = Some i \<and> in_data (dk_files d ! i) = old \<and> length old \<le> in_synced (dk_files d ! i)"

lemma recoveries_stable: "stable_log i old d \<Longrightarrow> recoveries d = {Some old}"
  by (auto simp: stable_log_def recoveries_def survives_synced)

lemma write_tmp:
  assumes "beside t R (wd_disk w)"
  shows "extends (beside t R) w (snd (ioWrite t bs w))"
    and "fst (ioWrite t bs w) \<Longrightarrow>
      in_data (dk_files (wd_disk (snd (ioWrite t bs w))) ! t) = in_data (dk_files (wd_disk w) ! t) @ bs"
    and "in_lost (dk_files (wd_disk (snd (ioWrite t bs w))) ! t) = in_lost (dk_files (wd_disk w) ! t)"
  using assms
  by (auto simp: ioWrite_def case_prod_beta Let_def beside_def split: io.splits intro!: extends_setDisk)

lemma sync_tmp:
  assumes "beside t R (wd_disk w)"
  shows "extends (beside t R) w (snd (ioSync t w))"
    and "fst (ioSync t w) \<Longrightarrow> \<not> in_lost (dk_files (wd_disk w) ! t) \<Longrightarrow>
      in_data (dk_files (wd_disk (snd (ioSync t w))) ! t) = in_data (dk_files (wd_disk w) ! t) \<and>
      in_synced (dk_files (wd_disk (snd (ioSync t w))) ! t) = length (in_data (dk_files (wd_disk w) ! t))"
proof -
  show "extends (beside t R) w (snd (ioSync t w))"
    using assms by (auto simp: ioSync_def case_prod_beta Let_def beside_def extends_def split: io.splits)
  show "fst (ioSync t w) \<Longrightarrow> \<not> in_lost (dk_files (wd_disk w) ! t) \<Longrightarrow>
      in_data (dk_files (wd_disk (snd (ioSync t w))) ! t) = in_data (dk_files (wd_disk w) ! t) \<and>
      in_synced (dk_files (wd_disk (snd (ioSync t w))) ! t) = length (in_data (dk_files (wd_disk w) ! t))"
    using assms by (auto simp: ioSync_def case_prod_beta Let_def beside_def split: io.splits)
qed

lemma extends_last: "extends P w w' \<Longrightarrow> P (wd_disk w')"
  by (simp add: extends_def)

lemma plain_disk [simp]: "wd_disk (snd (ioPlain w)) = wd_disk w"
  by (simp add: ioPlain_def case_prod_beta Let_def)

lemma foldSideBuf_spec:
  assumes "beside t R (wd_disk w)"
  shows "extends (beside t R) w (snd (foldSideBuf sb w))"
    and "fst (foldSideBuf sb w) \<Longrightarrow> \<not> in_lost (dk_files (wd_disk w) ! t) \<Longrightarrow>
      in_data (dk_files (wd_disk (snd (foldSideBuf sb w))) ! t) = in_data (dk_files (wd_disk w) ! t) @ sb \<and>
      in_synced (dk_files (wd_disk (snd (foldSideBuf sb w))) ! t) = length (in_data (dk_files (wd_disk w) ! t) @ sb)"
proof -
  define w1 where "w1 = snd (ioPlain w)"
  define p2 where "p2 = (if sb = [] then (True, w1) else ioWrite t sb w1)"
  define w3 where "w3 = snd (ioSync t (snd p2))"
  have e1: "extends (beside t R) w w1" unfolding w1_def by (rule extends_plain [of "beside t R", OF assms])
  have t: "dk_tmp (wd_disk w1) = Some t" using extends_last [OF e1] by (simp add: beside_def)
  have e2: "extends (beside t R) w1 (snd p2)"
    using write_tmp(1) [OF extends_last [OF e1]] extends_refl [of "beside t R", OF extends_last [OF e1]] by (simp add: p2_def)
  have d2: "fst p2 \<Longrightarrow> in_data (dk_files (wd_disk (snd p2)) ! t) = in_data (dk_files (wd_disk w) ! t) @ sb"
    using write_tmp(2) [OF extends_last [OF e1], of sb] by (auto simp: p2_def w1_def split: if_splits)
  have l2: "in_lost (dk_files (wd_disk (snd p2)) ! t) = in_lost (dk_files (wd_disk w) ! t)"
    using write_tmp(3) [OF extends_last [OF e1], of sb] by (simp add: p2_def w1_def)
  have e3: "extends (beside t R) (snd p2) w3"
    unfolding w3_def by (rule sync_tmp(1) [OF extends_last [OF e2]])
  have eq: "foldSideBuf sb w =
      (if \<not> fst (ioPlain w) then (False, w1)
       else if \<not> fst p2 then (False, snd (ioPlain (snd p2)))
       else if \<not> fst (ioSync t (snd p2)) then (False, snd (ioPlain w3)) else ioPlain w3)"
    using t by (simp add: foldSideBuf_def w1_def p2_def w3_def case_prod_beta Let_def)
  have pl: "extends (beside t R) v (snd (ioPlain v))" if "beside t R (wd_disk v)" for v
    by (rule extends_plain [of "beside t R", OF that])
  have c: "extends (beside t R) w (snd (ioPlain (snd p2)))" "extends (beside t R) w (snd (ioPlain w3))"
    using extends_trans [OF e1 e2] extends_trans [OF extends_trans [OF e1 e2] e3]
      pl [OF extends_last [OF e2]] pl [OF extends_last [OF e3]] extends_trans by blast+
  show "extends (beside t R) w (snd (foldSideBuf sb w))" unfolding eq using e1 c by simp
  show "fst (foldSideBuf sb w) \<Longrightarrow> \<not> in_lost (dk_files (wd_disk w) ! t) \<Longrightarrow>
      in_data (dk_files (wd_disk (snd (foldSideBuf sb w))) ! t) = in_data (dk_files (wd_disk w) ! t) @ sb \<and>
      in_synced (dk_files (wd_disk (snd (foldSideBuf sb w))) ! t) = length (in_data (dk_files (wd_disk w) ! t) @ sb)"
    unfolding eq using d2 l2 sync_tmp(2) [OF extends_last [OF e2]] by (auto simp: w3_def split: if_splits)
qed

text \<open>After the rename the current entry leads to a complete file.\<close>

definition either_log :: "bytes option set \<Rightarrow> bytes \<Rightarrow> disk \<Rightarrow> bool" where
  "either_log R new d \<longleftrightarrow> recoveries d \<noteq> {} \<and> recoveries d \<subseteq> R \<union> {Some new}"

lemma either_beside: "beside t R d \<Longrightarrow> either_log R new d"
  using recoveries_ne by (auto simp: beside_def either_log_def)

lemma either_renamed:
  assumes "beside t R d" and "in_data (dk_files d ! t) = new" and "length new \<le> in_synced (dk_files d ! t)"
  shows "either_log R new (d\<lparr>dk_canon := Some t, dk_tmp := None\<rparr>)"
    and "either_log R new (d\<lparr>dk_canon := Some t, dk_tmp := None, dk_dcanon := Some t\<rparr>)"
proof -
  show "either_log R new (d\<lparr>dk_canon := Some t, dk_tmp := None\<rparr>)"
    unfolding either_log_def using recoveries_ne [of "d\<lparr>dk_canon := Some t, dk_tmp := None\<rparr>" t] assms
    by (auto simp: beside_def recoveries_def survives_synced)
  show "either_log R new (d\<lparr>dk_canon := Some t, dk_tmp := None, dk_dcanon := Some t\<rparr>)"
    unfolding either_log_def
    using recoveries_ne [of "d\<lparr>dk_canon := Some t, dk_tmp := None, dk_dcanon := Some t\<rparr>" t] assms
    by (auto simp: beside_def recoveries_def survives_synced)
qed

lemma swapTo_disk: "wd_disk (snd (snd (swapTo aw w))) = wd_disk w" "wd_trace (snd (snd (swapTo aw w))) = wd_trace w"
  by (simp_all add: swapTo_def case_prod_beta Let_def ioPlain_def split: option.splits)

lemma extends_eq: "wd_disk w' = wd_disk w \<Longrightarrow> wd_trace w' = wd_trace w \<Longrightarrow> P (wd_disk w) \<Longrightarrow> extends P w w'"
  by (simp add: extends_def)

lemma FinalizeRewrite_crash:
  assumes st: "beside t R (wd_disk w)" and sb: "aw_sideBuf aw = Some sb"
    and new: "in_data (dk_files (wd_disk w) ! t) @ sb = new" and l: "\<not> in_lost (dk_files (wd_disk w) ! t)"
  shows "extends (either_log R new) w (snd (FinalizeRewrite aw w))"
proof (cases "aw_bufErr aw")
  case True
  then show ?thesis using sb extends_refl [of "either_log R new", OF either_beside [OF st]]
    by (simp add: FinalizeRewrite_def aofFlush_def)
next
  case False
  have fl: "fst (aofFlush [] aw w)" "fst (snd (aofFlush [] aw w)) = aw" "snd (snd (aofFlush [] aw w)) = w"
    using False by (simp_all add: aofFlush_def split: option.splits)
  define w2 where "w2 = snd (foldSideBuf sb w)"
  note f = foldSideBuf_spec [OF st, of sb, folded w2_def]
  have e2: "extends (either_log R new) w w2" by (rule extends_mono [OF f(1) either_beside])
  show ?thesis
  proof (cases "fst (foldSideBuf sb w)")
    case no: False
    then show ?thesis using e2 sb fl by (simp add: FinalizeRewrite_def case_prod_beta Let_def w2_def)
  next
    case yes: True
    have st2: "beside t R (wd_disk w2)" by (rule extends_last [OF f(1)])
    have d2: "in_data (dk_files (wd_disk w2) ! t) = new" "length new \<le> in_synced (dk_files (wd_disk w2) ! t)"
      using f(2) [OF yes l] new by simp_all
    note ren = either_renamed [OF st2 d2]
    define w3 where "w3 = snd (ioRename w2)"
    define w4 where "w4 = snd (ioSyncDir w3)"
    have t: "dk_tmp (wd_disk w2) = Some t" using st2 by (simp add: beside_def)
    have e3: "extends (either_log R new) w2 w3"
      using ren(1) either_beside [OF st2] t
      by (auto simp: w3_def ioRename_def case_prod_beta Let_def split: io.splits intro: extends_setDisk extends_eq)
    show ?thesis
    proof (cases "fst (ioRename w2)")
      case no: False
      then show ?thesis using extends_trans [OF e2 e3] yes sb fl
        by (simp add: FinalizeRewrite_def case_prod_beta Let_def flip: w2_def w3_def)
    next
      case ok3: True
      have d3: "wd_disk w3 = (wd_disk w2)\<lparr>dk_canon := Some t, dk_tmp := None\<rparr>"
        using ok3 t by (simp add: w3_def ioRename_def case_prod_beta Let_def split: io.splits)
      have e4: "extends (either_log R new) w3 w4"
        using ren d3 by (auto simp: w4_def ioSyncDir_def case_prod_beta Let_def split: io.splits
            intro!: extends_setDisk extends_eq)
      have e5: "extends (either_log R new) w4 (snd (snd (swapTo (AbortRewrite aw) w4)))"
        by (rule extends_eq) (simp_all add: swapTo_disk extends_last [OF e4])
      have "snd (FinalizeRewrite aw w) = snd (snd (swapTo (AbortRewrite aw) w4))"
        using ok3 yes sb fl
        by (simp add: FinalizeRewrite_def case_prod_beta Let_def flip: w2_def w3_def w4_def)
      then show ?thesis using extends_trans [OF extends_trans [OF extends_trans [OF e2 e3] e4] e5] by simp
    qed
  qed
qed

lemma FinalizeRewrite_done:
  assumes st: "beside t R (wd_disk w)" and sb: "aw_sideBuf aw = Some sb"
    and new: "in_data (dk_files (wd_disk w) ! t) @ sb = new" and l: "\<not> in_lost (dk_files (wd_disk w) ! t)"
    and ok: "FinalizeRewrite aw w = ((None, aw'), w')"
  shows "recoveries (wd_disk w') = {Some new}"
proof -
  obtain w1 w2 w3 where w: "foldSideBuf sb w = (True, w1)" "ioRename w1 = (True, w2)" "ioSyncDir w2 = (True, w3)" "wd_disk w' = wd_disk w3"
    using ok sb swapTo_disk(1) [of "AbortRewrite aw"]
    by (auto simp: FinalizeRewrite_def aofFlush_def Let_def split: prod.splits if_splits option.splits)
      (metis snd_conv swapTo_disk(1))+
  note f = foldSideBuf_spec [OF st, of sb, unfolded w(1), simplified]
  have b: "beside t R (wd_disk w1)" by (rule extends_last [OF f(1)])
  have "wd_disk w3 = (wd_disk w1)\<lparr>dk_canon := Some t, dk_tmp := None, dk_dcanon := Some t\<rparr>"
    using w(2,3) b by (auto simp: ioRename_def ioSyncDir_def beside_def case_prod_beta Let_def split: io.splits)
  then show ?thesis using f(2) [OF l] new w(4) by (auto simp: recoveries_def survives_synced)
qed

section \<open>Appends\<close>

abbreviation recs :: "bytes list list \<Rightarrow> bytes" where
  "recs cmds \<equiv> concat (map respRecord cmds)"

text \<open>\<open>same_but i d d'\<close>: only the content of file \<open>i\<close> changed.\<close>

definition same_but :: "nat \<Rightarrow> disk \<Rightarrow> disk \<Rightarrow> bool" where
  "same_but i d d' \<longleftrightarrow>
     length (dk_files d') = length (dk_files d) \<and> (\<forall>j. j \<noteq> i \<longrightarrow> dk_files d' ! j = dk_files d ! j) \<and>
     dk_canon d' = dk_canon d \<and> dk_dcanon d' = dk_dcanon d \<and> dk_tmp d' = dk_tmp d"

lemma same_but_refl [simp]: "same_but i d d"
  by (simp add: same_but_def)

lemma same_but_trans: "same_but i d d1 \<Longrightarrow> same_but i d1 d2 \<Longrightarrow> same_but i d d2"
  by (simp add: same_but_def)

lemma ioWrite_spec:
  assumes "i < length (dk_files (wd_disk w))" and "ioWrite i bs w = (ok, w')"
  shows "same_but i (wd_disk w) (wd_disk w')"
    and "in_synced (dk_files (wd_disk w') ! i) = in_synced (dk_files (wd_disk w) ! i) \<and> in_lost (dk_files (wd_disk w') ! i) = in_lost (dk_files (wd_disk w) ! i)"
    and "\<exists>n. in_data (dk_files (wd_disk w') ! i) = in_data (dk_files (wd_disk w) ! i) @ take n bs \<and> (ok \<longrightarrow> n = length bs)"
    and "wd_env w = [] \<Longrightarrow> ok \<and> wd_env w' = []"
  using assms by (auto simp: ioWrite_def case_prod_beta Let_def same_but_def pullIo_def split: io.splits list.splits)

lemma ioSync_spec:
  assumes "i < length (dk_files (wd_disk w))" and "ioSync i w = (ok, w')"
  shows "same_but i (wd_disk w) (wd_disk w')"
    and "in_data (dk_files (wd_disk w') ! i) = in_data (dk_files (wd_disk w) ! i)"
    and "in_synced (dk_files (wd_disk w') ! i) =
      (if ok \<and> \<not> in_lost (dk_files (wd_disk w) ! i) then length (in_data (dk_files (wd_disk w) ! i)) else in_synced (dk_files (wd_disk w) ! i)) \<and>
      in_lost (dk_files (wd_disk w') ! i) = (in_lost (dk_files (wd_disk w) ! i) \<or> \<not> ok)"
    and "wd_env w = [] \<Longrightarrow> ok \<and> wd_env w' = []"
  using assms by (auto simp: ioSync_def case_prod_beta Let_def same_but_def pullIo_def split: io.splits list.splits)

lemma aofMirror_sel [simp]:
  "aw_f (aofMirror bs b x) = aw_f x" "aw_policy (aofMirror bs b x) = aw_policy x"
  "aw_bufErr (aofMirror bs b x) = aw_bufErr x" "aw_dirty (aofMirror bs b x) = aw_dirty x"
  by (simp_all add: aofMirror_def split: option.splits)

text \<open>The three outcomes of an append on an open writer whose buffer is sound.\<close>

lemma aofAppend_cases:
  assumes f: "aw_f aw = Some i" "i < length (dk_files (wd_disk w))" "\<not> aw_bufErr aw" and ne: "argv \<noteq> []"
    and ap: "aofAppend argv aw w = ((r, aw'), w')"
  shows "same_but i (wd_disk w) (wd_disk w') \<and> aw_f aw' = Some i \<and> aw_policy aw' = aw_policy aw \<and>
     (wd_env w = [] \<longrightarrow> r = None \<and> wd_env w' = []) \<and>
     ((r = None \<and> \<not> aw_bufErr aw' \<and> aw_sideBuf aw' = map_option (\<lambda>sb. sb @ respRecord argv) (aw_sideBuf aw) \<and>
       in_data (dk_files (wd_disk w') ! i) = in_data (dk_files (wd_disk w) ! i) @ respRecord argv \<and>
       in_lost (dk_files (wd_disk w') ! i) = in_lost (dk_files (wd_disk w) ! i) \<and>
       (if aw_policy aw = FsyncAlways \<and> \<not> in_lost (dk_files (wd_disk w) ! i)
        then in_synced (dk_files (wd_disk w') ! i) = length (in_data (dk_files (wd_disk w') ! i))
        else in_synced (dk_files (wd_disk w') ! i) = in_synced (dk_files (wd_disk w) ! i))) \<or>
      (r \<noteq> None \<and> (in_lost (dk_files (wd_disk w) ! i) \<longrightarrow> in_lost (dk_files (wd_disk w') ! i)) \<and> in_synced (dk_files (wd_disk w') ! i) = in_synced (dk_files (wd_disk w) ! i) \<and>
       (if aw_bufErr aw'
        then \<exists>n. in_data (dk_files (wd_disk w') ! i) = in_data (dk_files (wd_disk w) ! i) @ take n (respRecord argv)
        else in_data (dk_files (wd_disk w') ! i) = in_data (dk_files (wd_disk w) ! i) @ respRecord argv)))"
proof -
  define bs where "bs = respRecord argv"
  obtain ok w1 where w1: "ioWrite i bs w = (ok, w1)" by (cases "ioWrite i bs w")
  note a = ioWrite_spec [OF f(2) w1]
  have bs: "bs \<noteq> []" by (simp add: bs_def)
  obtain n where n: "in_data (dk_files (wd_disk w1) ! i) = in_data (dk_files (wd_disk w) ! i) @ take n bs"
    "ok \<longrightarrow> n = length bs" using a(3) by blast
  define aw1 where "aw1 = aofMirror bs (ok \<or> length bs \<le> bufioSize) (aw\<lparr>aw_bufErr := \<not> ok\<rparr>)"
  have aw1: "aw_f aw1 = Some i" "aw_policy aw1 = aw_policy aw" "aw_bufErr aw1 = (\<not> ok)"
    "ok \<Longrightarrow> aw_sideBuf aw1 = map_option (\<lambda>sb. sb @ bs) (aw_sideBuf aw)"
    using f(1) by (auto simp: aw1_def aofMirror_def split: option.splits)
  have i1: "i < length (dk_files (wd_disk w1))" using a(1) f(2) by (simp add: same_but_def)
  obtain ok2 w2 where w2: "ioSync i w1 = (ok2, w2)" by (cases "ioSync i w1")
  note b = ioSync_spec [OF i1 w2]
  have run: "aofAppend argv aw w =
      (if \<not> ok then ((Some ErrIO, aw1), w1)
       else if aw_policy aw = FsyncAlways
            then (if ok2 then ((None, aw1\<lparr>aw_dirty := False\<rparr>), w2) else ((Some ErrIO, aw1\<lparr>aw_dirty := True\<rparr>), w2))
            else ((None, aw1\<lparr>aw_dirty := True\<rparr>), w1))"
    using ne f(1,3) bs w1 w2 aw1(1,2)
    by (cases "aw_policy aw") (simp_all add: aofAppend_def aofFlush_def Let_def aw1_def flip: bs_def)
  show ?thesis
  proof (cases ok)
    case False
    then have o: "r = Some ErrIO" "aw' = aw1" "w' = w1" using run ap by simp_all
    show ?thesis using a(1,2) aw1(1-3) n False a(4) unfolding o bs_def [symmetric] by auto
  next
    case ok: True
    have d: "in_data (dk_files (wd_disk w1) ! i) = in_data (dk_files (wd_disk w) ! i) @ bs" using n ok by simp
    show ?thesis
    proof (cases "aw_policy aw = FsyncAlways")
      case False
      then have o: "r = None" "aw' = aw1\<lparr>aw_dirty := True\<rparr>" "w' = w1" using run ap ok by simp_all
      show ?thesis using a(1,2) aw1 d ok a(4) False unfolding o bs_def [symmetric] by simp
    next
      case True
      then have o: "w' = w2" "r = (if ok2 then None else Some ErrIO)" "aw' = aw1\<lparr>aw_dirty := \<not> ok2\<rparr>"
        using run ap ok by (auto split: if_splits)
      show ?thesis using same_but_trans [OF a(1) b(1)] a(2,4) b(2-4) aw1 d ok True unfolding o bs_def [symmetric]
        by simp
    qed
  qed
qed

lemma aofAppend_bufErr:
  assumes "aw_bufErr aw" and "aofAppend argv aw w = ((r, aw'), w')"
  shows "r \<noteq> None \<and> aw' = aw \<and> w' = w"
  using assms by (auto simp: aofAppend_def aofFlush_def aofMirror_def Let_def split: if_splits option.splits)

text \<open>A session of appends; the result lists the acknowledged ones.\<close>

fun appendAll :: "bytes list list \<Rightarrow> aofWriter \<Rightarrow> world \<Rightarrow> bytes list list \<times> aofWriter \<times> world" where
  "appendAll [] aw w = ([], aw, w)"
| "appendAll (c # cs) aw w =
     (let ((r, aw1), w1) = aofAppend c aw w; (acks, aw2, w2) = appendAll cs aw1 w1
      in ((if r = None then c # acks else acks), aw2, w2))"

definition durable_upto :: "nat \<Rightarrow> bytes \<Rightarrow> bytes list list \<Rightarrow> bytes list list \<Rightarrow> aofWriter \<Rightarrow> disk \<Rightarrow> bool" where
  "durable_upto i base acks tried aw d \<longleftrightarrow>
     aw_f aw = Some i \<and> aw_policy aw = FsyncAlways \<and> i < length (dk_files d) \<and>
     dk_canon d = Some i \<and> dk_dcanon d = Some i \<and>
     (\<exists>ws us. in_data (dk_files d ! i) = base @ recs ws @ us \<and> length (base @ recs ws) \<le> in_synced (dk_files d ! i) \<and>
        subseq acks ws \<and> subseq ws tried \<and> (\<not> aw_bufErr aw \<longrightarrow> (\<exists>vs. us = recs vs \<and> subseq (ws @ vs) tried)))"

lemma durable_uptoI:
  assumes "aw_f aw = Some i \<and> aw_policy aw = FsyncAlways \<and> i < length (dk_files d) \<and>
     dk_canon d = Some i \<and> dk_dcanon d = Some i"
    and "in_data (dk_files d ! i) = base @ recs ws @ us" and "length (base @ recs ws) \<le> in_synced (dk_files d ! i)"
    and "subseq acks ws" and "subseq ws tried" and "aw_bufErr aw \<or> us = recs vs \<and> subseq (ws @ vs) tried"
  shows "durable_upto i base acks tried aw d"
  unfolding durable_upto_def using assms by blast

lemma durable_more: "durable_upto i base acks tried aw d \<Longrightarrow> aw_bufErr aw \<Longrightarrow> durable_upto i base acks (tried @ cs) aw d"
  unfolding durable_upto_def by (blast intro: subseq_rev_drop_many)

lemma durable_fewer: "durable_upto i base (acks @ cs) tried aw d \<Longrightarrow> durable_upto i base acks tried aw d"
proof -
  have "subseq acks ws" if "subseq (acks @ cs) ws" for ws
    using that by (metis subseq_order.order_trans subseq_rev_drop_many subseq_order.order_refl)
  then show "durable_upto i base (acks @ cs) tried aw d \<Longrightarrow> durable_upto i base acks tried aw d" unfolding durable_upto_def by blast
qed

lemma durable_append:
  assumes inv: "durable_upto i base acks tried aw (wd_disk w)" and ne: "c \<noteq> []"
    and ap: "aofAppend c aw w = ((r, aw'), w')"
  shows "durable_upto i base (if r = None \<and> \<not> in_lost (dk_files (wd_disk w') ! i) then acks @ [c] else acks) (tried @ [c]) aw' (wd_disk w')"
proof (cases "aw_bufErr aw")
  case True
  then show ?thesis using aofAppend_bufErr [OF True ap] durable_more [OF inv True] by auto
next
  case False
  have f: "aw_f aw = Some i" "i < length (dk_files (wd_disk w))" and pol: "aw_policy aw = FsyncAlways"
    using inv by (simp_all add: durable_upto_def)
  obtain ws vs where ws: "in_data (dk_files (wd_disk w) ! i) = base @ recs ws @ recs vs"
      "length (base @ recs ws) \<le> in_synced (dk_files (wd_disk w) ! i)" "subseq acks ws" "subseq ws tried" "subseq (ws @ vs) tried"
    using inv False by (auto simp: durable_upto_def)
  have tried: "subseq ws (tried @ [c])" "subseq (ws @ (vs @ [c])) (tried @ [c])"
    using ws(4) list_emb_append_mono [OF ws(5) subseq_order.order_refl [of "[c]"]] by (simp_all add: subseq_rev_drop_many)
  note c = aofAppend_cases [OF f False ne ap]
  have frame: "aw_f aw' = Some i \<and> aw_policy aw' = FsyncAlways \<and> i < length (dk_files (wd_disk w')) \<and>
     dk_canon (wd_disk w') = Some i \<and> dk_dcanon (wd_disk w') = Some i"
    using c inv pol by (simp add: same_but_def durable_upto_def)
  show ?thesis
  proof (cases "r = None \<and> \<not> in_lost (dk_files (wd_disk w') ! i)")
    case True
    have "in_data (dk_files (wd_disk w') ! i) = base @ recs (ws @ vs @ [c]) @ recs []"
      "length (base @ recs (ws @ vs @ [c])) \<le> in_synced (dk_files (wd_disk w') ! i)"
      using c True pol ws(1) by auto
    moreover have "subseq (acks @ [c]) (ws @ (vs @ [c]))"
      by (rule list_emb_append_mono [OF ws(3)]) (simp add: list_emb_append2)
    ultimately have "durable_upto i base (acks @ [c]) (tried @ [c]) aw' (wd_disk w')"
      using tried(2) by (intro durable_uptoI [OF frame, where vs = "[]"]) auto
    then show ?thesis using True by simp
  next
    case err: False
    have s: "in_synced (dk_files (wd_disk w') ! i) = in_synced (dk_files (wd_disk w) ! i)" using c err by (auto split: if_splits)
    have "durable_upto i base acks (tried @ [c]) aw' (wd_disk w')"
    proof (cases "aw_bufErr aw'")
      case True
      then obtain n where "in_data (dk_files (wd_disk w') ! i) = base @ recs ws @ (recs vs @ take n (respRecord c))"
        using c err ws(1) by auto
      from durable_uptoI [OF frame this _ ws(3) tried(1)] show ?thesis using True ws(2) s by simp
    next
      case ok: False
      then have "in_data (dk_files (wd_disk w') ! i) = base @ recs ws @ recs (vs @ [c])"
        using c err ws(1) by auto
      from durable_uptoI [OF frame this _ ws(3) tried(1), of "vs @ [c]"] show ?thesis using ws(2) s tried(2) by simp
    qed
    then show ?thesis using err by auto
  qed
qed

lemma appendAll_lost:
  assumes "aw_f aw = Some i" and "i < length (dk_files (wd_disk w))" and "[] \<notin> set cs" and "appendAll cs aw w = (acks, aw', w')"
    and "in_lost (dk_files (wd_disk w) ! i)"
  shows "in_lost (dk_files (wd_disk w') ! i)"
  using assms
proof (induction cs arbitrary: aw w acks)
  case (Cons c cs)
  obtain r aw1 w1 where ap: "aofAppend c aw w = ((r, aw1), w1)" by (metis prod.collapse)
  obtain acks2 where rest: "appendAll cs aw1 w1 = (acks2, aw', w')" using Cons.prems(4) ap by (cases "appendAll cs aw1 w1") simp
  have "aw_f aw1 = Some i \<and> i < length (dk_files (wd_disk w1)) \<and> in_lost (dk_files (wd_disk w1) ! i)"
  proof (cases "aw_bufErr aw")
    case True
    then show ?thesis using aofAppend_bufErr [OF True ap] Cons.prems by simp
  next
    case False
    have "c \<noteq> []" using Cons.prems(3) by auto
    from aofAppend_cases [OF Cons.prems(1,2) False this ap] Cons.prems(2,5) show ?thesis by (auto simp: same_but_def)
  qed
  then show ?case using Cons.IH [OF _ _ _ rest] Cons.prems(3) by simp
qed simp

text \<open>What is durable stays durable, and as long as no fsync has failed every acknowledged append is.\<close>

lemma durable_appendAll:
  assumes "durable_upto i base acks tried aw (wd_disk w)" and "[] \<notin> set cs" and "appendAll cs aw w = (new, aw', w')"
  shows "durable_upto i base (if in_lost (dk_files (wd_disk w') ! i) then acks else acks @ new) (tried @ cs) aw' (wd_disk w')"
    and "durable_upto i base acks (tried @ cs) aw' (wd_disk w')"
proof -
  have "durable_upto i base (if in_lost (dk_files (wd_disk w') ! i) then acks else acks @ new) (tried @ cs) aw' (wd_disk w') \<and>
      durable_upto i base acks (tried @ cs) aw' (wd_disk w')"
    using assms
  proof (induction cs arbitrary: acks tried aw w new)
    case (Cons c cs)
    obtain r aw1 w1 where ap: "aofAppend c aw w = ((r, aw1), w1)" by (metis prod.collapse)
    obtain acks2 where rest: "appendAll cs aw1 w1 = (acks2, aw', w')" "new = (if r = None then c # acks2 else acks2)"
      using Cons.prems(3) ap by (cases "appendAll cs aw1 w1") simp
    have ne: "c \<noteq> []" "[] \<notin> set cs" using Cons.prems(2) by auto
    let ?l = "in_lost (dk_files (wd_disk w1) ! i)"
    have d: "durable_upto i base (if r = None \<and> \<not> ?l then acks @ [c] else acks) (tried @ [c]) aw1 (wd_disk w1)"
      by (rule durable_append [OF Cons.prems(1) ne(1) ap])
    then have f: "aw_f aw1 = Some i" "i < length (dk_files (wd_disk w1))" by (simp_all add: durable_upto_def)
    have l: "?l \<Longrightarrow> in_lost (dk_files (wd_disk w') ! i)" by (rule appendAll_lost [OF f ne(2) rest(1)])
    have w: "durable_upto i base acks (tried @ [c]) aw1 (wd_disk w1)" using d by (auto intro: durable_fewer split: if_splits)
    from Cons.IH [OF d ne(2) rest(1)] Cons.IH [OF w ne(2) rest(1)] l show ?case
      using rest(2) by (cases r; cases ?l; cases "in_lost (dk_files (wd_disk w') ! i)") simp_all
  qed (auto intro: durable_fewer)
  then show "durable_upto i base (if in_lost (dk_files (wd_disk w') ! i) then acks else acks @ new) (tried @ cs) aw' (wd_disk w')"
    "durable_upto i base acks (tried @ cs) aw' (wd_disk w')" by simp_all
qed

lemma durable_recovery:
  assumes "durable_upto i base acks tried aw d" and "r \<in> recoveries d"
  shows "\<exists>ws us. r = Some (base @ recs ws @ us) \<and> subseq acks ws \<and> subseq ws tried"
proof -
  obtain ws us where w: "in_data (dk_files d ! i) = (base @ recs ws) @ us" "length (base @ recs ws) \<le> in_synced (dk_files d ! i)"
    "subseq acks ws" "subseq ws tried" "dk_canon d = Some i" "dk_dcanon d = Some i"
    using assms(1) unfolding durable_upto_def by auto
  obtain c where c: "r = Some c" "survives (dk_files d ! i) c" using assms(2) w(5,6) by (auto simp: recoveries_def)
  obtain rest where "c = (base @ recs ws) @ rest" using survives_prefix [OF c(2) w(1,2)] by blast
  then show ?thesis using w(3,4) c(1) by auto
qed

section \<open>Rewriting\<close>

text \<open>
  Rewrite with the appends that other connections make before (\<open>as1\<close>) and after (\<open>as2\<close>) the
  snapshot file is written; the two work on different files, so their system calls commute.
\<close>

definition rewriteCycle ::
  "bytes list list \<Rightarrow> bytes list list \<Rightarrow> bytes list list \<Rightarrow> bool \<Rightarrow> aofWriter \<Rightarrow> world \<Rightarrow> (aof_err option \<times> aofWriter) \<times> world" where
  "rewriteCycle cmds as1 as2 cancelled aw0 w0 =
     (case BeginRewrite aw0 of
        (Some e, aw) \<Rightarrow> ((Some e, aw), w0)
      | (None, aw) \<Rightarrow>
          (let (_, aw1, w1) = appendAll as1 aw w0;
               (wrote, w2) = writeSnapshot cmds w1;
               (_, aw3, w3) = appendAll as2 aw1 w2
           in rewriteFinish wrote cancelled aw3 w3))"

lemma appendAll_ok:
  "aw_f aw = Some i \<Longrightarrow> i < length (dk_files (wd_disk w)) \<Longrightarrow> \<not> aw_bufErr aw \<Longrightarrow> [] \<notin> set cs \<Longrightarrow> wd_env w = [] \<Longrightarrow>
   appendAll cs aw w = (acks, aw', w') \<Longrightarrow>
   acks = cs \<and> aw_f aw' = Some i \<and> \<not> aw_bufErr aw' \<and> aw_policy aw' = aw_policy aw \<and> wd_env w' = [] \<and>
   aw_sideBuf aw' = map_option (\<lambda>sb. sb @ recs cs) (aw_sideBuf aw) \<and> same_but i (wd_disk w) (wd_disk w') \<and>
   in_data (dk_files (wd_disk w') ! i) = in_data (dk_files (wd_disk w) ! i) @ recs cs"
proof (induction cs arbitrary: aw w acks)
  case Nil
  then show ?case by (simp add: option.map_ident)
next
  case (Cons c cs)
  obtain r aw1 w1 where ap: "aofAppend c aw w = ((r, aw1), w1)" by (metis prod.collapse)
  have ne: "c \<noteq> []" using Cons.prems(4) by auto
  note a = aofAppend_cases [OF Cons.prems(1-3) ne ap]
  obtain acks2 where rest: "appendAll cs aw1 w1 = (acks2, aw', w')" "acks = (if r = None then c # acks2 else acks2)"
    using Cons.prems(6) ap by (cases "appendAll cs aw1 w1") simp
  have r: "r = None" "wd_env w1 = []" "\<not> aw_bufErr aw1" "aw_f aw1 = Some i" "i < length (dk_files (wd_disk w1))"
    using a Cons.prems(2,5) by (auto simp: same_but_def)
  note b = Cons.IH [OF r(4,5,3) _ r(2) rest(1)]
  have sb: "same_but i (wd_disk w) (wd_disk w')" using a b Cons.prems(4) same_but_trans by force
  show ?case using a b sb r(1) rest(2) Cons.prems(4) by (auto simp: option.map_comp o_def)
qed

lemma writeSnapshot_ok:
  assumes "wd_env w = []" "dk_tmp (wd_disk w) = None" "[] \<notin> set cmds"
  shows "\<exists>w'. writeSnapshot cmds w = (True, w') \<and> wd_env w' = [] \<and> wd_disk w' =
     (wd_disk w)\<lparr>dk_files := dk_files (wd_disk w) @
          [\<lparr>in_data = headerBytes @ recs cmds, in_synced = length (headerBytes @ recs cmds), in_lost = False\<rparr>],
        dk_tmp := Some (length (dk_files (wd_disk w)))\<rparr>"
  using assms
  by (auto simp: writeSnapshot_def ioCreateTmp_def aofWriteHeader_def ioWrite_def ioSync_def ioPlain_def Let_def
      setFile_def setDisk_def)

lemma FinalizeRewrite_ok:
  assumes "wd_env w = []" "dk_tmp (wd_disk w) = Some t" "t < length (dk_files (wd_disk w))" "aw_sideBuf aw = Some sb"
    "\<not> aw_bufErr aw" "aw_f aw = Some i" "\<not> in_lost (dk_files (wd_disk w) ! t)"
  shows "\<exists>w'. FinalizeRewrite aw w =
       ((None, aw\<lparr>aw_f := Some t, aw_sideBuf := None, aw_dirty := False\<rparr>), w') \<and>
     dk_canon (wd_disk w') = Some t \<and> dk_dcanon (wd_disk w') = Some t \<and> dk_tmp (wd_disk w') = None \<and>
     length (dk_files (wd_disk w')) = length (dk_files (wd_disk w)) \<and>
     in_data (dk_files (wd_disk w') ! t) = in_data (dk_files (wd_disk w) ! t) @ sb \<and>
     in_synced (dk_files (wd_disk w') ! t) = length (in_data (dk_files (wd_disk w) ! t) @ sb)"
  using assms
  by (auto simp: FinalizeRewrite_def foldSideBuf_def aofFlush_def ioWrite_def ioSync_def ioPlain_def ioRename_def ioSyncDir_def
      swapTo_def AbortRewrite_def Let_def)

lemma rewriteCycle_ok:
  assumes env: "wd_env w = []" and d: "dk_canon (wd_disk w) = Some i" "i < length (dk_files (wd_disk w))" "dk_tmp (wd_disk w) = None"
    and aw: "aw_f aw = Some i" "\<not> aw_bufErr aw" "aw_sideBuf aw = None" and ne: "[] \<notin> set (cmds @ as1 @ as2)"
    and run: "rewriteCycle cmds as1 as2 False aw w = ((r, aw'), w')"
  shows "r = None \<and> aw_f aw' = dk_canon (wd_disk w') \<and> aw_sideBuf aw' = None \<and> \<not> aw_bufErr aw' \<and>
     recoveries (wd_disk w') = {Some (headerBytes @ recs (cmds @ as1 @ as2))}"
proof -
  define aw0 where "aw0 = aw\<lparr>aw_sideBuf := Some []\<rparr>"
  have aw0: "aw_f aw0 = Some i" "\<not> aw_bufErr aw0" "aw_sideBuf aw0 = Some []" using aw by (simp_all add: aw0_def)
  obtain k1 aw1 w1 where p1: "appendAll as1 aw0 w = (k1, aw1, w1)" by (metis prod.collapse)
  have a1: "aw_f aw1 = Some i" "\<not> aw_bufErr aw1" "wd_env w1 = []" "aw_sideBuf aw1 = Some (recs as1)"
    "same_but i (wd_disk w) (wd_disk w1)"
    using appendAll_ok [OF aw0(1) d(2) aw0(2) _ env p1] aw0(3) ne by simp_all
  have d1: "dk_tmp (wd_disk w1) = None" "dk_canon (wd_disk w1) = Some i" "i < length (dk_files (wd_disk w1))"
    using a1(5) d by (simp_all add: same_but_def)
  have "[] \<notin> set cmds" using ne by simp
  then obtain w2 where p2: "writeSnapshot cmds w1 = (True, w2)" and e2: "wd_env w2 = []" and k2: "wd_disk w2 =
     (wd_disk w1)\<lparr>dk_files := dk_files (wd_disk w1) @
          [\<lparr>in_data = headerBytes @ recs cmds, in_synced = length (headerBytes @ recs cmds), in_lost = False\<rparr>],
        dk_tmp := Some (length (dk_files (wd_disk w1)))\<rparr>"
    using writeSnapshot_ok [OF a1(3) d1(1)] by blast
  define t where "t = length (dk_files (wd_disk w1))"
  obtain k3 aw3 w3 where p3: "appendAll as2 aw1 w2 = (k3, aw3, w3)" by (metis prod.collapse)
  have i2: "i < length (dk_files (wd_disk w2))" using d1 k2 by simp
  have a3: "aw_f aw3 = Some i" "\<not> aw_bufErr aw3" "wd_env w3 = []" "aw_sideBuf aw3 = Some (recs (as1 @ as2))"
    "same_but i (wd_disk w2) (wd_disk w3)"
    using appendAll_ok [OF a1(1) i2 a1(2) _ e2 p3] a1(4) ne by simp_all
  have d3: "dk_tmp (wd_disk w3) = Some t" "t < length (dk_files (wd_disk w3))"
    "in_data (dk_files (wd_disk w3) ! t) = headerBytes @ recs cmds" "\<not> in_lost (dk_files (wd_disk w3) ! t)"
    using a3(5) d1(3) by (simp_all add: same_but_def k2 t_def nth_append)
  obtain w4 where p4: "FinalizeRewrite aw3 w3 = ((None, aw3\<lparr>aw_f := Some t, aw_sideBuf := None, aw_dirty := False\<rparr>), w4)"
    and d4: "dk_canon (wd_disk w4) = Some t" "dk_dcanon (wd_disk w4) = Some t"
      "in_data (dk_files (wd_disk w4) ! t) = headerBytes @ recs (cmds @ as1 @ as2)"
      "in_synced (dk_files (wd_disk w4) ! t) = length (headerBytes @ recs (cmds @ as1 @ as2))"
    using FinalizeRewrite_ok [OF a3(3) d3(1,2) a3(4,2,1) d3(4)] d3(3) by auto
  have "rewriteCycle cmds as1 as2 False aw w = ((None, aw3\<lparr>aw_f := Some t, aw_sideBuf := None, aw_dirty := False\<rparr>), w4)"
    using aw p1 p2 p3 p4 by (simp add: rewriteCycle_def BeginRewrite_def aw0_def rewriteFinish_def)
  moreover have "recoveries (wd_disk w4) = {Some (headerBytes @ recs (cmds @ as1 @ as2))}"
    using d4 by (auto simp: recoveries_def survives_synced)
  ultimately show ?thesis using run d4(1) a3(2) by auto
qed

section \<open>Properties of the log\<close>

lemma applyAll_len: "applyAll ap cs st = (None, k, st') \<Longrightarrow> k = length cs"
  by (induction cs arbitrary: st k st') (auto split: option.splits prod.splits)

lemma Replay_records:
  assumes "\<forall>c \<in> set cmds. command_ok c"
  shows "Replay F ap (Some (headerBytes @ recs cmds @ rest)) st =
     (case applyAll ap cmds st of
        (Some e, k, st') \<Rightarrow> (Some (ReplayApply e), k, st')
      | (None, k, st') \<Rightarrow> replayLoop F ap rest k st')"
  using replayLoop_records [OF assms, of F ap rest 0 st]
  by (simp add: Replay_def readHeader_fresh split: prod.splits option.splits)

lemma command_ok_ne: "\<forall>c \<in> set cmds. command_ok c \<Longrightarrow> [] \<notin> set cmds"
  by (auto simp: command_ok_def)

lemma aofOpen_fresh:
  assumes "wd_env w = []" "dk_canon (wd_disk w) = None"
  shows "\<exists>w'. aofOpen policy w = (Inr (newWriter (length (dk_files (wd_disk w))) policy), w') \<and> wd_env w' = [] \<and>
     dk_canon (wd_disk w') = Some (length (dk_files (wd_disk w))) \<and>
     length (dk_files (wd_disk w)) < length (dk_files (wd_disk w')) \<and>
     in_data (dk_files (wd_disk w') ! length (dk_files (wd_disk w))) = headerBytes"
  using assms by (simp add: aofOpen_def aofOpenFile_def aofOpenHeader_def aofWriteHeader_def ioPlain_def ioRemoveTmp_def
      ioWrite_def ioSync_def Let_def setDisk_def setFile_def nth_append)

text \<open>
  Claim C17. A log opened in a directory without one, written by any sequence of appends, is
  replayed as exactly that sequence of commands, in order and up to the first command that
  the handler refuses; the record count is the number of commands applied.\<close>

theorem append_then_replay:
  assumes "wd_env w = []" and "dk_canon (wd_disk w) = None" and "\<forall>c \<in> set cs. command_ok c"
  shows "\<exists>aw w1 aw2 w2 i. aofOpen policy w = (Inr aw, w1) \<and> appendAll cs aw w1 = (cs, aw2, w2) \<and>
     dk_canon (wd_disk w2) = Some i \<and>
     Replay F ap (Some (in_data (dk_files (wd_disk w2) ! i))) st =
       (case applyAll ap cs st of
          (Some e, k, st') \<Rightarrow> (Some (ReplayApply e), k, st')
        | (None, k, st') \<Rightarrow> (None, length cs, st'))"
proof -
  define i where "i = length (dk_files (wd_disk w))"
  obtain w1 where o: "aofOpen policy w = (Inr (newWriter i policy), w1)" "wd_env w1 = []" "dk_canon (wd_disk w1) = Some i"
    "i < length (dk_files (wd_disk w1))" "in_data (dk_files (wd_disk w1) ! i) = headerBytes"
    using aofOpen_fresh [OF assms(1,2), of policy] by (auto simp: i_def)
  obtain acks aw2 w2 where p: "appendAll cs (newWriter i policy) w1 = (acks, aw2, w2)" by (metis prod.collapse)
  have a: "acks = cs" "dk_canon (wd_disk w2) = Some i" "in_data (dk_files (wd_disk w2) ! i) = headerBytes @ recs cs"
    using appendAll_ok [OF _ o(4) _ command_ok_ne [OF assms(3)] o(2) p] o(3,5) by (simp_all add: newWriter_def same_but_def)
  have "Replay F ap (Some (in_data (dk_files (wd_disk w2) ! i))) st =
       (case applyAll ap cs st of
          (Some e, k, st') \<Rightarrow> (Some (ReplayApply e), k, st')
        | (None, k, st') \<Rightarrow> (None, length cs, st'))"
    using Replay_records [OF assms(3), of F ap "[]" st]
    by (auto simp: a(3) replayLoop_Nil dest: applyAll_len split: prod.splits option.splits)
  then show ?thesis using o(1) p a(1,2) by blast
qed

text \<open>An empty data directory, and a replay handler that collects the commands.\<close>

definition demoWorld :: world where
  "demoWorld = \<lparr>wd_disk = \<lparr>dk_files = [], dk_canon = None, dk_tmp = None, dk_dcanon = None\<rparr>, wd_env = [], wd_trace = []\<rparr>"

definition collect :: "bytes list \<Rightarrow> bytes list list \<Rightarrow> unit option \<times> bytes list list" where
  "collect c st = (None, st @ [c])"

theorem append_then_replay_witness:
  "\<exists>aw w1 aw2 w2 i. aofOpen FsyncNever demoWorld = (Inr aw, w1) \<and>
     appendAll [[''DEL'', ''k''], [''INCR'', ''n'']] aw w1 = ([[''DEL'', ''k''], [''INCR'', ''n'']], aw2, w2) \<and>
     dk_canon (wd_disk w2) = Some i \<and>
     Replay noFloat collect (Some (in_data (dk_files (wd_disk w2) ! i))) [] =
       (None, 2, [[''DEL'', ''k''], [''INCR'', ''n'']])"
  using append_then_replay [of demoWorld "[[''DEL'', ''k''], [''INCR'', ''n'']]" FsyncNever noFloat collect "[]"]
  by (simp add: demoWorld_def command_ok_def collect_def MaxArrayLen_def MaxBulkSize_def numeral_2_eq_2)

text \<open>
  Claim C15. Under the policy always, on a log that is on stable storage together with its directory entry, every append
  acknowledged before the first failing fsync survives every later power failure, whatever writes and fsyncs
  fail after it: there is a file, its bytes start with the header, the old records and a sequence of
  the submitted commands that contains these acknowledged ones in order, and replay applies
  them first. (Nothing is claimed for appends acknowledged after a failed fsync.)\<close>

theorem acked_survive_crash:
  assumes "dk_canon (wd_disk w) = Some i" and "dk_dcanon (wd_disk w) = Some i" and "i < length (dk_files (wd_disk w))"
    and "in_data (dk_files (wd_disk w) ! i) = headerBytes @ recs old"
    and "length (headerBytes @ recs old) \<le> in_synced (dk_files (wd_disk w) ! i)"
    and "\<forall>c \<in> set (old @ cs @ cs'). command_ok c"
    and "appendAll cs (newWriter i FsyncAlways) w = (acks, aw1, w1)" and "\<not> in_lost (dk_files (wd_disk w1) ! i)"
    and "appendAll cs' aw1 w1 = (acks', aw2, w2)" and "found \<in> recoveries (wd_disk w2)"
  shows "\<exists>ws rest. found = Some (headerBytes @ recs (old @ ws) @ rest) \<and> subseq acks ws \<and> subseq ws (cs @ cs') \<and>
     Replay F ap found st =
       (case applyAll ap (old @ ws) st of
          (Some e, k, st') \<Rightarrow> (Some (ReplayApply e), k, st')
        | (None, k, st') \<Rightarrow> replayLoop F ap rest k st')"
proof -
  have ne: "[] \<notin> set cs" "[] \<notin> set cs'" using command_ok_ne [OF assms(6)] by simp_all
  have "durable_upto i (headerBytes @ recs old) [] [] (newWriter i FsyncAlways) (wd_disk w)"
    by (rule durable_uptoI [where ws = "[]" and us = "[]" and vs = "[]"]) (use assms(1-5) in \<open>simp_all add: newWriter_def\<close>)
  from durable_appendAll(1) [OF this ne(1) assms(7)]
  have "durable_upto i (headerBytes @ recs old) acks cs aw1 (wd_disk w1)" using assms(8) by simp
  from durable_recovery [OF durable_appendAll(2) [OF this ne(2) assms(9)] assms(10)]
  obtain ws us where ws: "found = Some (headerBytes @ recs (old @ ws) @ us)" "subseq acks ws" "subseq ws (cs @ cs')" by auto
  have "\<forall>c \<in> set (old @ ws). command_ok c" using assms(6) list_emb_set [OF ws(3)] by fastforce
  note r = Replay_records [OF this, of F ap us st, folded ws(1)]
  show ?thesis using r ws by (intro exI [of _ ws] exI [of _ us] conjI)
qed

text \<open>A synced log of the header alone, with the outcomes of the next system calls.\<close>

definition demoLog :: "io list \<Rightarrow> world" where
  "demoLog es =
     \<lparr>wd_disk = \<lparr>dk_files = [\<lparr>in_data = headerBytes, in_synced = 8, in_lost = False\<rparr>], dk_canon = Some 0, dk_tmp = None, dk_dcanon = Some 0\<rparr>,
      wd_env = es, wd_trace = []\<rparr>"

lemmas append_run = aofAppend_def aofFlush_def newWriter_def demoLog_def ioWrite_def ioSync_def pullIo_def Let_def aofMirror_def setDisk_def setFile_def

theorem acked_survive_crash_witness:
  "recoveries (wd_disk (snd (snd (appendAll [[''DEL'', ''k''], [''INCR'', ''m'']]
        (fst (snd (appendAll [[''INCR'', ''n'']] (newWriter 0 FsyncAlways) (demoLog [IoOk, IoOk, IoOk, IoFail 0]))))
        (snd (snd (appendAll [[''INCR'', ''n'']] (newWriter 0 FsyncAlways) (demoLog [IoOk, IoOk, IoOk, IoFail 0])))))))) \<subseteq>
     {found. \<exists>ws rest. found = Some (headerBytes @ recs ws @ rest) \<and> subseq [[''INCR'', ''n'']] ws}"
proof (intro subsetI CollectI)
  let ?w = "demoLog [IoOk, IoOk, IoOk, IoFail 0]" and ?cs = "[[''DEL'', ''k''], [''INCR'', ''m'']]"
  define r where "r = appendAll [[''INCR'', ''n'']] (newWriter 0 FsyncAlways) ?w"
  define r' where "r' = appendAll ?cs (fst (snd r)) (snd (snd r))"
  fix found
  assume "found \<in> recoveries (wd_disk (snd (snd (appendAll ?cs (fst (snd (appendAll [[''INCR'', ''n'']] (newWriter 0 FsyncAlways) ?w)))
        (snd (snd (appendAll [[''INCR'', ''n'']] (newWriter 0 FsyncAlways) ?w)))))))"
  then have c: "found \<in> recoveries (wd_disk (snd (snd r')))" by (simp add: r_def r'_def)
  have k: "fst r = [[''INCR'', ''n'']]" and l: "\<not> in_lost (dk_files (wd_disk (snd (snd r))) ! 0)" by (simp_all add: r_def append_run)
  have p: "appendAll [[''INCR'', ''n'']] (newWriter 0 FsyncAlways) ?w = ([[''INCR'', ''n'']], fst (snd r), snd (snd r))"
    using k by (metis prod.collapse r_def)
  have q: "appendAll ?cs (fst (snd r)) (snd (snd r)) = (fst r', fst (snd r'), snd (snd r'))" by (simp add: r'_def)
  show "\<exists>ws rest. found = Some (headerBytes @ recs ws @ rest) \<and> subseq [[''INCR'', ''n'']] ws"
    using acked_survive_crash [OF _ _ _ _ _ _ p l q c, of "[]" noFloat collect "[]"]
    by (auto simp: demoLog_def headerBytes_len HeaderLen_def command_ok_def MaxArrayLen_def MaxBulkSize_def)
qed

text \<open>
  The two limits are real. A log created by this process can be missing altogether after a power failure, because
  opening it does not sync the directory; and an append acknowledged after a failed fsync can be lost, although
  the writer goes on accepting commands.
\<close>

lemma fresh_log_can_vanish:
  "\<exists>aw w1 aw2 w2. aofOpen FsyncAlways demoWorld = (Inr aw, w1) \<and> appendAll [c] aw w1 = ([c], aw2, w2) \<and> None \<in> recoveries (wd_disk w2)"
  if "c \<noteq> []" for c
  using that by (simp add: demoWorld_def aofOpen_def aofOpenFile_def aofOpenHeader_def aofWriteHeader_def ioPlain_def ioRemoveTmp_def append_run recoveries_def)

lemma acked_after_failed_sync_can_vanish:
  "fst (appendAll [[''DEL'', ''k''], [''INCR'', ''n'']] (newWriter 0 FsyncAlways) (demoLog [IoOk, IoFail 0])) = [[''INCR'', ''n'']] \<and>
   Some headerBytes \<in> recoveries (wd_disk (snd (snd (appendAll [[''DEL'', ''k''], [''INCR'', ''n'']] (newWriter 0 FsyncAlways) (demoLog [IoOk, IoFail 0])))))"
  by (simp add: append_run recoveries_def survives_def headerBytes_def Magic_def)

text \<open>
  Claim C16. Finalizing a rewrite is crash-safe under every fsync policy: at every disk reached on the way,
  whichever of its system calls fails, what is found after a power failure is something a power failure just before could
  have left of the old log, or the complete new log (snapshot and mirrored appends); when it reports success, it is the new
  log; and where the old log and its directory entry are synced, the old log can only be found complete.
  (The temporary file was written without a failing fsync.)\<close>

theorem rewrite_crash_safe:
  assumes "dk_tmp (wd_disk w) = Some t" and "t < length (dk_files (wd_disk w))" and "dk_canon (wd_disk w) \<notin> {None, Some t}"
    and "dk_dcanon (wd_disk w) \<noteq> Some t" and "\<not> in_lost (dk_files (wd_disk w) ! t)" and "aw_sideBuf aw = Some sb"
    and "in_data (dk_files (wd_disk w) ! t) @ sb = new" and "FinalizeRewrite aw w = ((r, aw'), w')"
  shows "(\<forall>d \<in> set (drop (length (wd_trace w)) (wd_trace w')) \<union> {wd_disk w'}.
       recoveries d \<noteq> {} \<and> recoveries d \<subseteq> recoveries (wd_disk w) \<union> {Some new}) \<and>
     (r = None \<longrightarrow> recoveries (wd_disk w') = {Some new}) \<and>
     (\<forall>i old. stable_log i old (wd_disk w) \<longrightarrow> recoveries (wd_disk w) = {Some old})"
proof -
  have b: "beside t (recoveries (wd_disk w)) (wd_disk w)" using assms(1-4) by (simp add: beside_def)
  show ?thesis
    using FinalizeRewrite_crash [OF b assms(6,7,5)] FinalizeRewrite_done [OF b assms(6,7,5)] assms(8) recoveries_stable
    by (auto simp: extends_def either_log_def)
qed

text \<open>A rewrite about to be finalized, whose directory sync then fails.\<close>

definition demoRewrite :: world where
  "demoRewrite =
     \<lparr>wd_disk = \<lparr>dk_files = [\<lparr>in_data = headerBytes @ respRecord [''INCR'', ''n''], in_synced = 40, in_lost = False\<rparr>,
                          \<lparr>in_data = headerBytes, in_synced = 8, in_lost = False\<rparr>],
               dk_canon = Some 0, dk_tmp = Some 1, dk_dcanon = Some 0\<rparr>,
      wd_env = [IoOk, IoOk, IoOk, IoOk, IoOk, IoFail 0], wd_trace = []\<rparr>"

theorem rewrite_crash_safe_witness:
  "set (map recoveries (wd_trace (snd (FinalizeRewrite ((newWriter 0 FsyncAlways)\<lparr>aw_sideBuf := Some ''x''\<rparr>) demoRewrite)))) \<subseteq>
     {R. R \<noteq> {} \<and> R \<subseteq> {Some (headerBytes @ respRecord [''INCR'', ''n'']), Some (headerBytes @ ''x'')}}"
proof -
  have st: "stable_log 0 (headerBytes @ respRecord [''INCR'', ''n'']) (wd_disk demoRewrite)"
    by (simp add: stable_log_def demoRewrite_def headerBytes_def Magic_def respRecord_eq bulkBytes_def formatNat.simps CRLF_def)
  obtain r aw' w' where f: "FinalizeRewrite ((newWriter 0 FsyncAlways)\<lparr>aw_sideBuf := Some ''x''\<rparr>) demoRewrite = ((r, aw'), w')"
    by (metis prod.collapse)
  show ?thesis
    unfolding f using rewrite_crash_safe [OF _ _ _ _ _ _ _ f, of 1 "''x''" "headerBytes @ ''x''"] st
    by (fastforce simp: demoRewrite_def)
qed

text \<open>
  Claim C18. When every system call succeeds, a rewrite with appends before and after the
  snapshot file is written leaves exactly one possible log on stable storage, the header, the
  snapshot and all those appends in order; the writer points at it, has left side-buffer
  mode, and replay applies the snapshot and then the appends.\<close>

theorem rewrite_complete:
  assumes "wd_env w = []" and "dk_canon (wd_disk w) = Some i" and "i < length (dk_files (wd_disk w))" and "dk_tmp (wd_disk w) = None"
    and "aw_f aw = Some i" and "\<not> aw_bufErr aw" and "aw_sideBuf aw = None"
    and "\<forall>c \<in> set (cmds @ as1 @ as2). command_ok c"
    and "rewriteCycle cmds as1 as2 False aw w = ((r, aw'), w')" and "applyAll ap (cmds @ as1 @ as2) st = (None, k, st')"
  shows "r = None \<and> aw_f aw' = dk_canon (wd_disk w') \<and> aw_sideBuf aw' = None \<and>
     recoveries (wd_disk w') = {Some (headerBytes @ recs (cmds @ as1 @ as2))} \<and>
     (\<forall>found \<in> recoveries (wd_disk w'). Replay F ap found st = (None, k, st'))"
  using rewriteCycle_ok [OF assms(1-7) command_ok_ne [OF assms(8)] assms(9)] Replay_records [OF assms(8), of F ap "[]" st] assms(10)
  by (simp add: replayLoop_Nil)

theorem rewrite_complete_witness:
  "recoveries (wd_disk (snd (rewriteCycle [[''INCR'', ''n'']] [[''DEL'', ''k'']] [[''DEL'', ''l'']] False
       (newWriter 0 FsyncEverysec) (demoLog [])))) =
     {Some (headerBytes @ recs [[''INCR'', ''n''], [''DEL'', ''k''], [''DEL'', ''l'']])}"
proof -
  obtain r aw' w' where p: "rewriteCycle [[''INCR'', ''n'']] [[''DEL'', ''k'']] [[''DEL'', ''l'']] False
       (newWriter 0 FsyncEverysec) (demoLog []) = ((r, aw'), w')" by (metis prod.collapse)
  show ?thesis
    unfolding p using rewrite_complete [OF _ _ _ _ _ _ _ _ p, where F = noFloat and i = 0 and ap = collect and st = "[]" and k = 3 and st' = "[[''INCR'', ''n''], [''DEL'', ''k''], [''DEL'', ''l'']]"]
    by (simp add: demoLog_def newWriter_def command_ok_def MaxArrayLen_def MaxBulkSize_def collect_def)
qed

lemma respRecordLen_fold:
  "foldl (\<lambda>n a. n + (1 + decDigits (length a) + 2 + length a + 2)) n argv = n + length (concat (map bulkBytes argv))"
  by (induction argv arbitrary: n) (simp_all add: bulkBytes_def decDigits_eq CRLF_def)

text \<open>
  The length counted for the append metric is the length of the encoded record.\<close>

lemma respRecordLen_exact: "respRecordLen argv = length (respRecord argv)"
  unfolding respRecordLen_def respRecordLen_fold respRecord_eq by (simp add: decDigits_eq CRLF_def)

text \<open>
  A log whose last record is cut between two of its elements replays without an
  error: the complete records are applied and the torn one is dropped silently.\<close>

lemma torn_tail_clean:
  assumes "\<forall>c \<in> set cmds. command_ok c" and "command_ok argv" and "n < length argv" and "applyAll ap cmds st = (None, k, st')"
  shows "Replay F ap (Some (headerBytes @ recs cmds @
       ''*'' @ formatNat (length argv) @ CRLF @ concat (map bulkBytes (take n argv)))) st = (None, k, st')"
  using Replay_records [OF assms(1), where F = F and ap = ap and st = st] ReadCommand_cut [OF assms(2,3), of F] assms(4)
  by (simp add: replayLoop.simps)

lemma readHeader_Inr:
  assumes "readHeader inp = Inr (v, body)"
  shows "inp = Magic @ v # body \<and> v \<in> set supportedVersions"
proof -
  have len: "8 \<le> length inp" and b: "body = drop 8 inp" "v = inp ! 7" "take 7 inp = Magic" "v \<in> set supportedVersions"
    using assms by (auto simp: readHeader_def HeaderLen_def Magic_def Let_def eval_nat_numeral split: if_splits)
  have "inp = take 7 inp @ inp ! 7 # drop (Suc 7) inp" by (rule id_take_nth_drop) (use len in simp)
  then show ?thesis using b by simp
qed

text \<open>
  Claim C19. Opening an existing log: a header that is truncated, has another magic or an
  unsupported version is refused and the file is left alone; an older version is upgraded in
  place, and the log then is the current header followed by the unchanged records.\<close>

theorem open_upgrades_header:
  assumes "wd_env w = []" and "dk_canon (wd_disk w) = Some i" and "i < length (dk_files (wd_disk w))"
    and "in_data (dk_files (wd_disk w) ! i) = content" and "content \<noteq> []"
  shows "\<exists>w'. aofOpen policy w = (case readHeader content of Inl e \<Rightarrow> Inl e | Inr _ \<Rightarrow> Inr (newWriter i policy), w') \<and>
     dk_canon (wd_disk w') = Some i \<and> dk_tmp (wd_disk w') = None \<and>
     in_data (dk_files (wd_disk w') ! i) = (case readHeader content of Inl e \<Rightarrow> content | Inr (v, body) \<Rightarrow> headerBytes @ body)"
proof (cases "readHeader content")
  case (Inl e)
  then show ?thesis using assms by (simp add: aofOpen_def aofOpenFile_def aofOpenHeader_def ioPlain_def ioRemoveTmp_def Let_def)
next
  case (Inr p)
  obtain v body where p: "p = (v, body)" by (cases p)
  have c: "content = Magic @ v # body" and v: "v = Version1 \<or> v = Version2 \<or> v = Version3"
    using readHeader_Inr [of content v body] Inr p by (auto simp: supportedVersions_def)
  have up: "(Magic @ v # body)[HeaderLen - 1 := CurrentVersion] = headerBytes @ body"
    by (simp add: headerBytes_def Magic_def HeaderLen_def)
  have vs: "(of_char v :: nat) < of_char CurrentVersion \<longleftrightarrow> v \<noteq> CurrentVersion"
    using v by (auto simp: Version1_def Version2_def Version3_def CurrentVersion_def)
  show ?thesis using assms Inr p up vs
    by (auto simp: aofOpen_def aofOpenFile_def aofOpenHeader_def upgradeHeader_def ioPlain_def ioRemoveTmp_def ioSync_def
        Let_def c headerBytes_def)
qed

theorem open_upgrades_header_witness:
  "\<exists>w'. aofOpen FsyncAlways
       ((demoLog [])\<lparr>wd_disk := (wd_disk (demoLog []))\<lparr>dk_files := [\<lparr>in_data = Magic @ [Version1], in_synced = 8, in_lost = False\<rparr>]\<rparr>\<rparr>) =
     (Inr (newWriter 0 FsyncAlways), w') \<and> in_data (dk_files (wd_disk w') ! 0) = headerBytes"
  using open_upgrades_header [of "(demoLog [])\<lparr>wd_disk := (wd_disk (demoLog []))\<lparr>dk_files := [\<lparr>in_data = Magic @ [Version1], in_synced = 8, in_lost = False\<rparr>]\<rparr>\<rparr>"
      0 "Magic @ [Version1]" FsyncAlways]
  by (auto simp: demoLog_def readHeader_def HeaderLen_def Magic_def supportedVersions_def)

end
