(* ===== verification/Net.thy ===== *)
theory Net
  imports Golib
begin

text \<open>
  The parts of Go's \<^verbatim>\<open>net\<close> and \<^verbatim>\<open>strings\<close> packages that address handling uses
  (\<^verbatim>\<open>SplitHostPort\<close>, \<^verbatim>\<open>ParseIP\<close>, \<^verbatim>\<open>TrimSpace\<close>, \<^verbatim>\<open>Cut\<close>, \<^verbatim>\<open>Split\<close>), the startup guards of
  \<^verbatim>\<open>internal/server/protected.go\<close> and the membership grammar of \<^verbatim>\<open>internal/cluster/peers.go\<close>.
  The resolver behind \<^verbatim>\<open>net.LookupIP\<close> is a parameter.
\<close>

section \<open>Strings\<close>

text \<open>\<^verbatim>\<open>strings.Cut\<close> at the first, and the split at the last occurrence of a character.\<close>

fun cutAt :: "char \<Rightarrow> string \<Rightarrow> (string \<times> string) option" where
  "cutAt c [] = None"
| "cutAt c (x # xs) =
     (if x = c then Some ([], xs) else map_option (apfst ((#) x)) (cutAt c xs))"

definition cutLast :: "char \<Rightarrow> string \<Rightarrow> (string \<times> string) option" where
  "cutLast c s = map_option (\<lambda>(a, b). (rev b, rev a)) (cutAt c (rev s))"

fun splitOn :: "char \<Rightarrow> string \<Rightarrow> string list" where
  "splitOn c [] = [[]]"
| "splitOn c (x # xs) =
     (if x = c then [] # splitOn c xs
      else case splitOn c xs of [] \<Rightarrow> [[x]] | w # ws \<Rightarrow> (x # w) # ws)"

text \<open>\<^verbatim>\<open>strings.HasPrefix\<close>.\<close>

definition hasPrefix :: "string \<Rightarrow> string \<Rightarrow> bool" where
  "hasPrefix p s = (take (length p) s = p)"

text \<open>\<^verbatim>\<open>strings.Index\<close>: the first position, or -1.\<close>

fun indexOf :: "string \<Rightarrow> string \<Rightarrow> int" where
  "indexOf [] sub = (if sub = [] then 0 else -1)"
| "indexOf (c # s) sub = (if hasPrefix sub (c # s) then 0 else let i = indexOf s sub in if i < 0 then -1 else i + 1)"

lemma indexOf_found: "0 \<le> indexOf s sub \<Longrightarrow> hasPrefix sub (drop (nat (indexOf s sub)) s) \<and> nat (indexOf s sub) + length sub \<le> length s"
proof (induction s sub rule: indexOf.induct)
  case (1 sub)
  then show ?case by (auto simp: hasPrefix_def split: if_splits)
next
  case (2 c s sub)
  show ?case
  proof (cases "hasPrefix sub (c # s)")
    case True
    then have "length sub \<le> length (c # s)" unfolding hasPrefix_def by (metis length_take min.cobounded1 min.commute)
    with True show ?thesis by simp
  next
    case False
    with 2 show ?thesis by (auto simp: Let_def nat_add_distrib split: if_splits)
  qed
qed

text \<open>The UTF-8 encodings of the code points \<^verbatim>\<open>unicode.IsSpace\<close> accepts.\<close>

definition spaceEncs :: "string list" where
  "spaceEncs =
     [[CHR 0x09], [CHR 0x0A], [CHR 0x0B], [CHR 0x0C], [CHR 0x0D], [CHR 0x20], [CHR 0xC2, CHR 0x85], [CHR 0xC2, CHR 0xA0],
      [CHR 0xE1, CHR 0x9A, CHR 0x80], [CHR 0xE2, CHR 0x80, CHR 0x80], [CHR 0xE2, CHR 0x80, CHR 0x81], [CHR 0xE2, CHR 0x80, CHR 0x82],
      [CHR 0xE2, CHR 0x80, CHR 0x83], [CHR 0xE2, CHR 0x80, CHR 0x84], [CHR 0xE2, CHR 0x80, CHR 0x85], [CHR 0xE2, CHR 0x80, CHR 0x86],
      [CHR 0xE2, CHR 0x80, CHR 0x87], [CHR 0xE2, CHR 0x80, CHR 0x88], [CHR 0xE2, CHR 0x80, CHR 0x89], [CHR 0xE2, CHR 0x80, CHR 0x8A],
      [CHR 0xE2, CHR 0x80, CHR 0xA8], [CHR 0xE2, CHR 0x80, CHR 0xA9], [CHR 0xE2, CHR 0x80, CHR 0xAF], [CHR 0xE2, CHR 0x81, CHR 0x9F],
      [CHR 0xE3, CHR 0x80, CHR 0x80]]"

definition spaceLen :: "string list \<Rightarrow> string \<Rightarrow> nat" where
  "spaceLen encs s = (case find (\<lambda>e. take (length e) s = e) encs of None \<Rightarrow> 0 | Some e \<Rightarrow> length e)"

function stripLeft :: "string list \<Rightarrow> string \<Rightarrow> string" where
  "stripLeft encs s = (if s = [] \<or> spaceLen encs s = 0 then s else stripLeft encs (drop (spaceLen encs s) s))"
  by pat_completeness auto

termination stripLeft
  by (relation "measure (\<lambda>(encs, s). length s)") auto

declare stripLeft.simps [simp del]

definition trimSpace :: "string \<Rightarrow> string" where
  "trimSpace s = rev (stripLeft (map rev spaceEncs) (rev (stripLeft spaceEncs s)))"

text \<open>\<^verbatim>\<open>strings.EqualFold\<close> against an ASCII word: besides case, U+017F folds to s and U+212A to k.\<close>

fun foldASCII :: "string \<Rightarrow> string" where
  "foldASCII [] = []"
| "foldASCII (c # cs) =
     (if c = CHR 0xC5 \<and> take 1 cs = [CHR 0xBF] then CHR ''s'' # foldASCII (drop 1 cs)
      else if c = CHR 0xE2 \<and> take 2 cs = [CHR 0x84, CHR 0xAA] then CHR ''k'' # foldASCII (drop 2 cs)
      else lowChar c # foldASCII cs)"

section \<open>Addresses\<close>

text \<open>\<^verbatim>\<open>net.SplitHostPort\<close>; every address error is \<^const>\<open>None\<close>.\<close>

definition SplitHostPort :: "string \<Rightarrow> (string \<times> string) option" where
  "SplitHostPort hp =
     (case cutLast (CHR '':'') hp of
        None \<Rightarrow> None
      | Some (front, port) \<Rightarrow>
          if take 1 hp = ''[''
          then (case cutAt (CHR '']'') hp of
                  None \<Rightarrow> None
                | Some (open, rest) \<Rightarrow>
                    if front = open @ '']'' \<and> CHR ''['' \<notin> set (tl hp) \<and> CHR '']'' \<notin> set rest
                    then Some (tl open, port) else None)
          else if CHR '':'' \<in> set front \<or> CHR ''['' \<in> set hp \<or> CHR '']'' \<in> set hp then None
          else Some (front, port))"

definition octet :: "string \<Rightarrow> nat option" where
  "octet s =
     (if s \<noteq> [] \<and> list_all isDigit s \<and> (hd s = CHR ''0'' \<longrightarrow> s = ''0'') \<and> digitsVal 0 s \<le> 255
      then Some (digitsVal 0 s) else None)"

definition parseIPv4 :: "string \<Rightarrow> nat list option" where
  "parseIPv4 s =
     (let parts = map octet (splitOn (CHR ''.'') s)
      in if length parts = 4 \<and> None \<notin> set parts then Some (map the parts) else None)"

definition hexVal :: "char \<Rightarrow> nat option" where
  "hexVal c =
     (let n = (of_char c :: nat)
      in if 48 \<le> n \<and> n \<le> 57 then Some (n - 48)
         else if 97 \<le> n \<and> n \<le> 102 then Some (n - 87)
         else if 65 \<le> n \<and> n \<le> 70 then Some (n - 55)
         else None)"

text \<open>The group loop of \<^verbatim>\<open>netip.parseIPv6\<close>: bytes so far, position of the ellipsis, rest of the text.\<close>

function ipv6Loop :: "nat list \<Rightarrow> nat option \<Rightarrow> string \<Rightarrow> nat list option" where
  "ipv6Loop ip ell s =
     (if 16 \<le> length ip
      then (if s = [] \<and> ell = None then Some ip else None)
      else let grp = takeWhile (\<lambda>c. hexVal c \<noteq> None) s; off = length grp; rest = drop off s;
               acc = foldl (\<lambda>n c. 16 * n + the (hexVal c)) 0 grp;
               fill = (\<lambda>ip. case ell of
                              None \<Rightarrow> if length ip = 16 then Some ip else None
                            | Some e \<Rightarrow> if length ip < 16
                                        then Some (take e ip @ replicate (16 - length ip) 0 @ drop e ip) else None)
           in if off = 0 \<or> 4 < off then None
              else if take 1 rest = ''.''
              then (if ell = None \<and> length ip \<noteq> 12 \<or> 12 < length ip then None
                    else case parseIPv4 s of None \<Rightarrow> None | Some v4 \<Rightarrow> fill (ip @ v4))
              else let ip1 = ip @ [acc div 256, acc mod 256]
                   in if rest = [] then fill ip1
                      else if hd rest \<noteq> CHR '':'' \<or> length rest = 1 then None
                      else if rest ! 1 = CHR '':''
                      then (if ell \<noteq> None then None
                            else if length rest = 2
                            then (if length ip1 < 16 then Some (ip1 @ replicate (16 - length ip1) 0) else None)
                            else ipv6Loop ip1 (Some (length ip1)) (drop 2 rest))
                      else ipv6Loop ip1 ell (drop 1 rest))"
  by pat_completeness auto

termination ipv6Loop
  by (relation "measure (\<lambda>(ip, ell, s). 16 - length ip)") auto

declare ipv6Loop.simps [simp del]

definition parseIPv6 :: "string \<Rightarrow> nat list option" where
  "parseIPv6 s =
     (if CHR ''%'' \<in> set s then None
      else if take 2 s = ''::''
      then (if length s = 2 then Some (replicate 16 0) else ipv6Loop [] (Some 0) (drop 2 s))
      else ipv6Loop [] None s)"

text \<open>\<^verbatim>\<open>net.ParseIP\<close>: a zone is refused; an IPv4 address is its 16-byte mapped form.\<close>

definition ParseIP :: "string \<Rightarrow> nat list option" where
  "ParseIP s =
     (case find (\<lambda>c. c = CHR ''.'' \<or> c = CHR '':'' \<or> c = CHR ''%'') s of
        Some c \<Rightarrow>
          if c = CHR ''.'' then map_option (\<lambda>v4. replicate 10 0 @ [255, 255] @ v4) (parseIPv4 s)
          else if c = CHR '':'' then parseIPv6 s
          else None
      | None \<Rightarrow> None)"

definition IsUnspecified :: "nat list \<Rightarrow> bool" where
  "IsUnspecified ip \<longleftrightarrow> ip = replicate 10 0 @ [255, 255, 0, 0, 0, 0] \<or> ip = replicate 16 0"

definition IsLoopback :: "nat list \<Rightarrow> bool" where
  "IsLoopback ip \<longleftrightarrow>
     (if take 12 ip = replicate 10 0 @ [255, 255] then ip ! 12 = 127
      else ip = replicate 15 0 @ [1])"

section \<open>protected.go\<close>

definition ParseProtectedMode :: "string \<Rightarrow> bool option" where
  "ParseProtectedMode s =
     (let m = lowerASCII (trimSpace s)
      in if m \<in> {'''', ''yes'', ''on'', ''true'', ''1''} then Some True
         else if m \<in> {''no'', ''off'', ''false'', ''0''} then Some False
         else None)"

text \<open>\<open>lookup host\<close> is the answer of \<^verbatim>\<open>net.LookupIP\<close>, \<^const>\<open>None\<close> for a failed lookup.\<close>

definition bindIsLoopback :: "(string \<Rightarrow> nat list list option) \<Rightarrow> string \<Rightarrow> bool" where
  "bindIsLoopback lookup addr =
     (let host = trimSpace (case SplitHostPort addr of Some (h, _) \<Rightarrow> h | None \<Rightarrow> addr)
      in if host = [] then False
         else if foldASCII host = ''localhost'' then True
         else case ParseIP host of
                Some ip \<Rightarrow> if IsUnspecified ip then False else IsLoopback ip
              | None \<Rightarrow>
                  (case lookup host of
                     None \<Rightarrow> False
                   | Some ips \<Rightarrow> ips \<noteq> [] \<and> list_all IsLoopback ips))"

datatype guard_err = GuardBadMode | GuardPublicBind

definition checkProtectedMode ::
  "(string \<Rightarrow> nat list list option) \<Rightarrow> string \<Rightarrow> string \<Rightarrow> bool \<Rightarrow> string \<Rightarrow> guard_err option" where
  "checkProtectedMode lookup addr requirePass tlsOn mode =
     (case ParseProtectedMode mode of
        None \<Rightarrow> Some GuardBadMode
      | Some enabled \<Rightarrow>
          if \<not> enabled \<or> requirePass \<noteq> [] \<or> tlsOn then None
          else if bindIsLoopback lookup addr then None
          else Some GuardPublicBind)"

definition checkRaftBind :: "(string \<Rightarrow> nat list list option) \<Rightarrow> string \<Rightarrow> bool \<Rightarrow> guard_err option" where
  "checkRaftBind lookup raftAddr insecure =
     (if insecure then None
      else if bindIsLoopback lookup raftAddr then None
      else Some GuardPublicBind)"

section \<open>peers.go\<close>

record peer =
  pe_ID :: string
  pe_Addr :: string
  pe_ClientAddr :: string

datatype peers_err = PeerEmpty | PeerMalformed | PeerNoID | PeerBadAddr | PeerBadClient | PeerDup | PeerEven

definition parsePeer :: "string \<Rightarrow> peers_err + peer" where
  "parsePeer raw =
     (let entry = trimSpace raw
      in if entry = [] then Inl PeerEmpty
         else case cutAt (CHR ''@'') entry of
                None \<Rightarrow> Inl PeerMalformed
              | Some (id0, rest0) \<Rightarrow>
                  (let ident = trimSpace id0; rest = trimSpace rest0
                   in if ident = [] then Inl PeerNoID
                      else let (addr0, client0, hasClient) =
                                 (case cutAt (CHR ''/'') rest of Some (a, c) \<Rightarrow> (a, c, True) | None \<Rightarrow> (rest, [], False));
                               addr = trimSpace addr0; clientAddr = trimSpace client0
                           in if SplitHostPort addr = None then Inl PeerBadAddr
                              else if hasClient \<and> SplitHostPort clientAddr = None then Inl PeerBadClient
                              else Inr \<lparr>pe_ID = ident, pe_Addr = addr, pe_ClientAddr = clientAddr\<rparr>))"

fun peersLoop :: "string list \<Rightarrow> peer list \<Rightarrow> peers_err + peer list" where
  "peersLoop [] peers = Inr peers"
| "peersLoop (raw # parts) peers =
     (case parsePeer raw of
        Inl e \<Rightarrow> Inl e
      | Inr p \<Rightarrow> if pe_ID p \<in> set (map pe_ID peers) then Inl PeerDup else peersLoop parts (peers @ [p]))"

definition ParsePeers :: "string \<Rightarrow> peers_err + peer list" where
  "ParsePeers spec0 =
     (let spec = trimSpace spec0
      in if spec = [] then Inr []
         else case peersLoop (splitOn (CHR '','') spec) [] of
                Inl e \<Rightarrow> Inl e
              | Inr peers \<Rightarrow> if even (length peers) then Inl PeerEven else Inr peers)"

section \<open>Properties\<close>

text \<open>Trimming white space twice is trimming it once.\<close>

lemma spaceLen_pos: "[] \<notin> set encs \<Longrightarrow> e \<in> set encs \<Longrightarrow> take (length e) s = e \<Longrightarrow> 0 < spaceLen encs s"
  by (auto simp: spaceLen_def find_None_iff find_Some_iff split: option.split) (metis nth_mem)

lemma spaceLen_prefix:
  assumes "[] \<notin> set encs" and "spaceLen encs (a @ b) = 0"
  shows "spaceLen encs a = 0"
proof (rule ccontr)
  assume "spaceLen encs a \<noteq> 0"
  then obtain e where e: "e \<in> set encs" "take (length e) a = e" by (auto simp: spaceLen_def find_Some_iff split: option.splits) (metis nth_mem)
  then have "length e \<le> length a" by (metis length_take min.cobounded1 min.commute)
  then have "take (length e) (a @ b) = e" using e(2) by simp
  from spaceLen_pos [OF assms(1) e(1) this] show False using assms(2) by simp
qed

lemma stripLeft_done: "stripLeft encs s = [] \<or> spaceLen encs (stripLeft encs s) = 0"
proof (induction encs s rule: stripLeft.induct)
  case (1 encs s)
  then show ?case by (cases "s = [] \<or> spaceLen encs s = 0") (auto simp: stripLeft.simps [of encs s])
qed

lemma stripLeft_suffix: "\<exists>p. s = p @ stripLeft encs s"
proof (induction encs s rule: stripLeft.induct)
  case (1 encs s)
  show ?case
  proof (cases "s = [] \<or> spaceLen encs s = 0")
    case True
    then show ?thesis by (simp add: stripLeft.simps [of encs s])
  next
    case False
    obtain p where p: "drop (spaceLen encs s) s = p @ stripLeft encs (drop (spaceLen encs s) s)" using 1 [OF False] by (rule exE)
    have "s = take (spaceLen encs s) s @ p @ stripLeft encs (drop (spaceLen encs s) s)" using p by (metis append_take_drop_id)
    moreover have "stripLeft encs s = stripLeft encs (drop (spaceLen encs s) s)" using False by (subst stripLeft.simps) simp
    ultimately show ?thesis by (metis append_assoc)
  qed
qed

lemma stripLeft_id: "s = [] \<or> spaceLen encs s = 0 \<Longrightarrow> stripLeft encs s = s"
  by (subst stripLeft.simps) simp

lemma trimSpace_idem: "trimSpace (trimSpace s) = trimSpace s"
proof -
  let ?l = "stripLeft spaceEncs s" and ?encs = "map rev spaceEncs"
  let ?t = "rev (stripLeft ?encs (rev ?l))"
  obtain p where "rev ?l = p @ stripLeft ?encs (rev ?l)" using stripLeft_suffix by blast
  then have l: "?l = ?t @ rev p" by (metis rev_append rev_rev_ident)
  have ne: "[] \<notin> set spaceEncs" by (simp add: spaceEncs_def)
  have "?t = [] \<or> spaceLen spaceEncs ?t = 0"
    using stripLeft_done [of spaceEncs s] l spaceLen_prefix [OF ne, of ?t "rev p"] by auto
  then have "stripLeft spaceEncs ?t = ?t" by (rule stripLeft_id)
  moreover have "stripLeft ?encs (rev ?t) = rev ?t" using stripLeft_done [of ?encs "rev ?l"] by (intro stripLeft_id) simp
  ultimately show ?thesis by (simp add: trimSpace_def)
qed

text \<open>What the membership grammar guarantees.\<close>

definition peer_ok :: "peer \<Rightarrow> bool" where
  "peer_ok p \<longleftrightarrow> pe_ID p \<noteq> [] \<and> SplitHostPort (pe_Addr p) \<noteq> None \<and>
     (pe_ClientAddr p \<noteq> [] \<longrightarrow> SplitHostPort (pe_ClientAddr p) \<noteq> None \<and> trimSpace (pe_ClientAddr p) = pe_ClientAddr p)"

lemma parsePeer_ok: "parsePeer raw = Inr p \<Longrightarrow> peer_ok p"
  using trimSpace_idem
  by (auto simp: parsePeer_def peer_ok_def Let_def trimSpace_def [of "[]"] stripLeft.simps split: if_splits option.splits prod.splits)

lemma peersLoop_ok:
  "peersLoop parts ps = Inr peers \<Longrightarrow> list_all peer_ok ps \<Longrightarrow> distinct (map pe_ID ps) \<Longrightarrow> list_all peer_ok peers \<and> distinct (map pe_ID peers)"
  by (induction parts arbitrary: ps) (auto split: sum.splits if_splits dest: parsePeer_ok)

lemma ParsePeers_ok:
  assumes "ParsePeers sp = Inr peers"
  shows "list_all peer_ok peers" and "distinct (map pe_ID peers)"
  using assms peersLoop_ok [of _ "[]" peers] by (auto simp: ParsePeers_def Let_def split: if_splits sum.splits)

end
