(* ===== verification/Server.thy ===== *)
theory Server
  imports StoreSpec Aof Net
begin

text \<open>
  The command server (\<^verbatim>\<open>internal/server\<close>: \<^verbatim>\<open>commands*.go\<close>, \<^verbatim>\<open>dispatch.go\<close>, \<^verbatim>\<open>auth.go\<close>,
  \<^verbatim>\<open>hello.go\<close>, \<^verbatim>\<open>conn_state.go\<close>, \<^verbatim>\<open>replicate.go\<close>, \<^verbatim>\<open>bgrewriteaof.go\<close>, \<^verbatim>\<open>server.go\<close>). A
  handler takes what it reads from outside (clocks, map iteration order, cluster status), the
  connection state, the argument vector and the server, and returns the reply with both
  states. Persistence is the writer and disk of \<^verbatim>\<open>aof\<close>. Telemetry and logging are left out.
\<close>

section \<open>State\<close>

text \<open>
  \<open>ev_now\<close> is \<^verbatim>\<open>s.now()\<close>, \<open>ev_storeNow\<close> the reading of the store's own clock, \<open>ev_order\<close> the
  order in which Go ranges over the key map, \<open>ev_aofSize\<close> the outcome of \<^verbatim>\<open>aof.Writer.Size\<close>.
  The cluster fields are what the Raft library reports: role, leader hint, the leader's
  client address, commit and apply index, match indices; \<open>ev_wait\<close> is what WAIT sees while
  it polls, a tick or the deadline with the match indices of that moment, or the end of the
  connection. A handler that never returns (a WAIT whose events run out) yields \<^const>\<open>None\<close>.
\<close>

record clusterStatus =
  cst_leader :: bool
  cst_hint :: string
  cst_addr :: string
  cst_commit :: nat
  cst_apply :: nat
  cst_match :: "(string \<times> nat) list"

datatype waitEvent = WTick "(string \<times> nat) list" | WDeadline "(string \<times> nat) list" | WDone

record env =
  ev_now :: time
  ev_storeNow :: time
  ev_order :: "(string \<times> entry) list \<Rightarrow> (string \<times> entry) list"
  ev_aofSize :: "int option"
  ev_cluster :: clusterStatus
  ev_wait :: "waitEvent list"

record connState =
  cs_proto :: proto
  cs_id :: nat
  cs_authenticated :: bool
  cs_applying :: bool
  cs_readonly :: bool

definition newConnState :: "nat \<Rightarrow> bool \<Rightarrow> connState" where
  "newConnState ident preAuthed =
     \<lparr>cs_proto = Proto2, cs_id = ident, cs_authenticated = preAuthed, cs_applying = False, cs_readonly = False\<rparr>"

record server =
  sv_store :: store
  sv_aof :: "aofWriter option"
  sv_world :: world
  sv_requirePass :: string
  sv_fsyncPolicy :: fsyncPolicy
  sv_addr :: string
  sv_startTime :: time
  sv_clientCount :: int
  sv_replayRecords :: nat
  sv_replayBytes :: int
  sv_rewriteInFlight :: bool
  sv_replicated :: bool
  sv_nodeID :: string
  sv_cfgNodeID :: string
  sv_peers :: "peer list"

type_synonym cmd_fn = "env \<Rightarrow> connState \<Rightarrow> bytes list \<Rightarrow> server \<Rightarrow> (resp_value \<times> connState \<times> server) option"

section \<open>commands.go\<close>

text \<open>\<open>appendIfLive\<close> returns whether it succeeded; without a log it does nothing.\<close>

definition appendIfLive :: "bytes list \<Rightarrow> server \<Rightarrow> bool \<times> server" where
  "appendIfLive argv s =
     (case sv_aof s of
        None \<Rightarrow> (True, s)
      | Some aw \<Rightarrow>
          (let ((err, aw'), w') = aofAppend argv aw (sv_world s)
           in (err = None, s\<lparr>sv_aof := Some aw', sv_world := w'\<rparr>)))"

text \<open>The common end of a mutating handler: append the record, then reply.\<close>

definition appendReply :: "bytes list \<Rightarrow> resp_value \<Rightarrow> server \<Rightarrow> resp_value \<times> server" where
  "appendReply argv reply s =
     (let (ok, s') = appendIfLive argv s
      in (if ok then reply else RError ''ERR aof append failed'', s'))"

abbreviation setStore :: "store \<Rightarrow> server \<Rightarrow> server" where
  "setStore st s \<equiv> s\<lparr>sv_store := st\<rparr>"

definition wrongTypeErr :: resp_value where
  "wrongTypeErr = RError ''WRONGTYPE Operation against a key holding the wrong kind of value''"

definition notIntegerErr :: resp_value where
  "notIntegerErr = RError ''ERR value is not an integer or out of range''"

definition syntaxErr :: resp_value where
  "syntaxErr = RError ''ERR syntax error''"

definition quoted :: "string \<Rightarrow> string" where
  "quoted t = CHR 0x27 # t @ [CHR 0x27]"

text \<open>The texts of the store's sentinel errors, which one branch of INCR and DECR would print.\<close>

primrec store_err_Error :: "store_err \<Rightarrow> string" where
  "store_err_Error ErrNotInteger = ''store: not an integer''"
| "store_err_Error ErrOverflow = ''store: integer overflow''"
| "store_err_Error ErrWrongType = ''store: wrong type''"
| "store_err_Error ErrNoKey = ''store: no such key''"
| "store_err_Error ErrSameObject = ''store: source and destination objects are the same''"
| "store_err_Error ErrBadPattern = ''syntax error in pattern''"

definition cmdPing :: "bytes list \<Rightarrow> resp_value" where
  "cmdPing argv = (if length argv = 1 then RString ''PONG'' else RBulk (argv ! 1))"

definition cmdEcho :: "bytes list \<Rightarrow> resp_value" where
  "cmdEcho argv = RBulk (argv ! 1)"

definition bulkOrNull :: "bytes option \<Rightarrow> resp_value" where
  "bulkOrNull r = (case r of None \<Rightarrow> RNull | Some v \<Rightarrow> RBulk v)"

definition cmdGet :: "env \<Rightarrow> bytes list \<Rightarrow> server \<Rightarrow> resp_value \<times> server" where
  "cmdGet ev argv s =
     (let (r, st) = Store_Get (ev_storeNow ev) (argv ! 1) (sv_store s)
      in (case r of Inl _ \<Rightarrow> wrongTypeErr | Inr v \<Rightarrow> bulkOrNull v, setStore st s))"

definition computeExpireAt :: "string \<Rightarrow> int \<Rightarrow> time \<Rightarrow> resp_value + time" where
  "computeExpireAt token n now =
     (if token = ''EX''
      then (if n \<le> 0 then Inl (RError ''ERR invalid expire time in 'set' command'')
            else Inr (timeAdd now (durMul n Second)))
      else if token = ''PX''
      then (if n \<le> 0 then Inl (RError ''ERR invalid expire time in 'set' command'')
            else Inr (timeAdd now (durMul n Millisecond)))
      else if token = ''EXAT'' then Inr (timeUnix n)
      else if token = ''PXAT'' then Inr (timeUnixMilli n)
      else Inl syntaxErr)"

function setOptionsLoop :: "time \<Rightarrow> bytes list \<Rightarrow> SetOpts \<Rightarrow> bool \<Rightarrow> bool \<Rightarrow> resp_value + SetOpts" where
  "setOptionsLoop now [] opts modeSet expireSet = Inr opts"
| "setOptionsLoop now (t # rest) opts modeSet expireSet =
     (let tok = upperASCII t
      in if tok = ''NX'' \<or> tok = ''XX''
         then (if modeSet then Inl syntaxErr
               else setOptionsLoop now rest (opts\<lparr>so_Mode := (if tok = ''NX'' then SetNX else SetXX)\<rparr>) True expireSet)
         else if tok = ''EX'' \<or> tok = ''PX'' \<or> tok = ''EXAT'' \<or> tok = ''PXAT''
         then (if expireSet then Inl syntaxErr
               else case rest of
                      [] \<Rightarrow> Inl syntaxErr
                    | v # rest' \<Rightarrow>
                        (case parseInt v of
                           None \<Rightarrow> Inl notIntegerErr
                         | Some n \<Rightarrow>
                             (case computeExpireAt tok n now of
                                Inl e \<Rightarrow> Inl e
                              | Inr at \<Rightarrow> setOptionsLoop now rest' (opts\<lparr>so_ExpireAt := at\<rparr>) modeSet True)))
         else Inl syntaxErr)"
  by pat_completeness auto

termination setOptionsLoop
  by (relation "measure (\<lambda>(now, ts, opts, m, e). length ts)") auto

definition parseSetOptions :: "bytes list \<Rightarrow> time \<Rightarrow> resp_value + SetOpts" where
  "parseSetOptions tokens now =
     setOptionsLoop now tokens \<lparr>so_Mode = SetAlways, so_ExpireAt = zeroTime\<rparr> False False"

definition renderCanonicalSet :: "bytes \<Rightarrow> bytes \<Rightarrow> time \<Rightarrow> bytes list" where
  "renderCanonicalSet key val expireAt =
     [''SET'', key, val] @
     (if isZero expireAt then [] else [''PXAT'', formatInt (unixMilli expireAt)])"

definition cmdSet :: "env \<Rightarrow> bytes list \<Rightarrow> server \<Rightarrow> resp_value \<times> server" where
  "cmdSet ev argv s =
     (case parseSetOptions (drop 3 argv) (ev_now ev) of
        Inl e \<Rightarrow> (e, s)
      | Inr opts \<Rightarrow>
          (let (ok, st) = Store_Set (ev_storeNow ev) (argv ! 1) (argv ! 2) opts (sv_store s);
               s1 = setStore st s
           in if \<not> ok then (RNull, s1)
              else appendReply (renderCanonicalSet (argv ! 1) (argv ! 2) (so_ExpireAt opts)) ROK s1))"

definition cmdDel :: "env \<Rightarrow> bytes list \<Rightarrow> server \<Rightarrow> resp_value \<times> server" where
  "cmdDel ev argv s =
     (let (n, st) = Store_Del (ev_storeNow ev) (drop 1 argv) (sv_store s); s1 = setStore st s
      in if n > 0 then appendReply argv (RInt (int n)) s1 else (RInt (int n), s1))"

definition cmdExists :: "env \<Rightarrow> bytes list \<Rightarrow> server \<Rightarrow> resp_value" where
  "cmdExists ev argv s = RInt (int (Store_Exists (ev_storeNow ev) (drop 1 argv) (sv_store s)))"

definition incrDecr :: "env \<Rightarrow> bytes list \<Rightarrow> bool \<Rightarrow> server \<Rightarrow> resp_value \<times> server" where
  "incrDecr ev argv up s =
     (let (r, st) = (if up then Store_Incr (ev_storeNow ev) (argv ! 1) (sv_store s)
                     else Store_Decr (ev_storeNow ev) (argv ! 1) (sv_store s));
          s1 = setStore st s
      in case r of
           Inl ErrWrongType \<Rightarrow> (wrongTypeErr, s1)
         | Inl ErrNotInteger \<Rightarrow> (notIntegerErr, s1)
         | Inl ErrOverflow \<Rightarrow> (RError ''ERR increment or decrement would overflow'', s1)
         | Inl e \<Rightarrow> (RError (''ERR '' @ store_err_Error e), s1)
         | Inr n \<Rightarrow> appendReply argv (RInt n) s1)"

definition cmdIncr :: "env \<Rightarrow> bytes list \<Rightarrow> server \<Rightarrow> resp_value \<times> server" where
  "cmdIncr ev argv s = incrDecr ev argv True s"

definition cmdDecr :: "env \<Rightarrow> bytes list \<Rightarrow> server \<Rightarrow> resp_value \<times> server" where
  "cmdDecr ev argv s = incrDecr ev argv False s"

definition bulks :: "bytes list \<Rightarrow> resp_value list" where
  "bulks vs = map RBulk vs"

definition cmdKeys :: "env \<Rightarrow> bytes list \<Rightarrow> server \<Rightarrow> resp_value" where
  "cmdKeys ev argv s =
     (case Store_Keys (ev_order ev (st_data (sv_store s))) (ev_storeNow ev) (argv ! 1) of
        Inl _ \<Rightarrow> RError ''ERR bad pattern''
      | Inr keys \<Rightarrow> RArray (bulks keys))"

definition cmdFlushDB :: "bytes list \<Rightarrow> server \<Rightarrow> resp_value \<times> server" where
  "cmdFlushDB argv s = appendReply argv ROK (setStore (Store_FlushDB (sv_store s)) s)"

definition cmdDBSize :: "server \<Rightarrow> resp_value" where
  "cmdDBSize s = RInt (int (Store_DBSize (sv_store s)))"

definition renderPExpireAt :: "bytes \<Rightarrow> time \<Rightarrow> bytes list" where
  "renderPExpireAt key expireAt = [''PEXPIREAT'', key, formatInt (unixMilli expireAt)]"

definition applyExpire :: "env \<Rightarrow> bytes \<Rightarrow> time \<Rightarrow> server \<Rightarrow> resp_value \<times> server" where
  "applyExpire ev key expireAt s =
     (let (ok, st) = Store_Expire (ev_storeNow ev) key expireAt (sv_store s); s1 = setStore st s
      in if \<not> ok then (RInt 0, s1) else appendReply (renderPExpireAt key expireAt) (RInt 1) s1)"

definition setExpiry :: "env \<Rightarrow> bytes list \<Rightarrow> int \<Rightarrow> server \<Rightarrow> resp_value \<times> server" where
  "setExpiry ev argv unit s =
     (case parseInt (argv ! 2) of
        None \<Rightarrow> (notIntegerErr, s)
      | Some n \<Rightarrow> applyExpire ev (argv ! 1) (timeAdd (ev_now ev) (durMul n unit)) s)"

definition cmdExpire :: "env \<Rightarrow> bytes list \<Rightarrow> server \<Rightarrow> resp_value \<times> server" where
  "cmdExpire ev argv s = setExpiry ev argv Second s"

definition cmdPExpire :: "env \<Rightarrow> bytes list \<Rightarrow> server \<Rightarrow> resp_value \<times> server" where
  "cmdPExpire ev argv s = setExpiry ev argv Millisecond s"

definition cmdPExpireAt :: "env \<Rightarrow> bytes list \<Rightarrow> server \<Rightarrow> resp_value \<times> server" where
  "cmdPExpireAt ev argv s =
     (case parseInt (argv ! 2) of
        None \<Rightarrow> (notIntegerErr, s)
      | Some ms \<Rightarrow> applyExpire ev (argv ! 1) (timeUnixMilli ms) s)"

text \<open>Go's integer division truncates towards zero.\<close>

definition quotGo :: "int \<Rightarrow> int \<Rightarrow> int" where
  "quotGo a b = sgn a * sgn b * (\<bar>a\<bar> div \<bar>b\<bar>)"

definition ttlReply :: "int \<Rightarrow> int \<Rightarrow> resp_value" where
  "ttlReply d unit =
     (if d = TTLNoKey then RInt (-2)
      else if d = TTLNoExpire then RInt (-1)
      else RInt (quotGo d unit))"

definition cmdTTL :: "env \<Rightarrow> bytes list \<Rightarrow> server \<Rightarrow> resp_value" where
  "cmdTTL ev argv s = ttlReply (Store_TTL (ev_storeNow ev) (argv ! 1) (sv_store s)) Second"

definition cmdPTTL :: "env \<Rightarrow> bytes list \<Rightarrow> server \<Rightarrow> resp_value" where
  "cmdPTTL ev argv s = ttlReply (Store_TTL (ev_storeNow ev) (argv ! 1) (sv_store s)) Millisecond"

definition cmdPersist :: "env \<Rightarrow> bytes list \<Rightarrow> server \<Rightarrow> resp_value \<times> server" where
  "cmdPersist ev argv s =
     (let (ok, st) = Store_Persist (ev_storeNow ev) (argv ! 1) (sv_store s); s1 = setStore st s
      in if \<not> ok then (RInt 0, s1) else appendReply argv (RInt 1) s1)"

section \<open>commands_list.go\<close>

definition pushCmd :: "env \<Rightarrow> bytes list \<Rightarrow> bool \<Rightarrow> server \<Rightarrow> resp_value \<times> server" where
  "pushCmd ev argv front s =
     (let (r, st) = (if front then Store_LPush (ev_storeNow ev) (argv ! 1) (drop 2 argv) (sv_store s)
                     else Store_RPush (ev_storeNow ev) (argv ! 1) (drop 2 argv) (sv_store s));
          s1 = setStore st s
      in case r of Inl _ \<Rightarrow> (wrongTypeErr, s1) | Inr n \<Rightarrow> appendReply argv (RInt n) s1)"

definition cmdLPush :: "env \<Rightarrow> bytes list \<Rightarrow> server \<Rightarrow> resp_value \<times> server" where
  "cmdLPush ev argv s = pushCmd ev argv True s"

definition cmdRPush :: "env \<Rightarrow> bytes list \<Rightarrow> server \<Rightarrow> resp_value \<times> server" where
  "cmdRPush ev argv s = pushCmd ev argv False s"

definition popCmd :: "env \<Rightarrow> bytes list \<Rightarrow> bool \<Rightarrow> server \<Rightarrow> resp_value \<times> server" where
  "popCmd ev argv front s =
     (let (r, st) = (if front then Store_LPop (ev_storeNow ev) (argv ! 1) (sv_store s)
                     else Store_RPop (ev_storeNow ev) (argv ! 1) (sv_store s));
          s1 = setStore st s
      in case r of
           Inl _ \<Rightarrow> (wrongTypeErr, s1)
         | Inr None \<Rightarrow> (RNull, s1)
         | Inr (Some v) \<Rightarrow> appendReply argv (RBulk v) s1)"

definition cmdLPop :: "env \<Rightarrow> bytes list \<Rightarrow> server \<Rightarrow> resp_value \<times> server" where
  "cmdLPop ev argv s = popCmd ev argv True s"

definition cmdRPop :: "env \<Rightarrow> bytes list \<Rightarrow> server \<Rightarrow> resp_value \<times> server" where
  "cmdRPop ev argv s = popCmd ev argv False s"

definition cmdLLen :: "env \<Rightarrow> bytes list \<Rightarrow> server \<Rightarrow> resp_value" where
  "cmdLLen ev argv s =
     (case Store_LLen (ev_storeNow ev) (argv ! 1) (sv_store s) of Inl _ \<Rightarrow> wrongTypeErr | Inr n \<Rightarrow> RInt n)"

definition cmdLRange :: "env \<Rightarrow> bytes list \<Rightarrow> server \<Rightarrow> resp_value" where
  "cmdLRange ev argv s =
     (case (parseInt (argv ! 2), parseInt (argv ! 3)) of
        (Some start, Some stop) \<Rightarrow>
          (case Store_LRange (ev_storeNow ev) (argv ! 1) start stop (sv_store s) of
             Inl _ \<Rightarrow> wrongTypeErr
           | Inr vals \<Rightarrow> RArray (bulks vals))
      | _ \<Rightarrow> notIntegerErr)"

definition cmdLIndex :: "env \<Rightarrow> bytes list \<Rightarrow> server \<Rightarrow> resp_value" where
  "cmdLIndex ev argv s =
     (case parseInt (argv ! 2) of
        None \<Rightarrow> notIntegerErr
      | Some i \<Rightarrow>
          (case Store_LIndex (ev_storeNow ev) (argv ! 1) i (sv_store s) of
             Inl _ \<Rightarrow> wrongTypeErr
           | Inr v \<Rightarrow> bulkOrNull v))"

section \<open>commands_hash.go\<close>

definition cmdHSet :: "env \<Rightarrow> bytes list \<Rightarrow> server \<Rightarrow> resp_value \<times> server" where
  "cmdHSet ev argv s =
     (if length (drop 2 argv) mod 2 \<noteq> 0 then (RError (''ERR wrong number of arguments for '' @ quoted ''hset''), s)
      else let (r, st) = Store_HSet (ev_storeNow ev) (argv ! 1) (drop 2 argv) (sv_store s); s1 = setStore st s
           in case r of Inl _ \<Rightarrow> (wrongTypeErr, s1) | Inr n \<Rightarrow> appendReply argv (RInt n) s1)"

definition cmdHGet :: "env \<Rightarrow> bytes list \<Rightarrow> server \<Rightarrow> resp_value" where
  "cmdHGet ev argv s =
     (case Store_HGet (ev_storeNow ev) (argv ! 1) (argv ! 2) (sv_store s) of
        Inl _ \<Rightarrow> wrongTypeErr
      | Inr v \<Rightarrow> bulkOrNull v)"

definition cmdHDel :: "env \<Rightarrow> bytes list \<Rightarrow> server \<Rightarrow> resp_value \<times> server" where
  "cmdHDel ev argv s =
     (let (r, st) = Store_HDel (ev_storeNow ev) (argv ! 1) (drop 2 argv) (sv_store s); s1 = setStore st s
      in case r of
           Inl _ \<Rightarrow> (wrongTypeErr, s1)
         | Inr n \<Rightarrow> if n > 0 then appendReply argv (RInt n) s1 else (RInt n, s1))"

definition cmdHExists :: "env \<Rightarrow> bytes list \<Rightarrow> server \<Rightarrow> resp_value" where
  "cmdHExists ev argv s =
     (case Store_HExists (ev_storeNow ev) (argv ! 1) (argv ! 2) (sv_store s) of
        Inl _ \<Rightarrow> wrongTypeErr
      | Inr ok \<Rightarrow> if ok then RInt 1 else RInt 0)"

definition cmdHKeys :: "env \<Rightarrow> bytes list \<Rightarrow> server \<Rightarrow> resp_value" where
  "cmdHKeys ev argv s =
     (case Store_HKeys (ev_storeNow ev) (argv ! 1) (sv_store s) of
        Inl _ \<Rightarrow> wrongTypeErr
      | Inr keys \<Rightarrow> RArray (bulks keys))"

definition cmdHVals :: "env \<Rightarrow> bytes list \<Rightarrow> server \<Rightarrow> resp_value" where
  "cmdHVals ev argv s =
     (case Store_HVals (ev_storeNow ev) (argv ! 1) (sv_store s) of
        Inl _ \<Rightarrow> wrongTypeErr
      | Inr vals \<Rightarrow> RArray (bulks vals))"

definition cmdHLen :: "env \<Rightarrow> bytes list \<Rightarrow> server \<Rightarrow> resp_value" where
  "cmdHLen ev argv s =
     (case Store_HLen (ev_storeNow ev) (argv ! 1) (sv_store s) of Inl _ \<Rightarrow> wrongTypeErr | Inr n \<Rightarrow> RInt n)"

definition cmdHGetAll :: "env \<Rightarrow> bytes list \<Rightarrow> server \<Rightarrow> resp_value" where
  "cmdHGetAll ev argv s =
     (case Store_HGetAll (ev_storeNow ev) (argv ! 1) (sv_store s) of
        Inl _ \<Rightarrow> wrongTypeErr
      | Inr flat \<Rightarrow> RMap (bulks flat))"

definition cmdType :: "env \<Rightarrow> bytes list \<Rightarrow> server \<Rightarrow> resp_value" where
  "cmdType ev argv s =
     (case Store_Type (ev_storeNow ev) (argv ! 1) (sv_store s) of
        None \<Rightarrow> RString ''none''
      | Some t \<Rightarrow> RString t)"

section \<open>commands_keyspace.go and commands_scan.go\<close>

definition cmdRename :: "env \<Rightarrow> bytes list \<Rightarrow> server \<Rightarrow> resp_value \<times> server" where
  "cmdRename ev argv s =
     (let (r, st) = Store_Rename (ev_storeNow ev) (argv ! 1) (argv ! 2) (sv_store s); s1 = setStore st s
      in case r of
           Inl _ \<Rightarrow> (RError ''ERR no such key'', s1)
         | Inr _ \<Rightarrow> if argv ! 1 \<noteq> argv ! 2 then appendReply argv ROK s1 else (ROK, s1))"

definition cmdRenameNX :: "env \<Rightarrow> bytes list \<Rightarrow> server \<Rightarrow> resp_value \<times> server" where
  "cmdRenameNX ev argv s =
     (let (r, st) = Store_RenameNX (ev_storeNow ev) (argv ! 1) (argv ! 2) (sv_store s); s1 = setStore st s
      in case r of
           Inl _ \<Rightarrow> (RError ''ERR no such key'', s1)
         | Inr moved \<Rightarrow> if \<not> moved then (RInt 0, s1) else appendReply argv (RInt 1) s1)"

fun copyOptions :: "bytes list \<Rightarrow> bool \<Rightarrow> resp_value + bool" where
  "copyOptions [] replace = Inr replace"
| "copyOptions [t] replace = (if upperASCII t = ''REPLACE'' then Inr True else Inl syntaxErr)"
| "copyOptions (t # v # rest) replace =
     (if upperASCII t = ''REPLACE'' then copyOptions (v # rest) True
      else if upperASCII t = ''DB''
      then (case parseInt v of
              None \<Rightarrow> Inl notIntegerErr
            | Some db \<Rightarrow> if db \<noteq> 0 then Inl (RError ''ERR DB index is out of range'') else copyOptions rest replace)
      else Inl syntaxErr)"

definition cmdCopy :: "env \<Rightarrow> bytes list \<Rightarrow> server \<Rightarrow> resp_value \<times> server" where
  "cmdCopy ev argv s =
     (case copyOptions (drop 3 argv) False of
        Inl e \<Rightarrow> (e, s)
      | Inr replace \<Rightarrow>
          (let (r, st) = Store_Copy (ev_storeNow ev) (argv ! 1) (argv ! 2) replace (sv_store s); s1 = setStore st s
           in case r of
                Inl _ \<Rightarrow> (RError ''ERR source and destination objects are the same'', s1)
              | Inr copied \<Rightarrow> if \<not> copied then (RInt 0, s1) else appendReply argv (RInt 1) s1))"

fun scanOptions :: "bytes list \<Rightarrow> string \<Rightarrow> int \<Rightarrow> resp_value + string \<times> int" where
  "scanOptions [] match cnt = Inr (match, cnt)"
| "scanOptions [t] match cnt = Inl syntaxErr"
| "scanOptions (t # v # rest) match cnt =
     (if upperASCII t = ''MATCH'' then scanOptions rest v cnt
      else if upperASCII t = ''COUNT''
      then (case parseInt v of
              None \<Rightarrow> Inl syntaxErr
            | Some n \<Rightarrow> if n \<le> 0 then Inl syntaxErr else scanOptions rest match n)
      else Inl syntaxErr)"

definition cmdScan :: "env \<Rightarrow> bytes list \<Rightarrow> server \<Rightarrow> resp_value" where
  "cmdScan ev argv s =
     (case parseUint (argv ! 1) of
        None \<Rightarrow> RError ''ERR invalid cursor''
      | Some cursor \<Rightarrow>
          (case scanOptions (drop 2 argv) ''*'' 0 of
             Inl e \<Rightarrow> e
           | Inr (match, cnt) \<Rightarrow>
               (case Store_Scan (ev_order ev (st_data (sv_store s))) (ev_storeNow ev) cursor match cnt of
                  Inl _ \<Rightarrow> RError ''ERR bad pattern''
                | Inr (keys, next) \<Rightarrow> RArray [RBulk (formatNat next), RArray (bulks keys)])))"

section \<open>auth.go, hello.go, conn_state.go, commands_readmodel.go\<close>

definition errWrongPass :: string where
  "errWrongPass = ''WRONGPASS invalid username-password pair or user is disabled.''"

definition errNoPassSet :: string where
  "errNoPassSet = ''ERR Client sent AUTH, but no password is set. Did you mean AUTH <username> <password>?''"

definition authenticate :: "server \<Rightarrow> bytes \<Rightarrow> bytes \<Rightarrow> connState \<Rightarrow> resp_value \<times> connState" where
  "authenticate s user pass cs =
     (if sv_requirePass s = [] then (RError errNoPassSet, cs)
      else let userOK = (user = ''default''); passOK = (pass = sv_requirePass s)
           in if \<not> userOK \<or> \<not> passOK then (RError errWrongPass, cs)
              else (RString ''OK'', cs\<lparr>cs_authenticated := True\<rparr>))"

definition cmdAuth :: "server \<Rightarrow> bytes list \<Rightarrow> connState \<Rightarrow> resp_value \<times> connState" where
  "cmdAuth s argv cs =
     (if length argv = 3 then authenticate s (argv ! 1) (argv ! 2) cs
      else authenticate s ''default'' (argv ! 1) cs)"

primrec protoNum :: "proto \<Rightarrow> int" where
  "protoNum Proto2 = 2"
| "protoNum Proto3 = 3"

definition serverVersion :: string where "serverVersion = ''3.0.0''"

definition helloReply :: "connState \<Rightarrow> resp_value" where
  "helloReply cs =
     RMap [RBulk ''server'', RBulk ''toykv'',
           RBulk ''version'', RBulk serverVersion,
           RBulk ''proto'', RInt (protoNum (cs_proto cs)),
           RBulk ''id'', RInt (wrap64 (int (cs_id cs))),
           RBulk ''mode'', RBulk ''standalone'',
           RBulk ''role'', RBulk ''master'',
           RBulk ''modules'', RArray []]"

definition helloProto :: "bytes list \<Rightarrow> connState \<Rightarrow> proto option" where
  "helloProto argv cs =
     (if length argv \<ge> 2
      then (case parseInt (argv ! 1) of
              None \<Rightarrow> None
            | Some p \<Rightarrow> if p = 2 then Some Proto2 else if p = 3 then Some Proto3 else None)
      else Some (cs_proto cs))"

definition isError :: "resp_value \<Rightarrow> bool" where
  "isError v \<longleftrightarrow> (case v of RError _ \<Rightarrow> True | _ \<Rightarrow> False)"

definition cmdHello :: "server \<Rightarrow> bytes list \<Rightarrow> connState \<Rightarrow> resp_value \<times> connState" where
  "cmdHello s argv cs =
     (case helloProto argv cs of
        None \<Rightarrow> (RError ''NOPROTO sorry, this protocol version is not supported.'', cs)
      | Some p \<Rightarrow>
          if length argv > 2 \<and> (length argv \<noteq> 5 \<or> upperASCII (argv ! 2) \<noteq> ''AUTH'')
          then (RError ''ERR Syntax error in HELLO'', cs)
          else let (v, cs1) = (if length argv > 2 then authenticate s (argv ! 3) (argv ! 4) cs else (ROK, cs))
               in if isError v then (v, cs1)
                  else let cs2 = cs1\<lparr>cs_proto := p\<rparr> in (helloReply cs2, cs2))"

definition cmdReadOnly :: "connState \<Rightarrow> resp_value \<times> connState" where
  "cmdReadOnly cs = (ROK, cs\<lparr>cs_readonly := True\<rparr>)"

definition cmdReadWrite :: "connState \<Rightarrow> resp_value \<times> connState" where
  "cmdReadWrite cs = (ROK, cs\<lparr>cs_readonly := False\<rparr>)"

section \<open>commands_info.go\<close>

definition tcpPort :: "server \<Rightarrow> string" where
  "tcpPort s =
     (case SplitHostPort (sv_addr s) of
        Some (_, port) \<Rightarrow> if port \<noteq> [] then port else ''0''
      | None \<Rightarrow> ''0'')"

definition splitHostPort :: "string \<Rightarrow> string \<times> string" where
  "splitHostPort addr = (case SplitHostPort addr of None \<Rightarrow> ([], []) | Some hp \<Rightarrow> hp)"

definition replicaPeers :: "peer list \<Rightarrow> string \<Rightarrow> peer list" where
  "replicaPeers peers selfID = filter (\<lambda>p. pe_ID p \<noteq> selfID) peers"

definition infoLine :: "string \<Rightarrow> string \<Rightarrow> string" where
  "infoLine name val = name @ '':'' @ val @ CRLF"

definition matchOf :: "clusterStatus \<Rightarrow> string \<Rightarrow> nat" where
  "matchOf st ident = (case map_of (cst_match st) ident of None \<Rightarrow> 0 | Some i \<Rightarrow> i)"

fun infoSlaves :: "clusterStatus \<Rightarrow> nat \<Rightarrow> peer list \<Rightarrow> string" where
  "infoSlaves st i [] = []"
| "infoSlaves st i (p # ps) =
     (let (host, port) = splitHostPort (pe_ClientAddr p); offset = matchOf st (pe_ID p);
          lag = (if cst_commit st > offset then cst_commit st - offset else 0)
      in infoLine (''slave'' @ formatNat i)
           (''ip='' @ host @ '',port='' @ port @ '',state=online,offset='' @ formatNat offset @ '',lag='' @ formatNat lag) @
         infoSlaves st (i + 1) ps)"

definition infoReplication :: "env \<Rightarrow> server \<Rightarrow> string" where
  "infoReplication ev s =
     (let st = ev_cluster ev
      in ''# Replication'' @ CRLF @
         infoLine ''role'' (if cst_leader st then ''master'' else ''slave'') @
         (if cst_leader st
          then let peers = replicaPeers (sv_peers s) (sv_cfgNodeID s)
               in infoLine ''connected_slaves'' (formatNat (length peers)) @ infoSlaves st 0 peers @
                  infoLine ''master_repl_offset'' (formatNat (cst_commit st))
          else infoLine ''connected_slaves'' ''0'' @ infoLine ''master_repl_offset'' (formatNat (cst_apply st))) @
         CRLF)"

definition infoWant :: "string \<Rightarrow> string \<Rightarrow> bool" where
  "infoWant sect name \<longleftrightarrow> sect \<in> {'''', ''default'', ''all'', ''everything''} \<or> sect = name"

definition infoServer :: "env \<Rightarrow> server \<Rightarrow> string" where
  "infoServer ev s =
     (let uptime = max (quotGo (timeSub (ev_now ev) (sv_startTime s)) Second) 0
      in ''# Server'' @ CRLF @ infoLine ''redis_version'' serverVersion @ infoLine ''tcp_port'' (tcpPort s) @
         infoLine ''uptime_in_seconds'' (formatInt uptime) @
         infoLine ''uptime_in_days'' (formatInt (quotGo uptime 86400)) @ CRLF)"

definition infoPersistence :: "env \<Rightarrow> server \<Rightarrow> string" where
  "infoPersistence ev s =
     (let enabled = (sv_aof s \<noteq> None);
          size = (if enabled then case ev_aofSize ev of Some n \<Rightarrow> n | None \<Rightarrow> 0 else 0)
      in ''# Persistence'' @ CRLF @ infoLine ''loading'' ''0'' @
         infoLine ''aof_enabled'' (if enabled then ''1'' else ''0'') @
         infoLine ''appendfsync'' (FsyncPolicy_String (sv_fsyncPolicy s)) @
         infoLine ''aof_current_size'' (formatInt size) @
         infoLine ''aof_rewrite_in_progress'' (if sv_rewriteInFlight s then ''1'' else ''0'') @ CRLF)"

definition infoKeyspace :: "server \<Rightarrow> string" where
  "infoKeyspace s =
     (let n = Store_DBSize (sv_store s)
      in ''# Keyspace'' @ CRLF @ (if n > 0 then infoLine ''db0'' (''keys='' @ formatNat n) else []) @ CRLF)"

definition cmdInfo :: "env \<Rightarrow> bytes list \<Rightarrow> server \<Rightarrow> resp_value" where
  "cmdInfo ev argv s =
     (let sect = (if length argv = 2 then lowerASCII (argv ! 1) else [])
      in RVerbatim ''txt''
           ((if infoWant sect ''server'' then infoServer ev s else []) @
            (if infoWant sect ''clients''
             then ''# Clients'' @ CRLF @ infoLine ''connected_clients'' (formatInt (sv_clientCount s)) @ CRLF else []) @
            (if infoWant sect ''persistence'' then infoPersistence ev s else []) @
            (if infoWant sect ''stats''
             then ''# Stats'' @ CRLF @ infoLine ''aof_replay_records'' (formatNat (sv_replayRecords s)) @
                  infoLine ''aof_replay_bytes'' (formatInt (sv_replayBytes s)) @ CRLF else []) @
            (if infoWant sect ''keyspace'' then infoKeyspace s else []) @
            (if sv_replicated s \<and> infoWant sect ''replication'' then infoReplication ev s else [])))"

section \<open>commands_replicate.go\<close>

definition countReplicas :: "(string \<times> nat) list \<Rightarrow> nat \<Rightarrow> string \<Rightarrow> nat" where
  "countReplicas matchIndex target selfID =
     foldl (\<lambda>cnt (ident, idx). if ident \<noteq> selfID \<and> idx \<ge> target then cnt + 1 else cnt) 0 matchIndex"

fun waitLoop :: "waitEvent list \<Rightarrow> bool \<Rightarrow> nat \<Rightarrow> nat \<Rightarrow> string \<Rightarrow> resp_value option" where
  "waitLoop [] timed target n selfID = None"
| "waitLoop (WTick mi # es) timed target n selfID =
     (let cnt = countReplicas mi target selfID
      in if cnt \<ge> n then Some (RInt (int cnt)) else waitLoop es timed target n selfID)"
| "waitLoop (WDeadline mi # es) timed target n selfID =
     (if timed then Some (RInt (int (countReplicas mi target selfID))) else waitLoop es timed target n selfID)"
| "waitLoop (WDone # es) timed target n selfID = Some (RError ''ERR client disconnected'')"

definition notLeaderReply :: "env \<Rightarrow> string \<Rightarrow> resp_value" where
  "notLeaderReply ev hint =
     (if cst_addr (ev_cluster ev) \<noteq> [] then RError (''NOTLEADER '' @ cst_addr (ev_cluster ev))
      else if hint \<noteq> [] then RError (''NOTLEADER leader is '' @ hint @ '' (no client address advertised)'')
      else RError ''NOTLEADER no leader elected'')"

definition timeoutErr :: resp_value where
  "timeoutErr = RError ''ERR timeout is not an integer or out of range''"

definition cmdWait :: "env \<Rightarrow> bytes list \<Rightarrow> server \<Rightarrow> resp_value option" where
  "cmdWait ev argv s =
     (case (parseInt (argv ! 1), parseInt (argv ! 2)) of
        (None, _) \<Rightarrow> Some notIntegerErr
      | (Some n, t) \<Rightarrow>
          if n < 0 then Some notIntegerErr
          else case t of
                 None \<Rightarrow> Some timeoutErr
               | Some timeoutMs \<Rightarrow>
                   if timeoutMs < 0 then Some timeoutErr
                   else if \<not> sv_replicated s then Some (RInt 0)
                   else if \<not> cst_leader (ev_cluster ev) then Some (notLeaderReply ev (cst_hint (ev_cluster ev)))
                   else let target = cst_commit (ev_cluster ev);
                            cnt = countReplicas (cst_match (ev_cluster ev)) target (sv_nodeID s)
                        in if cnt \<ge> nat n then Some (RInt (int cnt))
                           else waitLoop (ev_wait ev) (timeoutMs > 0) target (nat n) (sv_nodeID s))"

section \<open>bgrewriteaof.go\<close>

text \<open>The reply comes before the rewrite: raising the flag stands for \<^verbatim>\<open>go s.runRewrite()\<close>, the
  goroutine whose whole effect on the log, the disk and the flag is \<open>runRewrite\<close>, a step of its
  own that runs later.\<close>

definition cmdBGRewriteAOF :: "server \<Rightarrow> resp_value \<times> server" where
  "cmdBGRewriteAOF s =
     (if sv_aof s = None then (RError ''ERR persistence is disabled'', s)
      else if sv_rewriteInFlight s
           then (RError ''ERR Background append only file rewriting already in progress'', s)
           else (RString ''Background append only file rewriting started'', s\<lparr>sv_rewriteInFlight := True\<rparr>))"

definition hashArgs :: "snapshotEntry \<Rightarrow> bytes list" where
  "hashArgs e = concat (map (\<lambda>f. [f, hashGet (se_Hash e) f]) (se_HashOrder e))"

definition snapshotCmds :: "snapshotEntry \<Rightarrow> bytes list list" where
  "snapshotCmds e =
     (if se_Type e = ''list''
      then ([''RPUSH'', se_Key e] @ se_List e) # (if isZero (se_ExpireAt e) then [] else [renderPExpireAt (se_Key e) (se_ExpireAt e)])
      else if se_Type e = ''hash''
      then ([''HSET'', se_Key e] @ hashArgs e) # (if isZero (se_ExpireAt e) then [] else [renderPExpireAt (se_Key e) (se_ExpireAt e)])
      else [renderCanonicalSet (se_Key e) (se_Value e) (se_ExpireAt e)])"

definition snapshotForRewrite :: "env \<Rightarrow> store \<Rightarrow> bytes list list \<times> store" where
  "snapshotForRewrite ev st =
     (let (entries, st') = Store_Snapshot (ev_order ev (st_data st)) (ev_storeNow ev) st
      in (concat (map snapshotCmds entries), st'))"

text \<open>
  The background goroutine in three steps, between which other connections run: arm the side
  buffer, take the snapshot and write the temporary file, finish. A rewrite that fails to
  write the header does not take the snapshot.
\<close>

definition rewriteBegin :: "server \<Rightarrow> bool \<times> server" where
  "rewriteBegin s =
     (case sv_aof s of
        None \<Rightarrow> (False, s)
      | Some aw \<Rightarrow> (let (err, aw') = BeginRewrite aw in (err = None, s\<lparr>sv_aof := Some aw'\<rparr>)))"

definition rewriteWrite :: "env \<Rightarrow> server \<Rightarrow> bool \<times> server" where
  "rewriteWrite ev s =
     (let (cmds, st) = snapshotForRewrite ev (sv_store s);
          (ok1, w1) = ioCreateTmp (sv_world s);
          reached = (ok1 \<and> fst (aofWriteHeader (the (dk_tmp (wd_disk w1))) w1));
          (wrote, w) = writeSnapshot cmds (sv_world s)
      in (wrote, s\<lparr>sv_store := (if reached then st else sv_store s), sv_world := w\<rparr>))"

definition rewriteEnd :: "bool \<Rightarrow> server \<Rightarrow> server" where
  "rewriteEnd wrote s =
     (case sv_aof s of
        None \<Rightarrow> s\<lparr>sv_rewriteInFlight := False\<rparr>
      | Some aw \<Rightarrow>
          (let ((err, aw'), w') = rewriteFinish wrote False aw (sv_world s)
           in s\<lparr>sv_aof := Some aw', sv_world := w', sv_rewriteInFlight := False\<rparr>))"

definition runRewrite :: "env \<Rightarrow> server \<Rightarrow> server" where
  "runRewrite ev s =
     (let (ok, s1) = rewriteBegin s
      in if \<not> ok then s1\<lparr>sv_rewriteInFlight := False\<rparr>
         else let (wrote, s2) = rewriteWrite ev s1 in rewriteEnd wrote s2)"

section \<open>replicate.go\<close>

definition resolveSet :: "time \<Rightarrow> bytes list \<Rightarrow> bytes list" where
  "resolveSet now argv =
     (case parseSetOptions (drop 3 argv) now of
        Inl _ \<Rightarrow> argv
      | Inr opts \<Rightarrow>
          [argv ! 0, argv ! 1, argv ! 2] @
          (case so_Mode opts of SetNX \<Rightarrow> [''NX''] | SetXX \<Rightarrow> [''XX''] | SetAlways \<Rightarrow> []) @
          (if isZero (so_ExpireAt opts) then [] else [''PXAT'', formatInt (unixMilli (so_ExpireAt opts))]))"

definition resolveRelativeExpire :: "time \<Rightarrow> bytes list \<Rightarrow> int \<Rightarrow> bytes list" where
  "resolveRelativeExpire now argv unit =
     (case parseInt (argv ! 2) of
        None \<Rightarrow> argv
      | Some n \<Rightarrow> [''PEXPIREAT'', argv ! 1, formatInt (unixMilli (timeAdd now (durMul n unit)))])"

definition resolveNondeterministic :: "time \<Rightarrow> bytes list \<Rightarrow> bytes list" where
  "resolveNondeterministic now argv =
     (let name = upperASCII (argv ! 0)
      in if name = ''SET'' then resolveSet now argv
         else if name = ''EXPIRE'' then resolveRelativeExpire now argv Second
         else if name = ''PEXPIRE'' then resolveRelativeExpire now argv Millisecond
         else argv)"

section \<open>dispatch.go\<close>

record handler =
  h_fn :: cmd_fn
  h_minArgs :: int
  h_maxArgs :: int
  h_mutating :: bool
  h_readKeyed :: bool

text \<open>Handlers that do not touch the connection state, or only read the server.\<close>

definition onServer :: "(env \<Rightarrow> bytes list \<Rightarrow> server \<Rightarrow> resp_value \<times> server) \<Rightarrow> cmd_fn" where
  "onServer f ev cs argv s = (let (r, s') = f ev argv s in Some (r, cs, s'))"

definition onRead :: "(env \<Rightarrow> bytes list \<Rightarrow> server \<Rightarrow> resp_value) \<Rightarrow> cmd_fn" where
  "onRead f ev cs argv s = Some (f ev argv s, cs, s)"

definition onConn :: "(server \<Rightarrow> bytes list \<Rightarrow> connState \<Rightarrow> resp_value \<times> connState) \<Rightarrow> cmd_fn" where
  "onConn f ev cs argv s = (let (r, cs') = f s argv cs in Some (r, cs', s))"

definition onWait :: cmd_fn where
  "onWait ev cs argv s = map_option (\<lambda>r. (r, cs, s)) (cmdWait ev argv s)"

definition mkHandler :: "cmd_fn \<Rightarrow> int \<Rightarrow> int \<Rightarrow> bool \<Rightarrow> bool \<Rightarrow> handler" where
  "mkHandler f mn mx mut rd = \<lparr>h_fn = f, h_minArgs = mn, h_maxArgs = mx, h_mutating = mut, h_readKeyed = rd\<rparr>"

definition commands :: "(string \<times> handler) list" where
  "commands =
     [(''HELLO'', mkHandler (onConn cmdHello) 1 5 False False),
      (''AUTH'', mkHandler (onConn cmdAuth) 2 3 False False),
      (''PING'', mkHandler (onRead (\<lambda>ev argv s. cmdPing argv)) 1 2 False False),
      (''ECHO'', mkHandler (onRead (\<lambda>ev argv s. cmdEcho argv)) 2 2 False False),
      (''GET'', mkHandler (onServer cmdGet) 2 2 False True),
      (''SET'', mkHandler (onServer cmdSet) 3 (-1) True False),
      (''DEL'', mkHandler (onServer cmdDel) 2 (-1) True False),
      (''EXISTS'', mkHandler (onRead cmdExists) 2 (-1) False True),
      (''INCR'', mkHandler (onServer cmdIncr) 2 2 True False),
      (''DECR'', mkHandler (onServer cmdDecr) 2 2 True False),
      (''KEYS'', mkHandler (onRead cmdKeys) 2 2 False True),
      (''SCAN'', mkHandler (onRead cmdScan) 2 6 False True),
      (''FLUSHDB'', mkHandler (onServer (\<lambda>ev. cmdFlushDB)) 1 1 True False),
      (''DBSIZE'', mkHandler (onRead (\<lambda>ev argv. cmdDBSize)) 1 1 False True),
      (''RENAME'', mkHandler (onServer cmdRename) 3 3 True False),
      (''RENAMENX'', mkHandler (onServer cmdRenameNX) 3 3 True False),
      (''COPY'', mkHandler (onServer cmdCopy) 3 6 True False),
      (''INFO'', mkHandler (onRead cmdInfo) 1 2 False False),
      (''EXPIRE'', mkHandler (onServer cmdExpire) 3 3 True False),
      (''PEXPIRE'', mkHandler (onServer cmdPExpire) 3 3 True False),
      (''PEXPIREAT'', mkHandler (onServer cmdPExpireAt) 3 3 True False),
      (''TTL'', mkHandler (onRead cmdTTL) 2 2 False True),
      (''PTTL'', mkHandler (onRead cmdPTTL) 2 2 False True),
      (''PERSIST'', mkHandler (onServer cmdPersist) 2 2 True False),
      (''BGREWRITEAOF'', mkHandler (onServer (\<lambda>ev argv. cmdBGRewriteAOF)) 1 1 False False),
      (''READONLY'', mkHandler (onConn (\<lambda>s argv. cmdReadOnly)) 1 1 False False),
      (''READWRITE'', mkHandler (onConn (\<lambda>s argv. cmdReadWrite)) 1 1 False False),
      (''WAIT'', mkHandler onWait 3 3 False False),
      (''LPUSH'', mkHandler (onServer cmdLPush) 3 (-1) True False),
      (''RPUSH'', mkHandler (onServer cmdRPush) 3 (-1) True False),
      (''LPOP'', mkHandler (onServer cmdLPop) 2 2 True False),
      (''RPOP'', mkHandler (onServer cmdRPop) 2 2 True False),
      (''LLEN'', mkHandler (onRead cmdLLen) 2 2 False True),
      (''LRANGE'', mkHandler (onRead cmdLRange) 4 4 False True),
      (''LINDEX'', mkHandler (onRead cmdLIndex) 3 3 False True),
      (''HSET'', mkHandler (onServer cmdHSet) 4 (-1) True False),
      (''HGET'', mkHandler (onRead cmdHGet) 3 3 False True),
      (''HDEL'', mkHandler (onServer cmdHDel) 3 (-1) True False),
      (''HEXISTS'', mkHandler (onRead cmdHExists) 3 3 False True),
      (''HKEYS'', mkHandler (onRead cmdHKeys) 2 2 False True),
      (''HVALS'', mkHandler (onRead cmdHVals) 2 2 False True),
      (''HLEN'', mkHandler (onRead cmdHLen) 2 2 False True),
      (''HGETALL'', mkHandler (onRead cmdHGetAll) 2 2 False True),
      (''TYPE'', mkHandler (onRead cmdType) 2 2 False True)]"

text \<open>\<open>propose\<close> is \<^verbatim>\<open>s.cluster.Propose\<close>: a reply, the not-leader error with its hint, or another error.\<close>

datatype proposeResult = PReply resp_value | PNotLeader string | PFailed string

type_synonym propose = "bytes list \<Rightarrow> server \<Rightarrow> proposeResult \<times> server"

definition dispatch :: "propose \<Rightarrow> env \<Rightarrow> connState \<Rightarrow> bytes list \<Rightarrow> server \<Rightarrow> (resp_value \<times> connState \<times> server) option" where
  "dispatch pr ev cs argv s =
     (if argv = [] then Some (RError ''ERR empty command'', cs, s)
      else let name = upperASCII (argv ! 0)
           in if \<not> cs_authenticated cs \<and> name \<noteq> ''AUTH'' \<and> name \<noteq> ''HELLO'' \<and> name \<noteq> ''PING''
              then Some (RError ''NOAUTH Authentication required.'', cs, s)
              else case map_of commands name of
                     None \<Rightarrow> Some (RError (''ERR unknown command '' @ quoted (argv ! 0)), cs, s)
                   | Some h \<Rightarrow>
                       if int (length argv) < h_minArgs h \<or> (h_maxArgs h \<ge> 0 \<and> int (length argv) > h_maxArgs h)
                       then Some (RError (''ERR wrong number of arguments for '' @ quoted (lowerASCII (argv ! 0))), cs, s)
                       else if sv_replicated s \<and> h_mutating h \<and> \<not> cs_applying cs
                       then (case pr (resolveNondeterministic (ev_now ev) argv) s of
                               (PReply reply, s') \<Rightarrow> Some (reply, cs, s')
                             | (PNotLeader hint, s') \<Rightarrow> Some (notLeaderReply ev hint, cs, s')
                             | (PFailed e, s') \<Rightarrow> Some (RError (''ERR replication failed: '' @ e), cs, s'))
                       else if sv_replicated s \<and> h_readKeyed h \<and> \<not> cs_applying cs \<and> \<not> cs_readonly cs \<and>
                               \<not> cst_leader (ev_cluster ev)
                       then Some (notLeaderReply ev (cst_hint (ev_cluster ev)), cs, s)
                       else h_fn h ev cs argv s)"

section \<open>Applying and replaying\<close>

definition applyingConn :: connState where
  "applyingConn = \<lparr>cs_proto = Proto2, cs_id = 0, cs_authenticated = True, cs_applying = True, cs_readonly = False\<rparr>"

text \<open>
  \<open>applyReplicated\<close> and \<open>replayApply\<close> run \<open>dispatch\<close> on a synthetic connection, whose
  proto field is Go's zero value and never read. The propose gate is closed there.
\<close>

definition applyReplicated :: "propose \<Rightarrow> env \<Rightarrow> bytes list \<Rightarrow> server \<Rightarrow> (resp_value \<times> server) option" where
  "applyReplicated pr ev argv s = map_option (\<lambda>(r, cs, s'). (r, s')) (dispatch pr ev applyingConn argv s)"

definition replayApply :: "propose \<Rightarrow> env \<Rightarrow> bytes list \<Rightarrow> server \<Rightarrow> (string option \<times> server) option" where
  "replayApply pr ev argv s =
     (case dispatch pr ev applyingConn argv s of
        None \<Rightarrow> None
      | Some (RError e, _, s') \<Rightarrow> Some (Some e, s')
      | Some (_, _, s') \<Rightarrow> Some (None, s'))"

end
