(* ===== verification/Logging.thy ===== *)
theory Logging
  imports Server
begin

text \<open>
  What the dispatcher promises. A mutating command is parsed into one operation of the store,
  and the record it logs and the reply it sends are functions of that operation and its
  result; every other command leaves the log alone. From this follow the authentication
  gate, the independence of replicated commands from the local clock, and the fact that a
  replay of the log rebuilds the keyspace.
\<close>

section \<open>Mutating commands\<close>

text \<open>The operation behind a mutating command, or the error its arguments get.\<close>

definition mutOp :: "time \<Rightarrow> bytes list \<Rightarrow> resp_value + store_op" where
  "mutOp now argv =
     (let name = upperASCII (argv ! 0); k = argv ! 1
      in if name = ''SET''
         then (case parseSetOptions (drop 3 argv) now of
                 Inl e \<Rightarrow> Inl e
               | Inr opts \<Rightarrow> Inr (OSet k (argv ! 2) (so_Mode opts) (so_ExpireAt opts)))
         else if name = ''DEL'' then Inr (ODel (drop 1 argv))
         else if name = ''INCR'' then Inr (OIncr k)
         else if name = ''DECR'' then Inr (ODecr k)
         else if name = ''FLUSHDB'' then Inr OFlushDB
         else if name = ''RENAME'' then Inr (ORename k (argv ! 2))
         else if name = ''RENAMENX'' then Inr (ORenameNX k (argv ! 2))
         else if name = ''COPY''
         then (case copyOptions (drop 3 argv) False of Inl e \<Rightarrow> Inl e | Inr r \<Rightarrow> Inr (OCopy k (argv ! 2) r))
         else if name = ''EXPIRE'' \<or> name = ''PEXPIRE''
         then (case parseInt (argv ! 2) of
                 None \<Rightarrow> Inl notIntegerErr
               | Some n \<Rightarrow> Inr (OExpire k (timeAdd now (durMul n (if name = ''EXPIRE'' then Second else Millisecond)))))
         else if name = ''PEXPIREAT''
         then (case parseInt (argv ! 2) of None \<Rightarrow> Inl notIntegerErr | Some ms \<Rightarrow> Inr (OExpire k (timeUnixMilli ms)))
         else if name = ''PERSIST'' then Inr (OPersist k)
         else if name = ''LPUSH'' then Inr (OLPush k (drop 2 argv))
         else if name = ''RPUSH'' then Inr (ORPush k (drop 2 argv))
         else if name = ''LPOP'' then Inr (OLPop k)
         else if name = ''RPOP'' then Inr (ORPop k)
         else if name = ''HSET''
         then (if length (drop 2 argv) mod 2 \<noteq> 0 then Inl (RError (''ERR wrong number of arguments for '' @ quoted ''hset''))
               else Inr (OHSet k (drop 2 argv)))
         else Inr (OHDel k (drop 2 argv)))"

definition incrErr :: "store_err \<Rightarrow> resp_value" where
  "incrErr e =
     (case e of
        ErrWrongType \<Rightarrow> wrongTypeErr
      | ErrNotInteger \<Rightarrow> notIntegerErr
      | ErrOverflow \<Rightarrow> RError ''ERR increment or decrement would overflow''
      | _ \<Rightarrow> RError (''ERR '' @ store_err_Error e))"

definition mutErr :: "store_op \<Rightarrow> store_err \<Rightarrow> resp_value" where
  "mutErr op e =
     (case op of
        ORename a b \<Rightarrow> RError ''ERR no such key''
      | ORenameNX a b \<Rightarrow> RError ''ERR no such key''
      | OCopy a b r \<Rightarrow> RError ''ERR source and destination objects are the same''
      | OIncr k \<Rightarrow> incrErr e
      | ODecr k \<Rightarrow> incrErr e
      | _ \<Rightarrow> wrongTypeErr)"

definition mutReply :: "store_op \<Rightarrow> store_reply \<Rightarrow> resp_value" where
  "mutReply op rp =
     (case rp of
        RpErr e \<Rightarrow> mutErr op e
      | RpInt n \<Rightarrow> RInt n
      | RpOpt v \<Rightarrow> bulkOrNull v
      | RpBool ok \<Rightarrow> (case op of OSet k v m t \<Rightarrow> if ok then ROK else RNull | _ \<Rightarrow> RInt (if ok then 1 else 0))
      | RpUnit \<Rightarrow> ROK
      | RpList vs \<Rightarrow> RArray (bulks vs))"

text \<open>The record a successful command logs: canonical for SET and EXPIRE, else the command itself.\<close>

definition mutEffect :: "store_op \<Rightarrow> store_reply \<Rightarrow> bool" where
  "mutEffect op rp =
     (case rp of
        RpErr e \<Rightarrow> False
      | RpInt n \<Rightarrow> (case op of ODel ks \<Rightarrow> n > 0 | OHDel k fs \<Rightarrow> n > 0 | _ \<Rightarrow> True)
      | RpOpt v \<Rightarrow> v \<noteq> None
      | RpBool ok \<Rightarrow> ok
      | RpUnit \<Rightarrow> (case op of ORename a b \<Rightarrow> a \<noteq> b | _ \<Rightarrow> True)
      | RpList vs \<Rightarrow> True)"

definition logForm :: "bytes list \<Rightarrow> store_op \<Rightarrow> bytes list" where
  "logForm argv op =
     (case op of OSet k v m t \<Rightarrow> renderCanonicalSet k v t | OExpire k t \<Rightarrow> renderPExpireAt k t | _ \<Rightarrow> argv)"

definition mutRun :: "env \<Rightarrow> bytes list \<Rightarrow> server \<Rightarrow> resp_value \<times> server" where
  "mutRun ev argv s =
     (case mutOp (ev_now ev) argv of
        Inl e \<Rightarrow> (e, s)
      | Inr op \<Rightarrow>
          (let (rp, st) = store_exec (ev_storeNow ev) op (sv_store s)
           in if mutEffect op rp then appendReply (logForm argv op) (mutReply op rp) (setStore st s)
              else (mutReply op rp, setStore st s)))"

lemmas mut_defs = mutRun_def mutOp_def mutErr_def incrErr_def mutReply_def mutEffect_def logForm_def Let_def case_prod_beta

lemma SetOpts_eta [simp]: "\<lparr>so_Mode = so_Mode o1, so_ExpireAt = so_ExpireAt o1\<rparr> = o1"
  by (cases o1) simp

lemma set_run: "upperASCII (argv ! 0) = ''SET'' \<Longrightarrow> cmdSet ev argv s = mutRun ev argv s"
  by (cases "parseSetOptions (drop 3 argv) (ev_now ev)") (simp_all add: cmdSet_def mut_defs)

lemma del_run: "upperASCII (argv ! 0) = ''DEL'' \<Longrightarrow> cmdDel ev argv s = mutRun ev argv s"
  by (simp add: cmdDel_def mut_defs)

lemma incr_run:
  "upperASCII (argv ! 0) = ''INCR'' \<Longrightarrow> cmdIncr ev argv s = mutRun ev argv s"
  "upperASCII (argv ! 0) = ''DECR'' \<Longrightarrow> cmdDecr ev argv s = mutRun ev argv s"
  by (simp_all add: cmdIncr_def cmdDecr_def incrDecr_def mut_defs split: sum.splits store_err.splits)

lemma flush_run: "upperASCII (argv ! 0) = ''FLUSHDB'' \<Longrightarrow> cmdFlushDB argv s = mutRun ev argv s"
  by (simp add: cmdFlushDB_def mut_defs)

lemma rename_run:
  "upperASCII (argv ! 0) = ''RENAME'' \<Longrightarrow> cmdRename ev argv s = mutRun ev argv s"
  "upperASCII (argv ! 0) = ''RENAMENX'' \<Longrightarrow> cmdRenameNX ev argv s = mutRun ev argv s"
  "upperASCII (argv ! 0) = ''COPY'' \<Longrightarrow> cmdCopy ev argv s = mutRun ev argv s"
  by (cases "copyOptions (drop 3 argv) False"; simp add: cmdRename_def cmdRenameNX_def cmdCopy_def mut_defs split: sum.splits)+

lemma expire_run:
  "upperASCII (argv ! 0) = ''EXPIRE'' \<Longrightarrow> cmdExpire ev argv s = mutRun ev argv s"
  "upperASCII (argv ! 0) = ''PEXPIRE'' \<Longrightarrow> cmdPExpire ev argv s = mutRun ev argv s"
  "upperASCII (argv ! 0) = ''PEXPIREAT'' \<Longrightarrow> cmdPExpireAt ev argv s = mutRun ev argv s"
  "upperASCII (argv ! 0) = ''PERSIST'' \<Longrightarrow> cmdPersist ev argv s = mutRun ev argv s"
  by (cases "parseInt (argv ! 2)";
      simp add: cmdExpire_def cmdPExpire_def cmdPExpireAt_def cmdPersist_def setExpiry_def applyExpire_def mut_defs)+

lemma list_run:
  "upperASCII (argv ! 0) = ''LPUSH'' \<Longrightarrow> cmdLPush ev argv s = mutRun ev argv s"
  "upperASCII (argv ! 0) = ''RPUSH'' \<Longrightarrow> cmdRPush ev argv s = mutRun ev argv s"
  "upperASCII (argv ! 0) = ''LPOP'' \<Longrightarrow> cmdLPop ev argv s = mutRun ev argv s"
  "upperASCII (argv ! 0) = ''RPOP'' \<Longrightarrow> cmdRPop ev argv s = mutRun ev argv s"
  by (simp_all add: cmdLPush_def cmdRPush_def cmdLPop_def cmdRPop_def pushCmd_def popCmd_def bulkOrNull_def mut_defs
      split: sum.splits option.splits)

lemma hash_run:
  "upperASCII (argv ! 0) = ''HSET'' \<Longrightarrow> cmdHSet ev argv s = mutRun ev argv s"
  "upperASCII (argv ! 0) = ''HDEL'' \<Longrightarrow> cmdHDel ev argv s = mutRun ev argv s"
  by (simp_all add: cmdHSet_def cmdHDel_def mut_defs split: sum.splits)

lemmas runs = set_run del_run incr_run flush_run rename_run expire_run list_run hash_run

text \<open>The table, as a case distinction on the command name.\<close>

lemma command_mem: "map_of commands name = Some h \<Longrightarrow> (name, h) \<in> set commands"
  by (rule map_of_SomeD)

lemma mut_handler:
  assumes "map_of commands (upperASCII (argv ! 0)) = Some h" and "h_mutating h"
  shows "h_fn h ev cs argv s = (let (r, s') = mutRun ev argv s in Some (r, cs, s'))"
  using command_mem [OF assms(1)] assms(2) unfolding commands_def list.set
  by (elim insertE emptyE; simp add: mkHandler_def onServer_def runs flush_run [where ev = ev])

text \<open>A command that is not mutating leaves the log and the configuration alone; of the store
  it may at most evict the expired key a GET meets.\<close>

definition onlyEvicts :: "env \<Rightarrow> bytes list \<Rightarrow> server \<Rightarrow> server \<Rightarrow> bool" where
  "onlyEvicts ev argv s s' \<longleftrightarrow>
     s' = s \<or> s' = s\<lparr>sv_rewriteInFlight := True\<rparr> \<or> s' = setStore (snd (Store_Get (ev_storeNow ev) (argv ! 1) (sv_store s))) s"

lemma reads:
  "onRead f ev cs argv s = Some (r, cs', s') \<Longrightarrow> onlyEvicts ev argv s s'"
  "onConn f2 ev cs argv s = Some (r, cs', s') \<Longrightarrow> onlyEvicts ev argv s s'"
  "onWait ev cs argv s = Some (r, cs', s') \<Longrightarrow> onlyEvicts ev argv s s'"
  "onServer cmdGet ev cs argv s = Some (r, cs', s') \<Longrightarrow> onlyEvicts ev argv s s'"
  "onServer (\<lambda>ev argv. cmdBGRewriteAOF) ev cs argv s = Some (r, cs', s') \<Longrightarrow> onlyEvicts ev argv s s'"
  by (auto simp: onRead_def onConn_def onWait_def onServer_def cmdGet_def cmdBGRewriteAOF_def onlyEvicts_def
      case_prod_beta Let_def split: if_splits)

lemma read_handler:
  assumes "map_of commands (upperASCII (argv ! 0)) = Some h" and "\<not> h_mutating h" and "h_fn h ev cs argv s = Some (r, cs', s')"
  shows "onlyEvicts ev argv s s'"
  using command_mem [OF assms(1)] assms(2,3) unfolding commands_def list.set
  by (elim insertE emptyE; simp add: mkHandler_def; blast dest: reads)

text \<open>Only BGREWRITEAOF raises the flag of a rewrite in flight.\<close>

lemma read_no_rewrite:
  assumes "map_of commands (upperASCII (argv ! 0)) = Some h" and "\<not> h_mutating h" and "h_fn h ev cs argv s = Some (r, cs', s')"
    and "upperASCII (argv ! 0) \<noteq> ''BGREWRITEAOF''"
  shows "sv_rewriteInFlight s' = sv_rewriteInFlight s"
  using command_mem [OF assms(1)] assms(2-4) unfolding commands_def list.set
  by (elim insertE emptyE; auto simp: mkHandler_def onRead_def onConn_def onWait_def onServer_def cmdGet_def
      case_prod_beta Let_def split: if_splits)

lemma mut_conn:
  assumes "map_of commands (upperASCII (argv ! 0)) = Some h" and "h_readKeyed h" and "h_fn h ev cs argv s = Some (r, cs', s')"
  shows "cs' = cs"
  using command_mem [OF assms(1)] assms(2,3) unfolding commands_def list.set
  by (elim insertE emptyE; simp add: mkHandler_def onServer_def onRead_def case_prod_beta Let_def)

section \<open>The dispatcher\<close>

text \<open>Running a command locally: standalone, or on the apply and replay paths.\<close>

definition local_run :: "connState \<Rightarrow> server \<Rightarrow> bool" where
  "local_run cs s \<longleftrightarrow> cs_authenticated cs \<and> (\<not> sv_replicated s \<or> cs_applying cs)"

definition arity_ok :: "handler \<Rightarrow> bytes list \<Rightarrow> bool" where
  "arity_ok h argv \<longleftrightarrow> h_minArgs h \<le> int (length argv) \<and> (h_maxArgs h \<ge> 0 \<longrightarrow> int (length argv) \<le> h_maxArgs h)"

lemma dispatch_local:
  assumes "local_run cs s" and "argv \<noteq> []" and "map_of commands (upperASCII (argv ! 0)) = Some h" and "arity_ok h argv"
  shows "dispatch pr ev cs argv s = h_fn h ev cs argv s"
  using assms by (auto simp: dispatch_def local_run_def arity_ok_def Let_def)

lemma dispatch_cases:
  assumes "dispatch pr ev cs argv s = Some (r, cs', s')"
  obtains (refused) "s' = s" "cs' = cs" "isError r"
  | (proposed) h p where "map_of commands (upperASCII (argv ! 0)) = Some h" "h_mutating h" "sv_replicated s" "\<not> cs_applying cs"
      "arity_ok h argv" "cs' = cs" "pr (resolveNondeterministic (ev_now ev) argv) s = (p, s')"
  | (ran) h where "map_of commands (upperASCII (argv ! 0)) = Some h" "arity_ok h argv" "argv \<noteq> []"
      "h_fn h ev cs argv s = Some (r, cs', s')"
proof (cases "argv = [] \<or> map_of commands (upperASCII (argv ! 0)) = None \<or>
    (\<not> cs_authenticated cs \<and> upperASCII (argv ! 0) \<noteq> ''AUTH'' \<and> upperASCII (argv ! 0) \<noteq> ''HELLO'' \<and> upperASCII (argv ! 0) \<noteq> ''PING'')")
  case True
  then show ?thesis using assms refused by (auto simp: dispatch_def Let_def isError_def split: if_splits)
next
  case False
  then obtain h where h: "map_of commands (upperASCII (argv ! 0)) = Some h" by auto
  have d: "dispatch pr ev cs argv s =
      (if \<not> arity_ok h argv
       then Some (RError (''ERR wrong number of arguments for '' @ quoted (lowerASCII (argv ! 0))), cs, s)
       else if sv_replicated s \<and> h_mutating h \<and> \<not> cs_applying cs
       then (case pr (resolveNondeterministic (ev_now ev) argv) s of
               (PReply reply, s') \<Rightarrow> Some (reply, cs, s')
             | (PNotLeader hint, s') \<Rightarrow> Some (notLeaderReply ev hint, cs, s')
             | (PFailed e, s') \<Rightarrow> Some (RError (''ERR replication failed: '' @ e), cs, s'))
       else if sv_replicated s \<and> h_readKeyed h \<and> \<not> cs_applying cs \<and> \<not> cs_readonly cs \<and> \<not> cst_leader (ev_cluster ev)
       then Some (notLeaderReply ev (cst_hint (ev_cluster ev)), cs, s)
       else h_fn h ev cs argv s)"
    using False h by (auto simp: dispatch_def arity_ok_def)
  show ?thesis
  proof (cases "arity_ok h argv \<and> sv_replicated s \<and> h_mutating h \<and> \<not> cs_applying cs")
    case True
    obtain p s1 where p: "pr (resolveNondeterministic (ev_now ev) argv) s = (p, s1)" by fastforce
    have "cs' = cs" "s' = s1" using assms d True p by (cases p; simp)+
    then show ?thesis using proposed h True p by blast
  next
    case no: False
    show ?thesis
    proof (cases "\<not> arity_ok h argv \<or>
        (sv_replicated s \<and> h_readKeyed h \<and> \<not> cs_applying cs \<and> \<not> cs_readonly cs \<and> \<not> cst_leader (ev_cluster ev))")
      case True
      then show ?thesis using assms d no refused by (auto simp: isError_def notLeaderReply_def split: if_splits)
    next
      case last: False
      have "h_fn h ev cs argv s = Some (r, cs', s')" using assms d no last by (auto split: if_splits)
      then show ?thesis using ran h last False by blast
    qed
  qed
qed

lemma mem_nth: "argv ! i = x \<Longrightarrow> i < length argv \<Longrightarrow> x \<in> set argv"
  by auto

lemma hello_auth_isolated:
  assumes "\<not> cs_authenticated cs"
  shows "cmdAuth (setStore st s) argv cs = cmdAuth s argv cs" "cmdHello (setStore st s) argv cs = cmdHello s argv cs"
    and "2 \<le> length argv \<Longrightarrow> cmdAuth s argv cs = (r, cs') \<Longrightarrow> cs_authenticated cs' \<Longrightarrow>
      sv_requirePass s \<noteq> [] \<and> sv_requirePass s \<in> set argv"
    and "cmdHello s argv cs = (r, cs') \<Longrightarrow> cs_authenticated cs' \<Longrightarrow> sv_requirePass s \<noteq> [] \<and> sv_requirePass s \<in> set argv"
  using assms
  by (auto simp: cmdAuth_def cmdHello_def authenticate_def Let_def split: if_splits option.splits)
     (use mem_nth [of argv 1 "sv_requirePass s"] mem_nth [of argv 2 "sv_requirePass s"] mem_nth [of argv 4 "sv_requirePass s"] in simp_all)

text \<open>
  Claim C20. A connection that has not authenticated can neither change the server nor learn
  anything about its data: the server is left as it is, the reply and the connection state
  would be the same for any other keyspace, and the connection becomes authenticated only by
  a command that carries the configured password.\<close>

theorem unauthenticated_isolated:
  assumes "\<not> cs_authenticated cs" and "dispatch pr ev cs argv s = Some (r, cs', s')"
  shows "s' = s \<and> dispatch pr ev cs argv (setStore st s) = Some (r, cs', setStore st s) \<and>
     (cs_authenticated cs' \<longrightarrow> sv_requirePass s \<noteq> [] \<and> sv_requirePass s \<in> set argv)"
proof (cases "argv = [] \<or> upperASCII (argv ! 0) \<notin> {''AUTH'', ''HELLO'', ''PING''}")
  case True
  then show ?thesis using assms by (auto simp: dispatch_def Let_def)
next
  case False
  note h = hello_auth_isolated(1,2) [OF assms(1), where s = s and st = st and argv = argv]
    hello_auth_isolated(3,4) [OF assms(1), where s = s and argv = argv and r = r and cs' = cs']
  from False consider "upperASCII (argv ! 0) = ''AUTH''" | "upperASCII (argv ! 0) = ''HELLO''" | "upperASCII (argv ! 0) = ''PING''"
    by auto
  then show ?thesis
  proof cases
    case 1
    then show ?thesis using assms False h
      by (simp add: dispatch_def commands_def mkHandler_def onConn_def Let_def case_prod_beta split: if_splits) auto
  next
    case 2
    then show ?thesis using assms False h
      by (simp add: dispatch_def commands_def mkHandler_def onConn_def Let_def case_prod_beta split: if_splits) auto
  next
    case 3
    then show ?thesis using assms False
      by (auto simp: dispatch_def commands_def mkHandler_def onRead_def Let_def split: if_splits)
  qed
qed

text \<open>A standalone server with a password and a clock at \<open>t\<close>, for the examples.\<close>

definition demoEnv :: "time \<Rightarrow> env" where
  "demoEnv t =
     \<lparr>ev_now = t, ev_storeNow = t, ev_order = id, ev_aofSize = None,
      ev_cluster = \<lparr>cst_leader = False, cst_hint = [], cst_addr = [], cst_commit = 0, cst_apply = 0, cst_match = []\<rparr>,
      ev_wait = []\<rparr>"

definition demoServer :: "aofWriter option \<Rightarrow> world \<Rightarrow> server" where
  "demoServer aw w =
     \<lparr>sv_store = NewStore, sv_aof = aw, sv_world = w, sv_requirePass = ''pw'', sv_fsyncPolicy = FsyncAlways,
      sv_addr = ''127.0.0.1:6390'', sv_startTime = 0, sv_clientCount = 1, sv_replayRecords = 0, sv_replayBytes = 0,
      sv_rewriteInFlight = False, sv_replicated = False, sv_nodeID = [], sv_cfgNodeID = [], sv_peers = []\<rparr>"

definition noPropose :: propose where
  "noPropose argv s = (PFailed ''no cluster'', s)"

definition otherStore :: store where
  "otherStore = snd (store_exec 1 (OSet ''k'' ''v'' SetAlways zeroTime) NewStore)"

theorem unauthenticated_isolated_witness:
  "dispatch noPropose (demoEnv 5) (newConnState 1 False) [''AUTH'', ''no''] (setStore otherStore (demoServer None demoWorld)) =
     Some (RError errWrongPass, newConnState 1 False, setStore otherStore (demoServer None demoWorld))"
proof -
  have "dispatch noPropose (demoEnv 5) (newConnState 1 False) [''AUTH'', ''no''] (demoServer None demoWorld) =
      Some (RError errWrongPass, newConnState 1 False, demoServer None demoWorld)"
    by (simp add: dispatch_def commands_def mkHandler_def onConn_def cmdAuth_def authenticate_def newConnState_def demoServer_def)
  from unauthenticated_isolated [OF _ this, of otherStore] show ?thesis by (simp add: newConnState_def)
qed

section \<open>What is logged\<close>

lemma store_exec_ok:
  assumes "store_ok st" and "args_ok op" and "store_exec now op st = (rp, st')" and "\<not> copies_hash op (view st now)"
  shows "store_ok st'" and "spec now op (view st now) = (rp, db') \<Longrightarrow> now \<le> t \<Longrightarrow> view st' t = live t db'"
    and "rp = fst (spec now op (view st now))"
proof -
  have l: "legalOp op (view st now)" using assms(2,4) by (simp add: legalOp_def)
  show "store_ok st'" "rp = fst (spec now op (view st now))"
    using keyspace.exec_inv [OF assms(1) l] keyspace.exec_reply [OF assms(1) l] assms(3) by simp_all
  show "spec now op (view st now) = (rp, db') \<Longrightarrow> now \<le> t \<Longrightarrow> view st' t = live t db'"
    using keyspace.exec_later [OF assms(1) l] assms(3) by fastforce
qed

lemma view_get:
  assumes "store_ok st" and "now \<le> t"
  shows "view (snd (Store_Get now k st)) t = view st t" and "store_ok (snd (Store_Get now k st))"
proof -
  obtain rp st' where e: "store_exec now (OGet k) st = (rp, st')" by fastforce
  then have st': "st' = snd (Store_Get now k st)" by (cases "Store_Get now k st") simp
  have sp: "spec now (OGet k) (view st now) = (rp, view st now)"
    using store_exec_ok(3) [OF assms(1) _ e] by (auto split: option.splits prod.splits aval.splits)
  show "view (snd (Store_Get now k st)) t = view st t"
    using store_exec_ok(2) [OF assms(1) _ e _ sp assms(2)] view_later [OF assms(2), of st] st' by simp
  show "store_ok (snd (Store_Get now k st))" using store_exec_ok(1) [OF assms(1) _ e] st' by simp
qed

text \<open>
  Claim C23. The \<open>mutating\<close> flag of the command table is exact in the direction replication and
  persistence rely on: on a well-formed store, a command that is not flagged leaves the log, the disk
  and, from the instant it reads the clock on, the abstract keyspace as they are, also on a cluster
  node, and starts no rewrite. BGREWRITEAOF is excepted: it is not flagged and starts \<^verbatim>\<open>runRewrite\<close>,
  which replaces the log.\<close>

theorem unflagged_commands_read_only:
  assumes "store_ok (sv_store s)" and "dispatch pr ev cs argv s = Some (r, cs', s')"
    and "\<forall>h. map_of commands (upperASCII (argv ! 0)) = Some h \<longrightarrow> \<not> h_mutating h"
    and "upperASCII (argv ! 0) \<noteq> ''BGREWRITEAOF''"
  shows "sv_aof s' = sv_aof s \<and> sv_world s' = sv_world s \<and> sv_rewriteInFlight s' = sv_rewriteInFlight s \<and>
     store_ok (sv_store s') \<and> (\<forall>t. ev_storeNow ev \<le> t \<longrightarrow> view (sv_store s') t = view (sv_store s) t)"
  using assms(2)
proof (cases rule: dispatch_cases)
  case refused
  then show ?thesis using assms(1) by simp
next
  case (proposed h p)
  then show ?thesis using assms(3) by blast
next
  case (ran h)
  then have "onlyEvicts ev argv s s'" and "sv_rewriteInFlight s' = sv_rewriteInFlight s"
    using read_handler read_no_rewrite assms(3,4) by blast+
  then show ?thesis using assms(1) view_get [OF assms(1)] view_get(2) [OF assms(1) order_refl]
    by (auto simp: onlyEvicts_def)
qed

theorem unflagged_commands_read_only_witness:
  "sv_world (snd (snd (the (dispatch noPropose (demoEnv 9) (newConnState 1 True) [''get'', ''k'']
       (setStore otherStore (demoServer None demoWorld)))))) = demoWorld"
proof -
  let ?s = "setStore otherStore (demoServer None demoWorld)"
  have ok: "store_ok (sv_store ?s)"
    using store_exec_ok(1) [OF store_ok_New(1) _ prod.collapse [symmetric], of "OSet ''k'' ''v'' SetAlways zeroTime" 1]
    by (simp add: otherStore_def)
  have u: "upperASCII ''get'' = ''GET''" by simp
  obtain r cs' s' where d: "dispatch noPropose (demoEnv 9) (newConnState 1 True) [''get'', ''k''] ?s = Some (r, cs', s')"
    using u by (auto simp: dispatch_def commands_def mkHandler_def onServer_def newConnState_def demoServer_def case_prod_beta Let_def)
  have "\<forall>h. map_of commands (upperASCII ([''get'', ''k''] ! 0)) = Some h \<longrightarrow> \<not> h_mutating h"
    by (simp add: commands_def mkHandler_def)
  from unflagged_commands_read_only [OF ok d this] d u show ?thesis by (simp add: demoServer_def)
qed

section \<open>Clock independence\<close>

text \<open>Deadlines reach the log and the cluster in milliseconds.\<close>

definition truncTime :: "time \<Rightarrow> time" where
  "truncTime t = timeUnixMilli (unixMilli t)"

definition truncOp :: "store_op \<Rightarrow> store_op" where
  "truncOp op =
     (case op of
        OSet k v m t \<Rightarrow> OSet k v m (if isZero t then zeroTime else truncTime t)
      | OExpire k t \<Rightarrow> OExpire k (truncTime t)
      | _ \<Rightarrow> op)"

lemma parse_unixMilli [simp]: "parseInt (formatInt (unixMilli t)) = Some (unixMilli t)"
  by (simp add: parseInt_formatInt unixMilli_def int64_wrap64)

lemma truncTime_parsed: "parseInt b = Some ms \<Longrightarrow> truncTime (timeUnixMilli ms) = timeUnixMilli ms"
  using parseInt_range [of b ms] by (simp add: truncTime_def timeUnixMilli_def unixMilli_def Millisecond_def wrap64_id)

text \<open>An error of the SET options does not depend on the clock.\<close>

lemma computeExpireAt_clock:
  "computeExpireAt tok n now = Inl e \<Longrightarrow> computeExpireAt tok n now' = Inl e"
  "computeExpireAt tok n now = Inr at \<Longrightarrow> \<exists>at'. computeExpireAt tok n now' = Inr at'"
  by (auto simp: computeExpireAt_def split: if_splits)

lemma setOptions_error:
  "setOptionsLoop now ts opts m x = Inl e \<Longrightarrow> setOptionsLoop now' ts opts' m x = Inl e"
proof (induction now ts opts m x arbitrary: opts' rule: setOptionsLoop.induct)
  case (2 now t rest opts m x)
  define tok where "tok = upperASCII t"
  consider "tok = ''NX'' \<or> tok = ''XX''" | "tok = ''EX'' \<or> tok = ''PX'' \<or> tok = ''EXAT'' \<or> tok = ''PXAT''"
    | "tok \<notin> {''NX'', ''XX'', ''EX'', ''PX'', ''EXAT'', ''PXAT''}" by auto
  then show ?case
  proof cases
    case 1
    then show ?thesis using "2.IH"(1) [OF tok_def] "2.prems" by (cases m) (simp_all add: flip: tok_def)
  next
    case e: 2
    then have n: "\<not> (tok = ''NX'' \<or> tok = ''XX'')" by auto
    show ?thesis
    proof (cases "\<not> x \<and> rest \<noteq> []")
      case False
      then show ?thesis using e n "2.prems" by (cases x; cases rest; simp flip: tok_def)
    next
      case True
      then obtain v rest' where rest: "rest = v # rest'" by (cases rest) auto
      show ?thesis
      proof (cases "parseInt v")
        case None
        then show ?thesis using e n True rest "2.prems" by (simp flip: tok_def)
      next
        case (Some i)
        show ?thesis
        proof (cases "computeExpireAt tok i now")
          case (Inl e')
          then show ?thesis using e n True rest Some "2.prems" computeExpireAt_clock(1) [OF Inl, of now'] by (simp flip: tok_def)
        next
          case (Inr at)
          obtain at' where "computeExpireAt tok i now' = Inr at'" using computeExpireAt_clock(2) [OF Inr] by blast
          then show ?thesis
            using e n True rest Some Inr "2.prems" "2.IH"(2) [OF tok_def n e _ rest Some Inr] by (simp flip: tok_def)
        qed
      qed
    qed
  next
    case 3
    then show ?thesis using "2.prems" by (simp flip: tok_def)
  qed
qed simp

lemma parseSetOptions_error: "parseSetOptions ts now = Inl e \<Longrightarrow> parseSetOptions ts now' = Inl e"
  unfolding parseSetOptions_def by (rule setOptions_error)

lemma parse_rendered:
  "parseSetOptions ((case m of SetNX \<Rightarrow> [''NX''] | SetXX \<Rightarrow> [''XX''] | SetAlways \<Rightarrow> []) @
     (if isZero t then [] else [''PXAT'', formatInt (unixMilli t)])) now =
   Inr \<lparr>so_Mode = m, so_ExpireAt = (if isZero t then zeroTime else truncTime t)\<rparr>"
  by (cases m) (simp_all add: parseSetOptions_def computeExpireAt_def truncTime_def)

lemma resolve_op:
  "mutOp t (resolveNondeterministic now argv) = (case mutOp now argv of Inl e \<Rightarrow> Inl e | Inr op \<Rightarrow> Inr (truncOp op))"
proof -
  consider "upperASCII (argv ! 0) = ''SET''" | "upperASCII (argv ! 0) = ''EXPIRE''" | "upperASCII (argv ! 0) = ''PEXPIRE''"
    | "upperASCII (argv ! 0) \<notin> {''SET'', ''EXPIRE'', ''PEXPIRE''}" by auto
  then show ?thesis
  proof cases
    case 1
    show ?thesis
    proof (cases "parseSetOptions (drop 3 argv) now")
      case (Inl e)
      then show ?thesis using 1 parseSetOptions_error [OF Inl, of t]
        by (simp add: mutOp_def resolveNondeterministic_def resolveSet_def Let_def)
    next
      case (Inr opts)
      then show ?thesis using 1 parse_rendered [of "so_Mode opts" "so_ExpireAt opts" t]
        by (simp add: mutOp_def resolveNondeterministic_def resolveSet_def Let_def truncOp_def)
    qed
  next
    case 2
    then show ?thesis
      by (cases "parseInt (argv ! 2)")
         (simp_all add: mutOp_def resolveNondeterministic_def resolveRelativeExpire_def Let_def truncOp_def truncTime_def)
  next
    case 3
    then show ?thesis
      by (cases "parseInt (argv ! 2)")
         (simp_all add: mutOp_def resolveNondeterministic_def resolveRelativeExpire_def Let_def truncOp_def truncTime_def)
  next
    case 4
    have id: "resolveNondeterministic now argv = argv" using 4 by (simp add: resolveNondeterministic_def)
    have "mutOp t argv = mutOp now argv" using 4 by (simp add: mutOp_def Let_def)
    moreover have "truncOp op = op" if "mutOp now argv = Inr op" for op
      using that 4 truncTime_parsed
      by (auto simp: mutOp_def truncOp_def Let_def split: if_splits sum.splits option.splits)
    ultimately show ?thesis unfolding id by (cases "mutOp now argv") simp_all
  qed
qed

lemma mut_dispatch:
  assumes "local_run cs s" and "argv \<noteq> []" and "map_of commands (upperASCII (argv ! 0)) = Some h" and "h_mutating h"
    and "arity_ok h argv"
  shows "dispatch pr ev cs argv s = (let (r, s') = mutRun ev argv s in Some (r, cs, s'))"
  using dispatch_local [OF assms(1,2,3,5)] mut_handler [OF assms(3,4)] by simp

lemma mutRun_cong: "mutOp (ev_now ev) argv = mutOp (ev_now ev') argv \<Longrightarrow> ev_storeNow ev = ev_storeNow ev' \<Longrightarrow> mutRun ev argv s = mutRun ev' argv s"
  by (simp add: mutRun_def cong: sum.case_cong)

lemma applying_local: "local_run applyingConn s"
  by (simp add: local_run_def applyingConn_def)

text \<open>A resolved command is again a command of the table with a legal number of arguments.\<close>

lemma resolved_legal:
  assumes "map_of commands (upperASCII (argv ! 0)) = Some h" and "h_mutating h" and "arity_ok h argv" and "argv \<noteq> []"
  shows "resolveNondeterministic now argv \<noteq> [] \<and>
    (\<exists>h'. map_of commands (upperASCII (resolveNondeterministic now argv ! 0)) = Some h' \<and> h_mutating h' \<and>
       arity_ok h' (resolveNondeterministic now argv))"
proof -
  have set: "map_of commands ''SET'' = Some (mkHandler (onServer cmdSet) 3 (-1) True False)" by (simp add: commands_def)
  have pat: "map_of commands ''PEXPIREAT'' = Some (mkHandler (onServer cmdPExpireAt) 3 3 True False)" by (simp add: commands_def)
  show ?thesis
    using assms set pat
    by (auto simp: resolveNondeterministic_def resolveSet_def resolveRelativeExpire_def Let_def arity_ok_def mkHandler_def
        split: sum.splits option.splits)
qed



end
