(* ===== verification/Rebuild.thy ===== *)
theory Rebuild
  imports Logging
begin

text \<open>
  Restart: \<^verbatim>\<open>New\<close> replays the log through the dispatcher. The log of a server that never set a
  deadline rebuilds its keyspace, a rewrite keeps that property when no command falls between
  arming the side buffer and the snapshot, and examples show where it is lost.
\<close>

section \<open>Abstract effect of a logged command\<close>

text \<open>Databases and operations without deadlines.\<close>

definition noTTL :: "db \<Rightarrow> bool" where
  "noTTL db \<longleftrightarrow> (\<forall>k v t. db k = Some (v, t) \<longrightarrow> isZero t)"

definition plainOp :: "store_op \<Rightarrow> bool" where
  "plainOp op = (case op of OSet k v m t \<Rightarrow> isZero t | OExpire k t \<Rightarrow> False | _ \<Rightarrow> True)"

definition full_hashes :: "db \<Rightarrow> bool" where
  "full_hashes db \<longleftrightarrow> (\<forall>k t. db k \<noteq> Some (VHash [], t))"

lemma live_noTTL: "noTTL db \<Longrightarrow> live t db = db"
  by (auto simp: noTTL_def live_def fun_eq_iff split: option.splits)

lemma noTTL_upd: "noTTL db \<Longrightarrow> isZero t \<Longrightarrow> noTTL (db(k \<mapsto> (v, t)))"
  by (simp add: noTTL_def)

lemma noTTL_del: "noTTL db \<Longrightarrow> noTTL (db(k := None))"
  by (simp add: noTTL_def)

lemma noTTLD: "noTTL db \<Longrightarrow> db k = Some (v, t) \<Longrightarrow> isZero t"
  by (simp add: noTTL_def)

lemma isZero_zero [simp]: "isZero zeroTime"
  by (simp add: isZero_def)

lemmas noTTL_intros = noTTL_upd noTTL_del

lemma noTTL_copy: "noTTL db \<Longrightarrow> db a = Some x \<Longrightarrow> noTTL (db(b \<mapsto> x))"
  by (cases x) (simp add: noTTL_def)

lemma noTTL_move: "noTTL db \<Longrightarrow> db a = Some x \<Longrightarrow> noTTL (db(a := None, b \<mapsto> x))"
  by (cases x) (simp add: noTTL_def)

lemma spec_noTTL_simple:
  assumes "noTTL db"
  shows "noTTL (snd (specIncr k d db))" "noTTL (snd (specPush k f db))" "noTTL (snd (specPop k it re db))"
    "noTTL (snd (specHSet k ps db))" "noTTL (snd (specHDel k fs db))"
  using assms
  by (auto simp: specIncr_def specPush_def specPop_def specHSet_def specHDel_def intro!: noTTL_intros dest: noTTLD
      split: option.splits prod.splits aval.splits sum.splits)

lemma spec_noTTL:
  assumes "noTTL db" and "plainOp op"
  shows "noTTL (snd (spec now op db))"
proof (cases op)
  case (OSet k v m t)
  then show ?thesis using assms by (simp add: plainOp_def noTTL_upd)
next
  case (ODel ks)
  then show ?thesis using assms by (simp add: noTTL_def)
next
  case (OPersist k)
  then show ?thesis using assms by (auto intro!: noTTL_upd split: option.splits)
next
  case (ORename a b)
  then show ?thesis using assms noTTL_move by (auto split: option.splits)
next
  case (ORenameNX a b)
  then show ?thesis using assms noTTL_move by (auto split: option.splits)
next
  case (OCopy a b r)
  then show ?thesis using assms noTTL_copy by (auto split: option.splits)
qed (use assms spec_noTTL_simple [OF assms(1)] in \<open>auto simp: plainOp_def noTTL_def split: option.splits prod.splits aval.splits\<close>)

lemma view_full: "store_ok st \<Longrightarrow> full_hashes (view st t)"
proof -
  assume ok: "store_ok st"
  have "hashPairs (st_heap st) e \<noteq> []" if "lookup st k = Some e" "e_typ e = typeHash" for k e
    using store_okD(3) [OF ok that(1)] that(2) hash_pairs_ne [of "st_heap st" e] by (simp add: entry_ok_def)
  then show ?thesis
    by (auto simp: full_hashes_def view_def avalOf_def split: option.splits if_splits valueType.splits)
qed

lemma filter_full: "length (filter P xs) = length xs \<Longrightarrow> filter P xs = xs"
  by (metis filter_True length_filter_less less_irrefl)

lemma hdel_unchanged: "length (hdelFields fs m) = length m \<Longrightarrow> hdelFields fs m = m"
proof -
  have le: "length (hdelFields gs n) \<le> length n" for gs n
    by (induction gs arbitrary: n) (auto simp: hdelFields_def AList.delete_eq intro: le_trans length_filter_le)
  show "length (hdelFields fs m) = length m \<Longrightarrow> hdelFields fs m = m"
  proof (induction fs arbitrary: m)
    case (Cons f fs)
    have "length (hdelFields fs (AList.delete f m)) \<le> length (AList.delete f m)" by (rule le)
    moreover have "length (AList.delete f m) \<le> length m" by (simp add: AList.delete_eq)
    ultimately have "length (AList.delete f m) = length m" "length (hdelFields fs (AList.delete f m)) = length (AList.delete f m)"
      using Cons.prems by (simp_all add: hdelFields_Cons)
    moreover then have "AList.delete f m = m" by (simp add: AList.delete_eq filter_full)
    ultimately show ?case using Cons.IH by (simp add: hdelFields_Cons)
  qed (simp add: hdelFields_def)
qed

text \<open>An operation without effect on the log has none on the keyspace.\<close>

lemma spec_noEffect:
  assumes "spec now op db = (rp, db')" and "\<not> mutEffect op rp" and "full_hashes db"
  shows "db' = db"
proof (cases op)
  case (ODel ks)
  have "rp = RpInt (int (card {k \<in> set ks. db k \<noteq> None}))" using assms(1) ODel by auto
  then have "card {k \<in> set ks. db k \<noteq> None} = 0" using assms(2) ODel by (simp add: mutEffect_def)
  then have "{k \<in> set ks. db k \<noteq> None} = {}" by (subst (asm) card_0_eq) simp_all
  then have "\<forall>k \<in> set ks. db k = None" by blast
  then have "(\<lambda>k. if k \<in> set ks then None else db k) = db" by (auto simp: fun_eq_iff)
  then show ?thesis using assms(1) ODel by simp
next
  case (OHDel k fs)
  have "hdelFields fs m = m \<and> m \<noteq> []" if "db k = Some (VHash m, t)" for m t
  proof -
    have le: "length (hdelFields fs m) \<le> length m"
      by (induction fs arbitrary: m) (auto simp: hdelFields_def AList.delete_eq intro: le_trans length_filter_le)
    show ?thesis using assms that OHDel hdel_unchanged [of fs m] le by (auto simp: specHDel_def mutEffect_def full_hashes_def)
  qed
  then show ?thesis using assms OHDel by (auto simp: specHDel_def fun_upd_idem split: option.splits prod.splits aval.splits)
qed (use assms in \<open>auto simp: mutEffect_def specIncr_def specPush_def specPop_def specHSet_def
      split: option.splits prod.splits aval.splits sum.splits if_splits\<close>)

text \<open>The operation its log record stands for: a SET whose condition held is unconditional.\<close>

definition replayOp :: "store_op \<Rightarrow> store_op" where
  "replayOp op = (case op of OSet k v m t \<Rightarrow> OSet k v SetAlways t | _ \<Rightarrow> op)"

lemma spec_clock: "\<forall>k. op \<noteq> OTTL k \<Longrightarrow> spec now' op db = spec now op db"
  by (cases op) simp_all

lemma effect_no_error: "mutEffect op rp \<Longrightarrow> \<not> isError (mutReply op' rp)"
  by (cases rp) (auto simp: mutEffect_def mutReply_def isError_def bulkOrNull_def ROK_def bulks_def split: store_op.splits option.splits)

lemma spec_replayOp:
  assumes "spec now op db = (rp, db')" and "mutEffect op rp" and "\<forall>k. op \<noteq> OTTL k"
  shows "spec now' (replayOp op) db = (rp, db')"
proof (cases "\<exists>k v m t. op = OSet k v m t")
  case True
  then show ?thesis using assms(1,2) by (auto simp: replayOp_def mutEffect_def split: if_splits)
next
  case False
  then have "replayOp op = op" by (cases op) (simp_all add: replayOp_def)
  then show ?thesis using assms(1) spec_clock [OF assms(3), of now' db now] by simp
qed

section \<open>Log records\<close>

text \<open>A legal log record: a mutating command of the table with a legal number of arguments that the reader accepts.\<close>

definition legal :: "bytes list \<Rightarrow> bool" where
  "legal c \<longleftrightarrow> command_ok c \<and> (\<exists>h. map_of commands (upperASCII (c ! 0)) = Some h \<and> h_mutating h \<and> arity_ok h c)"

lemma legal_dispatch:
  assumes "legal c" and "local_run cs s"
  shows "dispatch pr ev cs c s = (let (r, s') = mutRun ev c s in Some (r, cs, s'))"
proof -
  obtain h where "c \<noteq> []" "map_of commands (upperASCII (c ! 0)) = Some h" "h_mutating h" "arity_ok h c"
    using assms(1) by (auto simp: legal_def command_ok_def)
  then show ?thesis using mut_dispatch [OF assms(2)] by blast
qed

text \<open>Arity gives every push a value and every HSET a pair.\<close>

lemma legal_args:
  assumes "legal c" and "mutOp now c = Inr op"
  shows "args_ok op" and "\<forall>k. op \<noteq> OTTL k"
proof -
  obtain h where "map_of commands (upperASCII (c ! 0)) = Some h" "h_mutating h" "arity_ok h c"
    using assms(1) by (auto simp: legal_def)
  note h = command_mem [OF this(1)] this(2,3)
  show "args_ok op"
    using h assms(2) unfolding commands_def list.set
    by (elim insertE emptyE; simp add: mkHandler_def arity_ok_def; 
        auto simp: mutOp_def Let_def split: sum.splits option.splits if_splits)
  show "\<forall>k. op \<noteq> OTTL k"
    using assms(2) by (auto simp: mutOp_def Let_def split: sum.splits option.splits if_splits)
qed

text \<open>The record of an operation without a deadline is legal and stands for \<^const>\<open>replayOp\<close> at any time.\<close>

definition legalRec :: "bytes list \<Rightarrow> bool" where
  "legalRec c \<longleftrightarrow> legal c \<and> (\<forall>t. mutOp t c = mutOp 0 c)"

lemma mutOp_names:
  assumes "mutOp now c = Inr op"
  shows "upperASCII (c ! 0) = ''SET'' \<Longrightarrow> \<exists>opts::SetOpts. op = OSet (c ! 1) (c ! 2) (so_Mode opts) (so_ExpireAt opts)"
    and "upperASCII (c ! 0) = ''EXPIRE'' \<or> upperASCII (c ! 0) = ''PEXPIRE'' \<Longrightarrow> \<exists>k t. op = OExpire k t"
    and "upperASCII (c ! 0) \<noteq> ''SET'' \<Longrightarrow> op = OSet k v m t \<Longrightarrow> False"
  using assms by (auto simp: mutOp_def Let_def split: sum.splits option.splits if_splits)

lemma logForm_legal:
  assumes c: "legal c" and op: "mutOp now c = Inr op" and pl: "plainOp op"
  shows "legalRec (logForm c op)" and "mutOp 0 (logForm c op) = Inr (replayOp op)"
proof -
  have "legalRec (logForm c op) \<and> mutOp 0 (logForm c op) = Inr (replayOp op)"
  proof (cases "upperASCII (c ! 0) = ''SET''")
    case True
    obtain opts :: SetOpts where o: "op = OSet (c ! 1) (c ! 2) (so_Mode opts) (so_ExpireAt opts)" using mutOp_names(1) [OF op True] by blast
    have z: "so_ExpireAt opts = zeroTime" using pl o by (simp add: plainOp_def isZero_def)
    have f: "logForm c op = [''SET'', c ! 1, c ! 2]" using o z by (simp add: logForm_def renderCanonicalSet_def)
    have "map_of commands ''SET'' = Some (mkHandler (onServer cmdSet) 3 (-1) True False)" by (simp add: commands_def)
    moreover have "3 \<le> length c" using c True \<open>map_of commands ''SET'' = _\<close> by (auto simp: legal_def arity_ok_def mkHandler_def)
    moreover then have "c ! 1 \<in> set c" "c ! 2 \<in> set c" by simp_all
    ultimately have "legal (logForm c op)"
      using c by (auto simp: f legal_def arity_ok_def mkHandler_def command_ok_def MaxArrayLen_def MaxBulkSize_def)
    moreover have "mutOp t (logForm c op) = Inr (replayOp op)" for t
      unfolding f using parse_rendered [of SetAlways zeroTime t] by (simp add: o z mutOp_def replayOp_def)
    ultimately show ?thesis by (simp add: legalRec_def)
  next
    case False
    then have n: "upperASCII (c ! 0) \<notin> {''SET'', ''EXPIRE'', ''PEXPIRE''}"
      using mutOp_names(2) [OF op] pl by (auto simp: plainOp_def)
    have id: "logForm c op = c" "replayOp op = op"
      using pl mutOp_names(3) [OF op False] by (cases op; simp add: logForm_def replayOp_def plainOp_def)+
    have "mutOp t c = mutOp now c" for t using n by (simp add: mutOp_def Let_def)
    then show ?thesis using c op id by (simp add: legalRec_def)
  qed
  then show "legalRec (logForm c op)" "mutOp 0 (logForm c op) = Inr (replayOp op)" by blast+
qed

section \<open>The abstract effect of a log\<close>

definition applyDB :: "bytes list \<Rightarrow> db \<Rightarrow> db option" where
  "applyDB c db =
     (case mutOp 0 c of
        Inl _ \<Rightarrow> None
      | Inr op \<Rightarrow>
          (let (rp, db') = spec 0 op db
           in if mutEffect op rp \<and> plainOp op \<and> \<not> copies_hash op db then Some db' else None))"

text \<open>The store represents a keyspace without deadlines from an instant on.\<close>

definition represents :: "time \<Rightarrow> db \<Rightarrow> store \<Rightarrow> bool" where
  "represents T db st \<longleftrightarrow> store_ok st \<and> noTTL db \<and> (\<forall>t. T \<le> t \<longrightarrow> view st t = db)"

lemma represents_exec:
  assumes "represents T db st" and "T \<le> now" and "args_ok op" and "plainOp op" and "\<not> copies_hash op db"
    and "store_exec now op st = (rp, st')"
  shows "spec now op db = (rp, snd (spec now op db))" and "represents now (snd (spec now op db)) st'"
proof -
  have v: "view st now = db" and ok: "store_ok st" and n: "noTTL db" using assms(1,2) by (auto simp: represents_def)
  show sp: "spec now op db = (rp, snd (spec now op db))"
    using store_exec_ok(3) [OF ok assms(3,6)] assms(5) v by simp
  have n': "noTTL (snd (spec now op db))" by (rule spec_noTTL [OF n assms(4)])
  show "represents now (snd (spec now op db)) st'"
    using store_exec_ok(1,2) [OF ok assms(3,6)] assms(5) v sp n' live_noTTL [OF n'] by (simp add: represents_def)
qed

section \<open>Replay\<close>

text \<open>
  The handler \<^verbatim>\<open>New\<close> passes to \<^verbatim>\<open>aof.Replay\<close>; \<open>envs n\<close> is what the \<open>n\<close>-th record reads from outside.
  No command blocks here: WAIT returns at once outside a cluster.
\<close>

definition replayHandler :: "propose \<Rightarrow> (nat \<Rightarrow> env) \<Rightarrow> bytes list \<Rightarrow> server \<times> nat \<Rightarrow> string option \<times> server \<times> nat" where
  "replayHandler pr envs argv = (\<lambda>(s, n).
     case replayApply pr (envs n) argv s of
       None \<Rightarrow> (Some ''blocked'', s, n)
     | Some (err, s') \<Rightarrow> (err, s', n + 1))"

lemma appendReply_replay: "sv_aof s = None \<Longrightarrow> appendReply c r s = (r, s)"
  by (simp add: appendReply_def appendIfLive_def)

lemma replay_step:
  assumes "represents T db (sv_store s)" and "sv_aof s = None" and "legalRec c" and "applyDB c db = Some db'"
    and "T \<le> ev_storeNow (envs n)"
  shows "\<exists>s'. replayHandler pr envs c (s, n) = (None, s', n + 1) \<and> sv_aof s' = None \<and>
    represents (ev_storeNow (envs n)) db' (sv_store s')"
proof -
  obtain op rp where op: "mutOp 0 c = Inr op" "spec 0 op db = (rp, db')" "mutEffect op rp" "plainOp op" "\<not> copies_hash op db"
    using assms(4) by (auto simp: applyDB_def split: sum.splits prod.splits if_splits)
  have leg: "legal c" and op': "mutOp (ev_now (envs n)) c = Inr op" using assms(3) op(1) by (auto simp: legalRec_def)
  note args = legal_args [OF leg op']
  let ?now = "ev_storeNow (envs n)"
  obtain rp' st where e: "store_exec ?now op (sv_store s) = (rp', st)" by fastforce
  note r = represents_exec [OF assms(1,5) args(1) op(4,5) e]
  have rp: "rp' = rp" "snd (spec ?now op db) = db'" using r(1) op(2) spec_clock [OF args(2), of ?now db 0] by simp_all
  have run: "mutRun (envs n) c s = (mutReply op rp, setStore st s)"
    using op' e rp(1) op(3) assms(2) by (simp add: mutRun_def appendReply_replay)
  have ne: "\<not> isError (mutReply op rp)" by (rule effect_no_error [OF op(3)])
  have "replayApply pr (envs n) c s = Some (None, setStore st s)"
    using legal_dispatch [OF leg applying_local] run ne
    by (simp add: replayApply_def isError_def split: resp_value.splits)
  then show ?thesis using r(2) rp(2) assms(2) by (simp add: replayHandler_def)
qed

section \<open>The live server\<close>

text \<open>A server whose log is file \<open>i\<close> with the records \<open>cmds\<close>, all system calls succeeding.\<close>

definition logging :: "nat \<Rightarrow> bytes list list \<Rightarrow> server \<Rightarrow> bool" where
  "logging i cmds s \<longleftrightarrow>
     (\<exists>aw. sv_aof s = Some aw \<and> aw_f aw = Some i \<and> \<not> aw_bufErr aw \<and> aw_sideBuf aw = None) \<and>
     wd_env (sv_world s) = [] \<and> i < length (dk_files (wd_disk (sv_world s))) \<and>
     dk_canon (wd_disk (sv_world s)) = Some i \<and> dk_tmp (wd_disk (sv_world s)) = None \<and>
     in_data (dk_files (wd_disk (sv_world s)) ! i) = headerBytes @ recs cmds"

lemma append_logging:
  assumes "logging i cmds s" and "c \<noteq> []"
  shows "\<exists>s'. appendReply c r s = (r, s') \<and> logging i (cmds @ [c]) s' \<and> sv_store s' = sv_store s \<and>
    sv_replicated s' = sv_replicated s"
proof -
  obtain aw where aw: "sv_aof s = Some aw" "aw_f aw = Some i" "\<not> aw_bufErr aw" "aw_sideBuf aw = None"
    using assms(1) by (auto simp: logging_def)
  obtain e aw' w' where ap: "aofAppend c aw (sv_world s) = ((e, aw'), w')" by (metis prod.collapse)
  have i: "i < length (dk_files (wd_disk (sv_world s)))" using assms(1) by (simp add: logging_def)
  note k = aofAppend_cases [OF aw(2) i aw(3) assms(2) ap]
  have "appendReply c r s = (r, s\<lparr>sv_aof := Some aw', sv_world := w'\<rparr>)"
    using aw(1) ap k assms(1) by (simp add: appendReply_def appendIfLive_def logging_def)
  moreover have "logging i (cmds @ [c]) (s\<lparr>sv_aof := Some aw', sv_world := w'\<rparr>)"
    using assms(1) k aw(4) by (auto simp: logging_def same_but_def)
  ultimately show ?thesis by simp
qed

text \<open>A log rebuilds a keyspace: replayed on an empty server at any times, it succeeds and leaves that keyspace.\<close>

definition rebuilds :: "bytes list list \<Rightarrow> db \<Rightarrow> bool" where
  "rebuilds cmds db \<longleftrightarrow> (\<forall>c \<in> set cmds. command_ok c) \<and>
     (\<forall>pr envs s. sv_store s = NewStore \<longrightarrow> sv_aof s = None \<longrightarrow> (\<forall>m. ev_storeNow (envs m) \<le> ev_storeNow (envs (Suc m))) \<longrightarrow>
        (\<exists>s'. applyAll (replayHandler pr envs) cmds (s, 0) = (None, length cmds, s', length cmds) \<and> sv_aof s' = None \<and>
           represents (ev_storeNow (envs (length cmds))) db (sv_store s')))"

lemma rebuilds_Nil: "rebuilds [] Map.empty"
  by (simp add: rebuilds_def represents_def store_ok_New noTTL_def)

lemma applyAll_append:
  "applyAll ap (xs @ ys) st =
     (case applyAll ap xs st of
        (Some e, k, st') \<Rightarrow> (Some e, k, st')
      | (None, k, st') \<Rightarrow> (let (r, n, st'') = applyAll ap ys st' in (r, k + n, st'')))"
  by (induction xs arbitrary: st) (simp_all add: case_prod_beta Let_def split: option.splits prod.splits)

lemma represents_later: "represents T db st \<Longrightarrow> T \<le> U \<Longrightarrow> represents U db st"
  by (auto simp: represents_def)

lemma rebuilds_snoc:
  assumes "rebuilds cmds db" and "legalRec c" and "applyDB c db = Some db'"
  shows "rebuilds (cmds @ [c]) db'"
  unfolding rebuilds_def
proof (intro conjI allI impI)
  show "\<forall>d \<in> set (cmds @ [c]). command_ok d" using assms(1,2) by (auto simp: rebuilds_def legalRec_def legal_def)
  fix pr and envs :: "nat \<Rightarrow> env" and s :: server
  assume s: "sv_store s = NewStore" "sv_aof s = None" and m: "\<forall>m. ev_storeNow (envs m) \<le> ev_storeNow (envs (Suc m))"
  obtain s1 where s1: "applyAll (replayHandler pr envs) cmds (s, 0) = (None, length cmds, s1, length cmds)" "sv_aof s1 = None"
    "represents (ev_storeNow (envs (length cmds))) db (sv_store s1)"
    using assms(1) s m unfolding rebuilds_def by blast
  obtain s2 where s2: "replayHandler pr envs c (s1, length cmds) = (None, s2, length cmds + 1)" "sv_aof s2 = None"
    "represents (ev_storeNow (envs (length cmds))) db' (sv_store s2)"
    using replay_step [where pr = pr and envs = envs and n = "length cmds", OF s1(3,2) assms(2,3) order_refl] by blast
  show "\<exists>s'. applyAll (replayHandler pr envs) (cmds @ [c]) (s, 0) = (None, length (cmds @ [c]), s', length (cmds @ [c])) \<and> sv_aof s' = None \<and>
      represents (ev_storeNow (envs (length (cmds @ [c])))) db' (sv_store s')"
    using s1(1) s2 represents_later [OF s2(3), of "ev_storeNow (envs (Suc (length cmds)))"] m by (auto simp: applyAll_append)
qed

text \<open>The invariant: log, keyspace and their agreement.\<close>

definition tracks :: "nat \<Rightarrow> time \<Rightarrow> bytes list list \<Rightarrow> db \<Rightarrow> server \<Rightarrow> bool" where
  "tracks i T cmds db s \<longleftrightarrow>
     logging i cmds s \<and> rebuilds cmds db \<and> represents T db (sv_store s) \<and> \<not> sv_replicated s"

text \<open>A request sets no deadline and does not copy a hash.\<close>

definition tame_request :: "env \<Rightarrow> bytes list \<Rightarrow> db \<Rightarrow> bool" where
  "tame_request ev argv db \<longleftrightarrow>
     command_ok argv \<and>
     (case mutOp (ev_now ev) argv of Inl _ \<Rightarrow> True | Inr op \<Rightarrow> plainOp op \<and> \<not> copies_hash op db)"

lemma replayOp_effect: "mutEffect (replayOp op) rp = mutEffect op rp"
  by (cases op; simp add: replayOp_def; cases rp; simp add: mutEffect_def)

lemma tracks_mut:
  assumes tr: "tracks i T cmds db s" and T: "T \<le> ev_storeNow ev" and c: "legal argv" and tame: "tame_request ev argv db"
    and run: "mutRun ev argv s = (r, s')"
  shows "\<exists>cmds' db'. tracks i (ev_storeNow ev) cmds' db' s'"
proof (cases "mutOp (ev_now ev) argv")
  case (Inl e)
  then have "s' = s" using run by (simp add: mutRun_def)
  then show ?thesis using tr T represents_later unfolding tracks_def by blast
next
  case (Inr op)
  have rep: "represents T db (sv_store s)" using tr by (simp add: tracks_def)
  have p: "plainOp op" "\<not> copies_hash op db" using tame Inr by (simp_all add: tame_request_def)
  note args = legal_args [OF c Inr]
  obtain rp st where e: "store_exec (ev_storeNow ev) op (sv_store s) = (rp, st)" by fastforce
  note x = represents_exec [OF rep T args(1) p e]
  define db' where "db' = snd (spec (ev_storeNow ev) op db)"
  note x = x [folded db'_def]
  show ?thesis
  proof (cases "mutEffect op rp")
    case False
    have "db' = db"
      using spec_noEffect [OF x(1) False] view_full rep by (metis represents_def order_refl)
    moreover have "s' = setStore st s" using run Inr e False by (simp add: mutRun_def)
    ultimately have "tracks i (ev_storeNow ev) cmds db s'" using tr x(2) by (simp add: tracks_def logging_def)
    then show ?thesis by blast
  next
    case True
    note l = logForm_legal [OF c Inr p(1)]
    have ne: "logForm argv op \<noteq> []" using l(1) by (auto simp: legalRec_def legal_def command_ok_def)
    have lg: "logging i cmds (setStore st s)" using tr by (simp add: tracks_def logging_def)
    obtain s1 where s1: "appendReply (logForm argv op) (mutReply op rp) (setStore st s) = (mutReply op rp, s1)"
      "logging i (cmds @ [logForm argv op]) s1" "sv_store s1 = st" "sv_replicated s1 = sv_replicated s"
      using append_logging [OF lg ne] by fastforce
    have s': "s' = s1" using run Inr e True s1(1) by (simp add: mutRun_def)
    have sp: "spec 0 (replayOp op) db = (rp, db')" by (rule spec_replayOp [OF x(1) True args(2)])
    have "mutEffect (replayOp op) rp \<and> plainOp (replayOp op) \<and> \<not> copies_hash (replayOp op) db"
      using True p replayOp_effect [of op rp] by (cases op) (simp_all add: replayOp_def plainOp_def)
    then have "applyDB (logForm argv op) db = Some db'" using l(2) sp by (simp add: applyDB_def)
    moreover have "rebuilds cmds db" using tr by (simp add: tracks_def)
    ultimately have "rebuilds (cmds @ [logForm argv op]) db'" by (rule rebuilds_snoc [OF _ l(1), rotated])
    then have "tracks i (ev_storeNow ev) (cmds @ [logForm argv op]) db' s1"
      using tr s1 x(2) by (simp add: tracks_def)
    then show ?thesis using s' by blast
  qed
qed

lemma tracks_step:
  assumes tr: "tracks i T cmds db s" and T: "T \<le> ev_storeNow ev" and tame: "tame_request ev argv db"
    and d: "dispatch pr ev cs argv s = Some (r, cs', s')"
  shows "\<exists>cmds' db'. tracks i (ev_storeNow ev) cmds' db' s'"
  using d
proof (cases rule: dispatch_cases)
  case refused
  then show ?thesis using tr T represents_later unfolding tracks_def by blast
next
  case (proposed h p)
  then show ?thesis using tr by (simp add: tracks_def)
next
  case (ran h)
  show ?thesis
  proof (cases "h_mutating h")
    case True
    obtain r' s1 where run: "mutRun ev argv s = (r', s1)" by fastforce
    then have "s' = s1" using mut_handler [OF ran(1) True, of ev cs s] ran(4) by simp
    moreover have "legal argv" using ran True tame by (auto simp: legal_def tame_request_def)
    ultimately show ?thesis using tracks_mut [OF tr T _ tame run] by blast
  next
    case False
    have rep: "represents T db (sv_store s)" using tr by (simp add: tracks_def)
    then have ok: "store_ok (sv_store s)" by (simp add: represents_def)
    have o: "onlyEvicts ev argv s s'" by (rule read_handler [OF ran(1) False ran(4)])
    have "represents (ev_storeNow ev) db (sv_store s')"
      using o represents_later [OF rep T] view_get [OF ok, of "ev_storeNow ev" _ "argv ! 1"] view_get(2) [OF ok order_refl]
      by (auto simp: onlyEvicts_def represents_def)
    then have "tracks i (ev_storeNow ev) cmds db s'" using o tr by (auto simp: tracks_def logging_def onlyEvicts_def)
    then show ?thesis by blast
  qed
qed

text \<open>Requests from any connections, in the order the server runs them.\<close>

type_synonym request = "env \<times> connState \<times> bytes list"

fun serve :: "propose \<Rightarrow> request list \<Rightarrow> server \<Rightarrow> server option" where
  "serve pr [] s = Some s"
| "serve pr ((ev, cs, argv) # rs) s =
     (case dispatch pr ev cs argv s of None \<Rightarrow> None | Some (r, cs', s') \<Rightarrow> serve pr rs s')"

text \<open>A command that is not proposed leaves the server's password and its place in the cluster alone.\<close>

lemma dispatch_config:
  assumes "dispatch pr ev cs argv s = Some (r, cs', s')" and "cs_applying cs \<or> \<not> sv_replicated s"
  shows "sv_replicated s' = sv_replicated s \<and> sv_requirePass s' = sv_requirePass s"
  using assms(1)
proof (cases rule: dispatch_cases)
  case (ran h)
  show ?thesis
  proof (cases "h_mutating h")
    case True
    have "mutRun ev argv s = (r, s')" using mut_handler [OF ran(1) True, of ev cs s] ran(4) by (auto split: prod.splits)
    then show ?thesis
      by (auto simp: mutRun_def appendReply_def appendIfLive_def Let_def split: sum.splits prod.splits if_splits option.splits)
  next
    case False
    show ?thesis using read_handler [OF ran(1) False ran(4)] by (auto simp: onlyEvicts_def)
  qed
qed (use assms(2) in auto)

lemma replayHandler_config:
  assumes "replayHandler pr envs c (s, n) = (e, s', n')"
  shows "sv_replicated s' = sv_replicated s \<and> sv_requirePass s' = sv_requirePass s"
  using assms dispatch_config [of pr "envs n" applyingConn c s]
  by (auto simp: replayHandler_def replayApply_def applyingConn_def split: option.splits resp_value.splits)

lemma replay_config:
  "applyAll (replayHandler pr envs) cmds (s, n) = (e, k, s', n') \<Longrightarrow> sv_replicated s' = sv_replicated s"
proof (induction cmds arbitrary: s n k)
  case (Cons c cmds)
  obtain e1 s1 n1 where h: "replayHandler pr envs c (s, n) = (e1, s1, n1)" by (metis prod.collapse)
  then show ?case using Cons replayHandler_config [OF h] by (auto split: option.splits prod.splits)
qed simp

lemma tracks_replay:
  assumes "tracks i U cmds db s'" and "sv_store s0 = NewStore" and "sv_aof s0 = None" and "\<not> sv_replicated s0"
    and "\<forall>m. ev_storeNow (envs m) \<le> ev_storeNow (envs (Suc m))"
  shows "\<exists>s1. Replay F (replayHandler pr envs) (Some (in_data (dk_files (wd_disk (sv_world s')) ! i))) (s0, 0) =
       (None, length cmds, s1, length cmds) \<and> sv_aof s1 = None \<and> represents (ev_storeNow (envs (length cmds))) db (sv_store s1) \<and> \<not> sv_replicated s1"
proof -
  have content: "in_data (dk_files (wd_disk (sv_world s')) ! i) = headerBytes @ recs cmds @ []" and r: "rebuilds cmds db"
    using assms(1) by (auto simp: tracks_def logging_def)
  then have ok: "\<forall>c \<in> set cmds. command_ok c" by (simp add: rebuilds_def)
  obtain s1 where s1: "applyAll (replayHandler pr envs) cmds (s0, 0) = (None, length cmds, s1, length cmds)" "sv_aof s1 = None"
    "represents (ev_storeNow (envs (length cmds))) db (sv_store s1)"
    using r assms(2,3,5) unfolding rebuilds_def by blast
  moreover have "\<not> sv_replicated s1" using replay_config [OF s1(1)] assms(4) by simp
  ultimately show ?thesis unfolding content Replay_records [OF ok] by (simp add: replayLoop_Nil)
qed

text \<open>A standalone server with a fresh log.\<close>

definition demoLogged :: server where
  "demoLogged = demoServer (Some (newWriter 0 FsyncAlways)) (demoLog [])"

lemma demoLogged_logging: "logging 0 [] demoLogged"
  by (simp add: logging_def demoLogged_def demoServer_def newWriter_def demoLog_def)

lemma small_command: "c \<noteq> [] \<Longrightarrow> length c \<le> 9 \<Longrightarrow> \<forall>a \<in> set c. length a \<le> 9 \<Longrightarrow> command_ok c"
  by (force simp: command_ok_def MaxArrayLen_def MaxBulkSize_def)

end
