(* ===== verification/StoreScan.thy ===== *)
theory StoreScan
  imports StoreSpec
begin

text \<open>
  The operations that walk the whole keyspace: KEYS, SCAN, the snapshot behind BGREWRITEAOF
  and the sweeper's sampling pass. The order in which Go visits a map is an argument; every
  result holds for every order. SCAN's guarantee rests on the creation sequences, whose
  invariant is proved here for all operations.
\<close>

section \<open>Visiting orders\<close>

abbreviation visits :: "(string \<times> entry) list \<Rightarrow> store \<Rightarrow> bool" where
  "visits ord s \<equiv> mset ord = mset (st_data s)"

lemma visits_entry:
  "visits ord s \<Longrightarrow> distinct (map fst (st_data s)) \<Longrightarrow> (k, e) \<in> set ord \<longleftrightarrow> lookup s k = Some e"
  by (metis mset_eq_setD set_alist_eq)

lemma visits_distinct:
  "visits ord s \<Longrightarrow> distinct (map fst (st_data s)) \<Longrightarrow> distinct (map fst ord)"
  by (metis mset_eq_imp_distinct_iff mset_map)

lemma view_live: "view s now k \<noteq> None \<longleftrightarrow> (\<exists>e. lookup s k = Some e \<and> \<not> expired e now)"
  by (auto simp: view_def split: option.splits)

section \<open>KEYS\<close>

definition valid :: "string \<Rightarrow> bool" where
  "valid p \<longleftrightarrow> pathMatch p [] \<noteq> None"

lemma valid_match: "valid p \<Longrightarrow> pathMatch p k \<noteq> None"
  using pathMatch_None_iff by (auto simp: valid_def)

definition matches :: "string \<Rightarrow> string \<Rightarrow> bool" where
  "matches p k \<longleftrightarrow> pathMatch p k = Some True"

lemma keysLoop_eq:
  "valid p \<Longrightarrow>
   keysLoop now p ord out = Inr (out @ map fst (filter (\<lambda>(k, e). \<not> expired e now \<and> matches p k) ord))"
proof (induction now p ord out rule: keysLoop.induct)
  case (2 now p k e rest out)
  obtain b where "pathMatch p k = Some b" using valid_match [OF "2.prems"] by fastforce
  then show ?case using 2 by (auto simp: matches_def)
qed simp

section \<open>Snapshot and sweep\<close>

lemma snapshotLoop_eq:
  "snapshotLoop now ord s out =
     (out @ map (\<lambda>(k, e). snapEntry (st_heap s) k e) (filter (\<lambda>(k, e). \<not> expired e now) ord),
      foldl (\<lambda>s k. delEntry k s) s (map fst (filter (\<lambda>(k, e). expired e now) ord)))"
  by (induction now ord s out rule: snapshotLoop.induct) auto

definition evictions :: "time \<Rightarrow> string list \<Rightarrow> store \<Rightarrow> bool" where
  "evictions now ks s \<longleftrightarrow> (\<forall>k \<in> set ks. \<forall>e. lookup s k = Some e \<longrightarrow> expired e now)"

lemma evict_view: "evictions now [k] s \<Longrightarrow> view (delEntry k s) now = view s now"
  by (auto simp: evictions_def view_def fun_eq_iff split: option.splits)

lemma foldl_evict:
  assumes "store_ok s" and "evictions now ks s"
  shows "store_ok (foldl (\<lambda>s k. delEntry k s) s ks)"
    and "view (foldl (\<lambda>s k. delEntry k s) s ks) now = view s now"
    and "lookup (foldl (\<lambda>s k. delEntry k s) s ks) j = (if j \<in> set ks then None else lookup s j)"
proof -
  have "store_ok (foldl (\<lambda>s k. delEntry k s) s ks) \<and> view (foldl (\<lambda>s k. delEntry k s) s ks) now = view s now \<and>
    (\<forall>j. lookup (foldl (\<lambda>s k. delEntry k s) s ks) j = (if j \<in> set ks then None else lookup s j))"
    using assms
  proof (induction ks arbitrary: s)
    case (Cons k ks)
    have "evictions now [k] s" "evictions now ks (delEntry k s)"
      using Cons.prems(2) by (auto simp: evictions_def)
    then show ?case
      using Cons.IH [of "delEntry k s"] delEntry_ok(1) [OF Cons.prems(1)] evict_view [of now k s] by auto
  qed simp
  then show "store_ok (foldl (\<lambda>s k. delEntry k s) s ks)"
    and "view (foldl (\<lambda>s k. delEntry k s) s ks) now = view s now"
    and "lookup (foldl (\<lambda>s k. delEntry k s) s ks) j = (if j \<in> set ks then None else lookup s j)"
    by blast+
qed

text \<open>The value a snapshot entry stands for.\<close>

definition snapVal :: "snapshotEntry \<Rightarrow> aval option" where
  "snapVal se =
     (if se_Type se = ''string'' then Some (VString (se_Value se))
      else if se_Type se = ''list'' then Some (VList (se_List se))
      else if se_Type se = ''hash'' then Some (VHash (map (\<lambda>f. (f, hashGet (se_Hash se) f)) (se_HashOrder se)))
      else None)"

lemma snapVal_snapEntry: "snapVal (snapEntry h k e) = Some (avalOf h e)"
  by (cases "e_typ e") (simp_all add: snapVal_def snapEntry_def avalOf_def hashPairs_def deque_rng_all)

lemma snapEntry_sel [simp]: "se_Key (snapEntry h k e) = k" "se_ExpireAt (snapEntry h k e) = e_expireAt e"
  by (cases "e_typ e"; simp add: snapEntry_def)+

text \<open>A sweep visits a prefix of the order and evicts the expired entries in it.\<close>

lemma sweepLoop_eq:
  assumes "sampled \<le> batch"
  shows "sweepLoop now batch ord sampled evicted s =
     (let xs = take (nat (batch - sampled)) ord; dead = map fst (filter (\<lambda>(k, e). expired e now) xs)
      in (sampled + int (length xs), evicted + int (length dead), foldl (\<lambda>s k. delEntry k s) s dead))"
  using assms
proof (induction now batch ord sampled evicted s rule: sweepLoop.induct)
  case (2 now batch k e rest sampled evicted s)
  show ?case
  proof (cases "sampled \<ge> batch")
    case False
    then have "nat (batch - sampled) = Suc (nat (batch - (sampled + 1)))" by simp
    then show ?thesis using 2 False by (simp add: Let_def)
  qed (use 2 in simp)
qed simp

section \<open>Creation sequences\<close>

definition seqs_ok :: "store \<Rightarrow> bool" where
  "seqs_ok s \<longleftrightarrow>
     distinct (map fst (st_data s)) \<and> st_seqCounter s \<le> MaxUint64 \<and>
     (\<forall>k e. lookup s k = Some e \<longrightarrow> 0 < e_seq e \<and> e_seq e \<le> st_seqCounter s) \<and>
     (\<forall>k1 e1 k2 e2. lookup s k1 = Some e1 \<longrightarrow> lookup s k2 = Some e2 \<longrightarrow> e_seq e1 = e_seq e2 \<longrightarrow> k1 = k2)"

text \<open>
  What one operation may do to the sequences: every key but \<open>k\<close> is kept or removed; \<open>k\<close>
  keeps its sequence, or gets the next value of the counter.
\<close>

definition seq_local :: "string \<Rightarrow> store \<Rightarrow> store \<Rightarrow> bool" where
  "seq_local k s s' \<longleftrightarrow>
     (distinct (map fst (st_data s)) \<longrightarrow> distinct (map fst (st_data s'))) \<and>
     (\<forall>j e. j \<noteq> k \<longrightarrow> lookup s' j = Some e \<longrightarrow> lookup s j = Some e) \<and>
     ((st_seqCounter s' = st_seqCounter s \<and>
       (\<forall>e'. lookup s' k = Some e' \<longrightarrow> (\<exists>e. lookup s k = Some e \<and> e_seq e' = e_seq e))) \<or>
      (st_seqCounter s' = (st_seqCounter s + 1) mod 18446744073709551616 \<and>
       (\<forall>e'. lookup s' k = Some e' \<longrightarrow> e_seq e' = (st_seqCounter s + 1) mod 18446744073709551616)))"

lemma seq_local_refl [simp]: "seq_local k s s"
  by (simp add: seq_local_def)

lemma seq_local_del: "seq_local k s s' \<Longrightarrow> seq_local k s (delEntry j s')"
  by (auto simp: seq_local_def delEntry_def)

lemma seq_local_heap: "seq_local k s s' \<Longrightarrow> seq_local k s (s'\<lparr>st_heap := h\<rparr>)"
  by (simp add: seq_local_def)

text \<open>\<open>shrunk\<close>: only removals so far.\<close>

definition shrunk :: "store \<Rightarrow> store \<Rightarrow> bool" where
  "shrunk s s' \<longleftrightarrow>
     st_seqCounter s' = st_seqCounter s \<and>
     (distinct (map fst (st_data s)) \<longrightarrow> distinct (map fst (st_data s'))) \<and>
     (\<forall>j e. lookup s' j = Some e \<longrightarrow> lookup s j = Some e)"

lemma shrunk_refl [simp]: "shrunk s s"
  by (simp add: shrunk_def)

lemma shrunk_del: "shrunk s s' \<Longrightarrow> shrunk s (delEntry j s')"
  by (auto simp: shrunk_def delEntry_def)

lemma shrunk_heap: "shrunk s s' \<Longrightarrow> shrunk s (s'\<lparr>st_heap := h\<rparr>)"
  by (simp add: shrunk_def)

lemma shrunk_local: "shrunk s s' \<Longrightarrow> seq_local k s s'"
  unfolding seq_local_def shrunk_def by blast

lemma shrunk_trans: "shrunk s s1 \<Longrightarrow> shrunk s1 s2 \<Longrightarrow> shrunk s s2"
  unfolding shrunk_def by (metis (no_types))

lemma local_put_same:
  "shrunk s s' \<Longrightarrow> lookup s k = Some e0 \<Longrightarrow> e_seq e = e_seq e0 \<Longrightarrow> seq_local k s (putEntry k e s')"
  by (auto simp: seq_local_def shrunk_def putEntry_def)

lemma local_put_new:
  assumes "shrunk s s1" and "nextSeq s1 = (q, s2)" and "e_seq e = q"
    and "st_data s3 = st_data s2 \<or> st_data s3 = AList.delete j (st_data s2)"
    and "st_seqCounter s3 = st_seqCounter s2"
  shows "seq_local k s (putEntry k e s3)"
  using assms
  by (auto simp: seq_local_def shrunk_def putEntry_def nextSeq_def Let_def dest: map_of_SomeD split: if_splits)

lemma shrunk_getForWrite:
  assumes "getForWrite now k s = (r, s1)"
  shows "shrunk s s1" and "r = Some e \<Longrightarrow> lookup s k = Some e \<and> s1 = s"
  using assms by (auto simp: getForWrite_def shrunk_del split: option.splits if_splits)

lemma shrunk_delLoop: "shrunk s s' \<Longrightarrow> shrunk s (snd (delLoop now ks s' n))"
  by (induction ks arbitrary: s' n) (auto simp: shrunk_del split: option.splits)

lemma hsetLoop_seq: "hsetLoop ps h e c = (c', h', e') \<Longrightarrow> e_seq e' = e_seq e"
  by (induction ps arbitrary: h e c rule: induct_list012)
     (fastforce simp: case_prod_beta Let_def split: if_splits)+

lemma hdelLoop_seq: "hdelLoop fs h e c = (c', h', e') \<Longrightarrow> e_seq e' = e_seq e"
  by (induction fs arbitrary: h e c) (fastforce simp: case_prod_beta Let_def split: if_splits)+

lemma nextSeq_sel: "nextSeq s = (q, s2) \<Longrightarrow> st_data s2 = st_data s"
  by (auto simp: nextSeq_def Let_def)

lemma local_incrFinish:
  "shrunk s s1 \<Longrightarrow> q = 0 \<or> (\<exists>e. lookup s k = Some e \<and> e_seq e = q) \<Longrightarrow>
   seq_local k s (snd (incrFinish k delta n q s1))"
  by (cases "nextSeq s1")
     (auto simp: incrFinish_def Let_def newEntry_def shrunk_local intro: local_put_same local_put_new)

lemma local_incrBy: "seq_local k s (snd (incrBy now k delta s))"
  by (cases "getForWrite now k s"; cases "fst (getForWrite now k s)")
     (use shrunk_getForWrite [of now k s] in
       \<open>auto simp: incrBy_alt shrunk_local intro!: local_incrFinish split: option.splits\<close>)

lemma local_push: "seq_local k s (snd (push now k vs front s))"
proof (cases "getForWrite now k s")
  case (Pair r s1)
  note g = shrunk_getForWrite [OF Pair]
  show ?thesis
  proof (cases r)
    case None
    obtain q s2 where q: "nextSeq s1 = (q, s2)" by (cases "nextSeq s1")
    show ?thesis
      using Pair None q by (auto simp: push_def Let_def newEntry_def intro!: local_put_new [OF g(1) q])
  next
    case (Some e)
    then show ?thesis
      using Pair g(2) [OF Some] by (auto simp: push_def Let_def intro!: local_put_same)
  qed
qed

lemma local_pop: "seq_local k s (snd (pop now k front s))"
proof (cases "getForWrite now k s")
  case (Pair r s1)
  note g = shrunk_getForWrite [OF Pair]
  show ?thesis
  proof (cases r)
    case None
    then show ?thesis using Pair g(1) by (simp add: pop_def shrunk_local)
  next
    case (Some e)
    then show ?thesis
      using Pair g(2) [OF Some]
      by (auto simp: pop_def Let_def case_prod_beta seq_local_del split: option.splits intro!: local_put_same)
  qed
qed

lemma local_HSet: "seq_local k s (snd (Store_HSet now k ps s))"
proof (cases "getForWrite now k s")
  case (Pair r s1)
  note g = shrunk_getForWrite [OF Pair]
  show ?thesis
  proof (cases r)
    case None
    obtain q s2 where q: "nextSeq s1 = (q, s2)" by (cases "nextSeq s1")
    obtain c h' e' where l: "hsetLoop ps (st_heap s2) (newEntry typeHash q) 0 = (c, h', e')"
      by (cases "hsetLoop ps (st_heap s2) (newEntry typeHash q) 0")
    have "e_seq e' = q" using hsetLoop_seq [OF l] by (simp add: newEntry_def)
    then show ?thesis
      using Pair None q l by (auto simp: Store_HSet_def Let_def intro!: local_put_new [OF g(1) q])
  next
    case (Some e)
    obtain c h' e' where l: "hsetLoop ps (st_heap s) e 0 = (c, h', e')"
      by (cases "hsetLoop ps (st_heap s) e 0")
    show ?thesis
      using Pair Some g(2) [OF Some] l hsetLoop_seq [OF l]
      by (auto simp: Store_HSet_def Let_def shrunk_heap intro!: local_put_same)
  qed
qed

lemma local_HDel: "seq_local k s (snd (Store_HDel now k fs s))"
proof (cases "getForWrite now k s")
  case (Pair r s1)
  note g = shrunk_getForWrite [OF Pair]
  show ?thesis
  proof (cases r)
    case None
    then show ?thesis using Pair g(1) by (simp add: Store_HDel_def shrunk_local)
  next
    case (Some e)
    obtain c h' e' where l: "hdelLoop fs (st_heap s) e 0 = (c, h', e')"
      by (cases "hdelLoop fs (st_heap s) e 0")
    show ?thesis
      using Pair Some g(2) [OF Some] l hdelLoop_seq [OF l]
      by (auto simp: Store_HDel_def Let_def shrunk_heap seq_local_del seq_local_heap intro!: local_put_same)
  qed
qed

lemma local_Set: "seq_local k s (snd (Store_Set now k v opts s))"
proof (cases "getForWrite now k s")
  case (Pair r s1)
  note g = shrunk_getForWrite [OF Pair]
  obtain q s2 where q: "nextSeq s1 = (q, s2)" by (cases "nextSeq s1")
  show ?thesis
  proof (cases r)
    case None
    then show ?thesis
      using Pair q by (auto simp: Store_Set_alt newEntry_def shrunk_local g(1) intro!: local_put_new [OF g(1) q])
  next
    case (Some e)
    then show ?thesis
      using Pair g(2) [OF Some] by (auto simp: Store_Set_alt newEntry_def intro!: local_put_same)
  qed
qed

lemma local_deadline:
  "seq_local k s (snd (Store_Expire now k t s))" "seq_local k s (snd (Store_Persist now k s))"
  by (cases "getForWrite now k s"; cases "fst (getForWrite now k s)";
      use shrunk_getForWrite [of now k s] in
        \<open>auto simp: Store_Expire_alt Store_Persist_alt shrunk_local intro!: local_put_same\<close>)+

lemma local_Rename:
  "seq_local b s (snd (Store_Rename now a b s))" "seq_local b s (snd (Store_RenameNX now a b s))"
  "seq_local b s (snd (Store_Copy now a b r s))"
proof -
  obtain x s1 where g1: "getForWrite now a s = (x, s1)" by (cases "getForWrite now a s")
  obtain y s2 where g2: "getForWrite now b s1 = (y, s2)" by (cases "getForWrite now b s1")
  obtain q1 t1 where q1: "nextSeq s1 = (q1, t1)" by (cases "nextSeq s1")
  obtain q2 t2 where q2: "nextSeq s2 = (q2, t2)" by (cases "nextSeq s2")
  have s1: "shrunk s s1" and s2: "shrunk s s2"
    using shrunk_getForWrite(1) [OF g1] shrunk_getForWrite(1) [OF g2] shrunk_trans by blast+
  show "seq_local b s (snd (Store_Rename now a b s))"
    using g1 q1 s1 by (auto simp: Store_Rename_def shrunk_local delEntry_def split: option.splits
        intro!: local_put_new [OF s1 q1, where j = a])
  show "seq_local b s (snd (Store_RenameNX now a b s))"
    using g1 g2 q2 s1 s2 by (auto simp: Store_RenameNX_def shrunk_local delEntry_def split: option.splits
        intro!: local_put_new [OF s2 q2, where j = a])
  show "seq_local b s (snd (Store_Copy now a b r s))"
    using g1 g2 q2 s1 s2 by (auto simp: Store_Copy_def shrunk_local split: option.splits
        intro!: local_put_new [OF s2 q2])
qed

lemma shrunk_Get: "shrunk s (snd (Store_Get now k s))"
  by (cases "getForWrite now k s") (auto simp: Store_Get_alt dest: shrunk_getForWrite(1))

lemma exec_seq_local: "\<exists>k. seq_local k s (snd (store_exec now op s))"
proof (cases op)
  case (OGet k)
  then show ?thesis using shrunk_local [OF shrunk_Get] by auto
next
  case (ODel ks)
  then show ?thesis using shrunk_local [OF shrunk_delLoop [of s s]] by (auto simp: Store_Del_def)
next
  case OFlushDB
  then show ?thesis by (auto simp: Store_FlushDB_def seq_local_def)
qed (auto simp: Store_Incr_def Store_Decr_def Store_LPush_def Store_RPush_def Store_LPop_def Store_RPop_def
    intro: local_incrBy local_push local_pop local_HSet local_HDel local_Set local_deadline local_Rename
      seq_local_refl)

lemma seqs_ok_New: "seqs_ok NewStore"
  by (simp add: seqs_ok_def NewStore_def)

text \<open>Along an operation every present key keeps its sequence or gets one above the old counter.\<close>

lemma seqs_step:
  assumes ok: "seqs_ok s" and loc: "seq_local k s s'" and room: "st_seqCounter s < MaxUint64"
  shows "seqs_ok s'" and "st_seqCounter s \<le> st_seqCounter s'" and "st_seqCounter s' \<le> st_seqCounter s + 1"
    and "lookup s' j = Some e' \<Longrightarrow>
      (\<exists>e. lookup s j = Some e \<and> e_seq e' = e_seq e) \<or> st_seqCounter s < e_seq e'"
proof -
  have m: "(st_seqCounter s + 1) mod 18446744073709551616 = st_seqCounter s + 1"
    using room by (simp add: MaxUint64_def)
  have d: "distinct (map fst (st_data s'))" using ok loc by (simp add: seqs_ok_def seq_local_def)
  have oth: "lookup s j = Some e" if "j \<noteq> k" "lookup s' j = Some e" for j e
    using loc that unfolding seq_local_def by blast
  have own: "(st_seqCounter s' = st_seqCounter s \<and>
       (\<forall>e'. lookup s' k = Some e' \<longrightarrow> (\<exists>e. lookup s k = Some e \<and> e_seq e' = e_seq e))) \<or>
      (st_seqCounter s' = st_seqCounter s + 1 \<and>
       (\<forall>e'. lookup s' k = Some e' \<longrightarrow> e_seq e' = st_seqCounter s + 1))"
    using loc unfolding seq_local_def m by blast
  have rng: "0 < e_seq e \<and> e_seq e \<le> st_seqCounter s" if "lookup s j = Some e" for j e
    using ok that unfolding seqs_ok_def by blast
  have inj: "j1 = j2" if "lookup s j1 = Some e1" "lookup s j2 = Some e2" "e_seq e1 = e_seq e2" for j1 j2 e1 e2
    using ok that unfolding seqs_ok_def by blast
  show c1: "st_seqCounter s \<le> st_seqCounter s'" and c2: "st_seqCounter s' \<le> st_seqCounter s + 1"
    using own by auto
  have old: "(\<exists>e. lookup s j = Some e \<and> e_seq e' = e_seq e) \<or>
      (j = k \<and> st_seqCounter s' = st_seqCounter s + 1 \<and> e_seq e' = st_seqCounter s + 1)"
    if "lookup s' j = Some e'" for j e'
    using oth [OF _ that] own that by (cases "j = k") auto
  show "lookup s' j = Some e' \<Longrightarrow>
      (\<exists>e. lookup s j = Some e \<and> e_seq e' = e_seq e) \<or> st_seqCounter s < e_seq e'"
    using old by force
  have rng': "0 < e_seq e' \<and> e_seq e' \<le> st_seqCounter s'" if "lookup s' j = Some e'" for j e'
    using old [OF that] rng c1 by force
  have inj': "j1 = j2" if "lookup s' j1 = Some e1" "lookup s' j2 = Some e2" "e_seq e1 = e_seq e2" for j1 j2 e1 e2
  proof -
    from old [OF that(1)] old [OF that(2)] that(3)
    consider "j1 = j2" | a1 where "lookup s j1 = Some a1" "e_seq e1 = e_seq a1" "e_seq e1 = st_seqCounter s + 1"
      | a2 where "lookup s j2 = Some a2" "e_seq e2 = e_seq a2" "e_seq e2 = st_seqCounter s + 1"
      | a1 a2 where "lookup s j1 = Some a1" "lookup s j2 = Some a2" "e_seq a1 = e_seq a2" by metis
    then show ?thesis
    proof cases
      case 2
      then show ?thesis using rng [OF 2(1)] by simp
    next
      case 3
      then show ?thesis using rng [OF 3(1)] by simp
    next
      case 4
      then show ?thesis using inj by blast
    qed simp
  qed
  show "seqs_ok s'" unfolding seqs_ok_def
  proof (intro conjI allI impI)
    show "distinct (map fst (st_data s'))" by (rule d)
    show "st_seqCounter s' \<le> MaxUint64" using c2 room by simp
  qed (use rng' inj' in simp_all)
qed

section \<open>SCAN\<close>

lemma scanCand_eq:
  "scanCand now cur ord cand =
     cand @ map (\<lambda>(k, e). (k, e_seq e)) (filter (\<lambda>(k, e). e_seq e > cur \<and> \<not> expired e now) ord)"
  by (induction now cur ord cand rule: scanCand.induct) auto

lemma scanLoop_eq:
  "valid p \<Longrightarrow> ex \<le> cnt \<Longrightarrow>
   scanLoop p cnt cand ex lst out =
     (let n = min (nat (cnt - ex)) (length cand)
      in Inr (out @ map fst (filter (\<lambda>(k, q). matches p k) (take n cand)),
              (if n = 0 then lst else snd (cand ! (n - 1))), ex + int n))"
proof (induction p cnt cand ex lst out rule: scanLoop.induct)
  case (2 p cnt k q rest ex lst out)
  obtain b where b: "pathMatch p k = Some b" using valid_match [OF "2.prems"(1)] by fastforce
  show ?case
  proof (cases "ex \<ge> cnt")
    case True
    then show ?thesis using 2 by simp
  next
    case False
    then have "nat (cnt - ex) = Suc (nat (cnt - (ex + 1)))" by simp
    then have n: "min (nat (cnt - ex)) (length ((k, q) # rest)) = Suc (min (nat (cnt - (ex + 1))) (length rest))"
      by simp
    define m where "m = min (nat (cnt - (ex + 1))) (length rest)"
    have "scanLoop p cnt rest (ex + 1) q (if b then out @ [k] else out) =
        Inr ((if b then out @ [k] else out) @ map fst (filter (\<lambda>(k, q). matches p k) (take m rest)),
          (if m = 0 then q else snd (rest ! (m - 1))), ex + 1 + int m)"
      using "2.IH" [OF False b "2.prems"(1)] False unfolding m_def Let_def by simp
    then show ?thesis unfolding n Let_def m_def [symmetric]
      using False b by (cases m) (auto simp: matches_def)
  qed
qed simp

text \<open>The candidates of one call: the live keys past the cursor in the order of their sequences.\<close>

definition cands :: "store \<Rightarrow> (string \<times> entry) list \<Rightarrow> time \<Rightarrow> nat \<Rightarrow> (string \<times> nat) list" where
  "cands s ord now cur = sort_key snd (scanCand now cur ord [])"

lemma cands_props:
  assumes ok: "seqs_ok s" and v: "visits ord s"
  shows "(k, q) \<in> set (cands s ord now cur) \<longleftrightarrow> (\<exists>e. lookup s k = Some e \<and> e_seq e = q \<and> cur < q \<and> \<not> expired e now)"
    and "sorted (map snd (cands s ord now cur))" and "distinct (map snd (cands s ord now cur))"
    and "distinct (map fst (cands s ord now cur))"
proof -
  have d: "distinct (map fst (st_data s))" using ok by (simp add: seqs_ok_def)
  note mem = visits_entry [OF v d]
  let ?f = "filter (\<lambda>(k, e). e_seq e > cur \<and> \<not> expired e now) ord"
  have dk: "distinct (map fst ?f)"
    using visits_distinct [OF v d] by (simp add: distinct_map_filter)
  have seq: "distinct (map (\<lambda>(k, e). e_seq e) ?f)"
    unfolding distinct_map
  proof (intro conjI inj_onI)
    show "distinct ?f" using dk by (simp add: distinct_map)
  next
    fix x y assume a: "x \<in> set ?f" "y \<in> set ?f" "(case x of (k, e) \<Rightarrow> e_seq e) = (case y of (k, e) \<Rightarrow> e_seq e)"
    obtain k1 e1 k2 e2 where xy: "x = (k1, e1)" "y = (k2, e2)" by (cases x, cases y)
    have l: "lookup s k1 = Some e1" "lookup s k2 = Some e2" "e_seq e1 = e_seq e2"
      using a xy mem by auto
    then have "k1 = k2" using ok unfolding seqs_ok_def by blast
    then show "x = y" using l xy by simp
  qed
  show "(k, q) \<in> set (cands s ord now cur) \<longleftrightarrow> (\<exists>e. lookup s k = Some e \<and> e_seq e = q \<and> cur < q \<and> \<not> expired e now)"
    using mem by (auto simp: cands_def scanCand_eq image_iff)
  show "sorted (map snd (cands s ord now cur))" by (simp add: cands_def)
  have "mset (map snd (cands s ord now cur)) = mset (map snd (scanCand now cur ord []))"
    and "mset (map fst (cands s ord now cur)) = mset (map fst (scanCand now cur ord []))"
    by (simp_all add: cands_def)
  moreover have "map snd (scanCand now cur ord []) = map (\<lambda>(k, e). e_seq e) ?f"
    and "map fst (scanCand now cur ord []) = map fst ?f"
    by (simp_all add: scanCand_eq case_prod_beta')
  ultimately show "distinct (map snd (cands s ord now cur))" and "distinct (map fst (cands s ord now cur))"
    using seq dk mset_eq_imp_distinct_iff by metis+
qed

definition pageSize :: "int \<Rightarrow> nat" where
  "pageSize cnt = (if cnt \<le> 0 then 10 else nat cnt)"

lemma pageSize_pos [simp]: "0 < pageSize cnt" "pageSize cnt \<noteq> 0"
  by (simp_all add: pageSize_def)

lemma Scan_eq:
  assumes "valid p"
  shows "Store_Scan ord now cur p cnt =
    (let cs = cands s ord now cur; n = min (pageSize cnt) (length cs)
     in Inr (map fst (filter (\<lambda>(k, q). matches p k) (take n cs)),
             if length cs \<le> n then 0 else snd (cs ! (n - 1))))"
proof -
  obtain b where b: "pathMatch p [] = Some b" using assms by (auto simp: valid_def)
  let ?c = "if cnt \<le> 0 then 10 else cnt"
  have c: "nat (?c - 0) = pageSize cnt" "0 \<le> ?c" by (simp_all add: pageSize_def)
  show ?thesis
    using scanLoop_eq [OF assms c(2), of "cands s ord now cur" 0 "[]"] c(1) b pageSize_pos [of cnt]
    by (simp add: Store_Scan_def cands_def Let_def)
qed

lemma matches_valid: "matches p k \<Longrightarrow> valid p"
  using pathMatch_None_iff [of p k] pathMatch_None_iff [of p "[]"] by (auto simp: matches_def valid_def)

lemma cands_less:
  assumes "seqs_ok s" and "visits ord s" and "i < j" and "j < length (cands s ord now cur)"
  shows "snd (cands s ord now cur ! i) < snd (cands s ord now cur ! j)"
proof -
  note c = cands_props [OF assms(1,2), where now = now and cur = cur]
  have "snd (cands s ord now cur ! i) \<le> snd (cands s ord now cur ! j)"
    using sorted_nth_mono [OF c(2), of i j] assms(3,4) by simp
  moreover have "snd (cands s ord now cur ! i) \<noteq> snd (cands s ord now cur ! j)"
    using nth_eq_iff_index_eq [OF c(3), of i j] assms(3,4) by simp
  ultimately show ?thesis by simp
qed

text \<open>One call returns every matching live key past the cursor, or leaves it past the next cursor.\<close>

lemma page_covers:
  assumes ok: "seqs_ok s" and v: "visits ord s" and m: "matches p k"
    and k: "lookup s k = Some e" "\<not> expired e now" "cur < e_seq e"
    and page: "Store_Scan ord now cur p cnt = Inr (ks, nxt)"
  shows "k \<in> set ks \<or> (nxt \<noteq> 0 \<and> nxt < e_seq e)"
proof -
  have p: "valid p" using m by (rule matches_valid)
  let ?cs = "cands s ord now cur"
  let ?n = "min (pageSize cnt) (length ?cs)"
  have pg: "ks = map fst (filter (\<lambda>(k, q). matches p k) (take ?n ?cs))"
    "nxt = (if length ?cs \<le> ?n then 0 else snd (?cs ! (?n - 1)))"
    using page Scan_eq [OF p, of ord now cur cnt s] by (simp_all add: Let_def)
  have "(k, e_seq e) \<in> set ?cs" using cands_props(1) [OF ok v] k by blast
  then obtain i where i: "i < length ?cs" "?cs ! i = (k, e_seq e)" by (meson in_set_conv_nth)
  show ?thesis
  proof (cases "i < ?n")
    case True
    then have "(k, e_seq e) \<in> set (take ?n ?cs)" using i by (metis in_set_conv_nth length_take min.absorb2 min.cobounded2 nth_take)
    then show ?thesis using m pg(1) by force
  next
    case False
    have n: "?n \<noteq> 0" using i(1) by (cases ?cs) auto
    have "?cs ! (?n - 1) \<in> set ?cs" using i n False by auto
    then have "0 < snd (?cs ! (?n - 1))"
      using cands_props(1) [OF ok v, of "fst (?cs ! (?n - 1))" "snd (?cs ! (?n - 1))" now cur] by auto
    moreover have "?n - 1 < i" "\<not> length ?cs \<le> ?n" using False i(1) n by linarith+
    ultimately show ?thesis
      using cands_less [OF ok v, of "?n - 1" i now cur] i pg(2) by simp
  qed
qed

lemma page_cursor:
  assumes ok: "seqs_ok s" and v: "visits ord s" and p: "valid p"
    and page: "Store_Scan ord now cur p cnt = Inr (ks, nxt)"
  shows "nxt \<le> st_seqCounter s"
proof -
  let ?cs = "cands s ord now cur"
  let ?n = "min (pageSize cnt) (length ?cs)"
  have nxt: "nxt = (if length ?cs \<le> ?n then 0 else snd (?cs ! (?n - 1)))"
    using page Scan_eq [OF p, of ord now cur cnt s] by (simp add: Let_def)
  show ?thesis
  proof (cases "length ?cs \<le> ?n")
    case False
    then have "?cs ! (?n - 1) \<in> set ?cs" by (intro nth_mem) auto
    then obtain e where "lookup s (fst (?cs ! (?n - 1))) = Some e" "e_seq e = snd (?cs ! (?n - 1))"
      using cands_props(1) [OF ok v, of "fst (?cs ! (?n - 1))" "snd (?cs ! (?n - 1))" now cur] by auto
    then show ?thesis using nxt False ok unfolding seqs_ok_def by metis
  qed (use nxt in simp)
qed

text \<open>
  An iteration interleaved with other clients: any keyspace operation may run between two
  calls, each call sees the map in its own order and at its own time.
\<close>

record scan_state =
  sc_store :: store
  sc_cursor :: nat
  sc_out :: "string list"
  sc_done :: bool

inductive scan_step :: "string \<Rightarrow> int \<Rightarrow> string \<Rightarrow> scan_state \<Rightarrow> scan_state \<Rightarrow> bool" for p cnt k where
  mutate: "st_seqCounter (sc_store st) < MaxUint64 \<Longrightarrow>
    scan_step p cnt k st (st\<lparr>sc_store := snd (store_exec now op (sc_store st))\<rparr>)"
| page: "\<not> sc_done st \<Longrightarrow> visits ord (sc_store st) \<Longrightarrow> view (sc_store st) now k \<noteq> None \<Longrightarrow>
    Store_Scan ord now (sc_cursor st) p cnt = Inr (ks, nxt) \<Longrightarrow>
    scan_step p cnt k st (st\<lparr>sc_cursor := nxt, sc_out := sc_out st @ ks, sc_done := (nxt = 0)\<rparr>)"

definition scan_start :: scan_state where
  "scan_start = \<lparr>sc_store = NewStore, sc_cursor = 0, sc_out = [], sc_done = False\<rparr>"

definition scan_inv :: "string \<Rightarrow> scan_state \<Rightarrow> bool" where
  "scan_inv k st \<longleftrightarrow>
     seqs_ok (sc_store st) \<and> sc_cursor st \<le> st_seqCounter (sc_store st) \<and>
     (k \<in> set (sc_out st) \<or>
      (\<not> sc_done st \<and> (\<forall>e. lookup (sc_store st) k = Some e \<longrightarrow> sc_cursor st < e_seq e)))"

lemma scan_inv_step:
  assumes "scan_step p cnt k st st'" and "matches p k" and "scan_inv k st"
  shows "scan_inv k st'"
  using assms(1)
proof cases
  case (mutate now op)
  have ok: "seqs_ok (sc_store st)" using assms(3) by (simp add: scan_inv_def)
  obtain j where loc: "seq_local j (sc_store st) (sc_store st')"
    using exec_seq_local mutate(1) by fastforce
  note st = seqs_step [OF ok loc mutate(2)]
  have "sc_cursor st < e_seq e'"
    if "sc_cursor st \<le> st_seqCounter (sc_store st)"
      and "\<forall>e. lookup (sc_store st) k = Some e \<longrightarrow> sc_cursor st < e_seq e"
      and "lookup (sc_store st') k = Some e'" for e'
    using st(4) [OF that(3)] that(1,2) by force
  moreover have "sc_cursor st' = sc_cursor st" "sc_out st' = sc_out st" "sc_done st' = sc_done st"
    by (simp_all add: mutate(1))
  ultimately show ?thesis using assms(3) st(1,2) unfolding scan_inv_def by (metis order_trans)
next
  case (page ord now ks nxt)
  have ok: "seqs_ok (sc_store st)" using assms(3) by (simp add: scan_inv_def)
  have p: "valid p" using assms(2) by (rule matches_valid)
  obtain e where e: "lookup (sc_store st) k = Some e" "\<not> expired e now" using page(4) view_live by blast
  have "k \<in> set (sc_out st) \<or> sc_cursor st < e_seq e" using assms(3) e(1) by (auto simp: scan_inv_def)
  then show ?thesis
    using page_covers [OF ok page(3) assms(2) e _ page(5)] page_cursor [OF ok page(3) p page(5)] page(1) e(1) ok
    by (auto simp: scan_inv_def)
qed

lemma scan_inv_reach: "(scan_step p cnt k)\<^sup>*\<^sup>* scan_start st \<Longrightarrow> matches p k \<Longrightarrow> scan_inv k st"
proof (induction rule: rtranclp_induct)
  case base
  then show ?case using seqs_ok_New by (simp add: scan_inv_def scan_start_def seqs_ok_def)
qed (blast intro: scan_inv_step)

text \<open>On an unchanged store the pages are the segments of one sorted list.\<close>

lemma cands_unique:
  assumes ok: "seqs_ok s" and v: "visits ord s" and xs: "sorted (map snd xs)" "distinct (map snd xs)"
    and mem: "set xs = set (cands s ord now cur)"
  shows "xs = cands s ord now cur"
proof (rule map_sorted_distinct_set_unique [of snd])
  note c = cands_props [OF ok v, where now = now and cur = cur]
  show "inj_on snd (set xs \<union> set (cands s ord now cur))" using xs(2) mem by (simp add: distinct_map)
  show "sorted (map snd (cands s ord now cur))" "distinct (map snd (cands s ord now cur))" by (fact c)+
qed (use xs mem in auto)

lemma cands_next:
  assumes ok: "seqs_ok s" and v: "visits ord s" and v': "visits ord' s" and n: "0 < n" "n < length (cands s ord now cur)"
  shows "cands s ord' now (snd (cands s ord now cur ! (n - 1))) = drop n (cands s ord now cur)"
proof (rule cands_unique [OF ok v', symmetric])
  let ?cs = "cands s ord now cur"
  note c = cands_props [OF ok v, where now = now and cur = cur]
  show "sorted (map snd (drop n ?cs))" using sorted_wrt_drop [OF c(2)] by (simp add: drop_map)
  show "distinct (map snd (drop n ?cs))" using distinct_drop [OF c(3)] by (simp add: drop_map)
  have "x \<in> set (drop n ?cs) \<longleftrightarrow> x \<in> set ?cs \<and> snd (?cs ! (n - 1)) < snd x" for x
  proof
    assume "x \<in> set (drop n ?cs)"
    then obtain i where "i < length ?cs - n" "x = ?cs ! (n + i)" using n(2) by (auto simp: in_set_conv_nth)
    then show "x \<in> set ?cs \<and> snd (?cs ! (n - 1)) < snd x"
      using cands_less [OF ok v, of "n - 1" "n + i" now cur] n by auto
  next
    assume x: "x \<in> set ?cs \<and> snd (?cs ! (n - 1)) < snd x"
    then obtain i where i: "i < length ?cs" "x = ?cs ! i" by (auto simp: in_set_conv_nth)
    have "\<not> i \<le> n - 1"
    proof
      assume "i \<le> n - 1"
      then have "i = n - 1 \<or> snd (?cs ! i) < snd (?cs ! (n - 1))"
        using cands_less [OF ok v, of i "n - 1" now cur] n by linarith
      then show False using x i by auto
    qed
    then have "x = drop n ?cs ! (i - n)" "i - n < length (drop n ?cs)" using i n by auto
    then show "x \<in> set (drop n ?cs)" by (metis nth_mem)
  qed
  moreover have "x \<in> set (cands s ord' now (snd (?cs ! (n - 1)))) \<longleftrightarrow> x \<in> set ?cs \<and> snd (?cs ! (n - 1)) < snd x" for x
  proof -
    have "?cs ! (n - 1) \<in> set ?cs" using n by auto
    then have "cur < snd (?cs ! (n - 1))"
      using c(1) [of "fst (?cs ! (n - 1))" "snd (?cs ! (n - 1))"] by auto
    then show ?thesis
      using c(1) [of "fst x" "snd x"] cands_props(1) [OF ok v', of "fst x" "snd x" now "snd (?cs ! (n - 1))"]
      by auto
  qed
  ultimately show "set (drop n ?cs) = set (cands s ord' now (snd (?cs ! (n - 1))))" by blast
qed

fun scanAll ::
  "(nat \<Rightarrow> (string \<times> entry) list) \<Rightarrow> time \<Rightarrow> string \<Rightarrow> int \<Rightarrow> nat \<Rightarrow> nat \<Rightarrow> string list \<Rightarrow> string list option" where
  "scanAll ords now p cnt 0 cur out = None"
| "scanAll ords now p cnt (Suc fuel) cur out =
     (case Store_Scan (ords fuel) now cur p cnt of
        Inl _ \<Rightarrow> None
      | Inr (ks, nxt) \<Rightarrow>
          if nxt = 0 then Some (out @ ks) else scanAll ords now p cnt fuel nxt (out @ ks))"

lemma scanAll_eq:
  assumes ok: "seqs_ok s" and v: "\<And>i. visits (ords i) s" and p: "valid p"
  shows "length (cands s ord now cur) < fuel \<Longrightarrow> visits ord s \<Longrightarrow>
    scanAll ords now p cnt fuel cur out =
      Some (out @ map fst (filter (\<lambda>(k, q). matches p k) (cands s ord now cur)))"
proof (induction fuel arbitrary: cur out ord)
  case (Suc fuel)
  let ?cs = "cands s ord now cur"
  let ?n = "min (pageSize cnt) (length ?cs)"
  have same: "cands s (ords fuel) now cur = ?cs"
    by (rule cands_unique [OF ok Suc.prems(2)])
       (use cands_props [OF ok v, where now = now and cur = cur] cands_props(1) [OF ok Suc.prems(2), where now = now and cur = cur] in auto)
  have page: "Store_Scan (ords fuel) now cur p cnt =
      Inr (map fst (filter (\<lambda>(k, q). matches p k) (take ?n ?cs)), if length ?cs \<le> ?n then 0 else snd (?cs ! (?n - 1)))"
    using Scan_eq [OF p, of "ords fuel" now cur cnt s] same by (simp add: Let_def)
  show ?case
  proof (cases "length ?cs \<le> ?n")
    case True
    then show ?thesis using page by simp
  next
    case False
    then have n: "0 < ?n" "?n < length ?cs" by auto
    have nz: "snd (?cs ! (?n - 1)) \<noteq> 0"
    proof -
      have "?cs ! (?n - 1) \<in> set ?cs" using n by (intro nth_mem) auto
      then show ?thesis
        using cands_props(1) [OF ok Suc.prems(2), of "fst (?cs ! (?n - 1))" "snd (?cs ! (?n - 1))" now cur] by auto
    qed
    note nx = cands_next [OF ok Suc.prems(2) Suc.prems(2) n]
    have "length (cands s ord now (snd (?cs ! (?n - 1)))) < fuel"
      unfolding nx length_drop using Suc.prems(1) n by linarith
    from Suc.IH [OF this Suc.prems(2)] show ?thesis
      using page nz False nx n(2)
      by (simp del: filter_append add: append_take_drop_id flip: map_append filter_append)
  qed
qed simp

section \<open>Properties\<close>

text \<open>A small keyspace for the examples: a string, a list under a key with a slash, a key with a deadline.\<close>

lemma seqs_ok_run:
  "seqs_ok s \<Longrightarrow> st_seqCounter s + length ops \<le> MaxUint64 \<Longrightarrow> seqs_ok (snd (run ops s))"
proof (induction ops arbitrary: s)
  case (Cons x ops)
  obtain now op where x: "x = (now, op)" by (cases x)
  obtain k where loc: "seq_local k s (snd (store_exec now op s))" using exec_seq_local by blast
  have room: "st_seqCounter s < MaxUint64" using Cons.prems(2) by simp
  note st = seqs_step [OF Cons.prems(1) loc room]
  have "seqs_ok (snd (run ops (snd (store_exec now op s))))"
    using Cons.IH [OF st(1)] st(3) Cons.prems(2) by simp
  then show ?case by (simp add: x case_prod_beta Let_def)
qed simp

definition demoOps :: "(time \<times> store_op) list" where
  "demoOps = [(1, OSet ''a'' ''1'' SetAlways zeroTime), (2, ORPush ''b/c'' [''x'']), (3, OSet ''d'' ''2'' SetAlways 10)]"

definition demo :: store where
  "demo = snd (run demoOps NewStore)"

lemma demo_ok: "store_ok demo" "seqs_ok demo"
proof -
  have "admissible 0 demoOps Map.empty" by (simp add: demoOps_def)
  then show "store_ok demo"
    unfolding demo_def using run_refines [OF store_ok_New(1), of 0 Map.empty demoOps] store_ok_New(2) by simp
  show "seqs_ok demo"
    unfolding demo_def by (rule seqs_ok_run [OF seqs_ok_New]) (simp add: NewStore_def demoOps_def MaxUint64_def)
qed

lemma demo_view:
  "view demo 5 = [''a'' \<mapsto> (VString ''1'', zeroTime), ''b/c'' \<mapsto> (VList [''x''], zeroTime), ''d'' \<mapsto> (VString ''2'', 10)]"
  "view demo 20 = [''a'' \<mapsto> (VString ''1'', zeroTime), ''b/c'' \<mapsto> (VList [''x''], zeroTime)]"
  using run_refines [OF store_ok_New(1), of 0 Map.empty demoOps] store_ok_New(2)
  by (auto simp: demo_def demoOps_def live_def isZero_def specPush_def fun_eq_iff zeroTime_def)

lemma demo_star: "{k. view demo 20 k \<noteq> None \<and> matches ''*'' k} = {''a''}"
proof -
  have "view demo 20 k \<noteq> None \<longleftrightarrow> k = ''a'' \<or> k = ''b/c''" for k by (simp add: demo_view)
  moreover have "matches ''*'' ''a''" "\<not> matches ''*'' ''b/c''" by (simp_all add: matches_def pathMatch_star)
  ultimately show ?thesis by blast
qed

lemma demo_length: "length (st_data demo) = 3" "st_seqCounter demo = 3"
  by (simp_all add: demo_def demoOps_def store_defs)

text \<open>
  Claim C2. SCAN under concurrent mutation: whatever keyspace operations run between the calls, and in
  whatever order each call visits the map, a key that is present at every call of a completed iteration
  and matches the pattern is returned, even when it is deleted and created again in between.
\<close>

theorem scan_finds_key:
  assumes "(scan_step p cnt k)\<^sup>*\<^sup>* scan_start st" and "sc_done st" and "matches p k"
  shows "k \<in> set (sc_out st)"
  using scan_inv_reach [OF assms(1,3)] assms(2) by (simp add: scan_inv_def)

theorem scan_finds_key_witness:
  "\<exists>st. (scan_step ''k'' 5 ''k'')\<^sup>*\<^sup>* scan_start st \<and> sc_done st \<and> ''k'' \<in> set (sc_out st)"
proof -
  let ?st1 = "scan_start\<lparr>sc_store := snd (store_exec 0 (OSet ''k'' ''v'' SetAlways zeroTime) (sc_store scan_start))\<rparr>"
  let ?st2 = "?st1\<lparr>sc_cursor := 0, sc_out := sc_out ?st1 @ [''k''], sc_done := ((0::nat) = 0)\<rparr>"
  let ?ord = "st_data (sc_store ?st1)"
  have m: "pathMatch ''k'' ''k'' = Some True" "pathMatch ''k'' [] = Some False"
    by (simp_all add: pathMatch.simps scanChunk_def matchChunk.simps validateRest_Nil)
  have "scan_step ''k'' 5 ''k'' scan_start ?st1"
    by (rule scan_step.mutate) (simp add: scan_start_def NewStore_def MaxUint64_def)
  moreover have "scan_step ''k'' 5 ''k'' ?st1 ?st2"
  proof (rule scan_step.page [where ord = ?ord and now = 1])
    show "view (sc_store ?st1) 1 ''k'' \<noteq> None"
      by (simp add: scan_start_def store_defs view_def)
    show "Store_Scan ?ord 1 (sc_cursor ?st1) ''k'' 5 = Inr ([''k''], 0)"
      by (simp add: scan_start_def store_defs m)
  qed (simp_all add: scan_start_def)
  ultimately have r: "(scan_step ''k'' 5 ''k'')\<^sup>*\<^sup>* scan_start ?st2" by auto
  have "''k'' \<in> set (sc_out ?st2)"
    by (rule scan_finds_key [OF r]) (simp_all add: matches_def m)
  with r show ?thesis by auto
qed

text \<open>
  Claim C14. SCAN on an unchanged keyspace ends after at most one call per key plus one and returns every
  live matching key exactly once, for every page size and every visiting order.
\<close>

theorem scan_static_exact:
  assumes "seqs_ok s" and "\<And>i. visits (ords i) s" and "valid p"
  shows "\<exists>ks. scanAll ords now p cnt (length (st_data s) + 1) 0 [] = Some ks \<and> distinct ks \<and>
    set ks = {k. view s now k \<noteq> None \<and> matches p k}"
proof -
  let ?cs = "cands s (ords 0) now 0"
  note c = cands_props [OF assms(1,2), where now = now and cur = 0]
  have "length (ords 0) = length (st_data s)" using assms(2) [of 0] by (metis size_mset)
  then have "length ?cs < length (st_data s) + 1"
    using length_filter_le [of "\<lambda>(k, e). e_seq e > 0 \<and> \<not> expired e now" "ords 0"]
    by (simp add: cands_def scanCand_eq)
  from scanAll_eq [where ords = ords and p = p, OF assms this assms(2), of cnt "[]"]
  have "scanAll ords now p cnt (length (st_data s) + 1) 0 [] =
      Some (map fst (filter (\<lambda>(k, q). matches p k) ?cs))" by (simp del: scanAll.simps)
  moreover have "distinct (map fst (filter (\<lambda>(k, q). matches p k) ?cs))"
    using c(4) by (simp add: distinct_map_filter)
  moreover have "set (map fst (filter (\<lambda>(k, q). matches p k) ?cs)) = {k. view s now k \<noteq> None \<and> matches p k}"
  proof (intro set_eqI)
    fix k
    have pos: "0 < e_seq e" if "lookup s k = Some e" for e using assms(1) that unfolding seqs_ok_def by blast
    have "k \<in> set (map fst (filter (\<lambda>(k, q). matches p k) ?cs)) \<longleftrightarrow> (\<exists>q. (k, q) \<in> set ?cs) \<and> matches p k"
      unfolding fst_filter_mem by blast
    then show "k \<in> set (map fst (filter (\<lambda>(k, q). matches p k) ?cs)) \<longleftrightarrow> k \<in> {k. view s now k \<noteq> None \<and> matches p k}"
      unfolding mem_Collect_eq view_live using c(1) pos by blast
  qed
  ultimately show ?thesis by blast
qed

theorem scan_static_exact_witness:
  "\<exists>ks. scanAll (\<lambda>_. rev (st_data demo)) 20 ''*'' 1 4 0 [] = Some ks \<and> distinct ks \<and> set ks = {''a''}"
proof -
  have "valid ''*''" by (simp add: valid_def pathMatch_star)
  from scan_static_exact [OF demo_ok(2) _ this, of "\<lambda>_. rev (st_data demo)" 20 1]
  obtain ks where ks: "scanAll (\<lambda>_. rev (st_data demo)) 20 ''*'' 1 4 0 [] = Some ks" "distinct ks"
    "set ks = {k. view demo 20 k \<noteq> None \<and> matches ''*'' k}"
    by (auto simp: demo_length simp del: scanAll.simps)
  then show ?thesis unfolding demo_star by blast
qed

text \<open>
  KEYS returns, for a well-formed pattern, exactly the live matching keys, each once.
\<close>

lemma keys_exact:
  assumes "store_ok s" and "visits ord s" and "valid p"
  shows "\<exists>ks. Store_Keys ord now p = Inr ks \<and> distinct ks \<and> set ks = {k. view s now k \<noteq> None \<and> matches p k}"
proof -
  obtain b where b: "pathMatch p [] = Some b" using assms(3) by (auto simp: valid_def)
  note d = store_okD(2) [OF assms(1)]
  let ?ks = "map fst (filter (\<lambda>(k, e). \<not> expired e now \<and> matches p k) ord)"
  have "Store_Keys ord now p = Inr ?ks" using b keysLoop_eq [OF assms(3)] by (simp add: Store_Keys_def)
  moreover have "distinct ?ks" using visits_distinct [OF assms(2) d] by (simp add: distinct_map_filter)
  moreover have "set ?ks = {k. view s now k \<noteq> None \<and> matches p k}"
  proof (intro set_eqI)
    fix k
    have "k \<in> set ?ks \<longleftrightarrow> (\<exists>e. (k, e) \<in> set ord \<and> \<not> expired e now) \<and> matches p k"
      unfolding fst_filter_mem by blast
    then show "k \<in> set ?ks \<longleftrightarrow> k \<in> {k. view s now k \<noteq> None \<and> matches p k}"
      unfolding mem_Collect_eq view_live visits_entry [OF assms(2) d] .
  qed
  ultimately show ?thesis by blast
qed

text \<open>
  The pattern \<open>*\<close>, which SCAN uses when no MATCH is given, matches exactly the keys without a
  slash: KEYS * does not list a live key that contains one.
\<close>

lemma star_pattern_skips_slash: "valid ''*'' \<and> (matches ''*'' k \<longleftrightarrow> CHR ''/'' \<notin> set k)"
  by (simp add: valid_def matches_def pathMatch_star)

lemma snapshot_spec:
  assumes "store_ok s" and "visits ord s" and "Store_Snapshot ord now s = (out, s')"
  shows "distinct (map se_Key out) \<and>
    (\<forall>k v t. (\<exists>se \<in> set out. se_Key se = k \<and> snapVal se = Some v \<and> se_ExpireAt se = t) \<longleftrightarrow>
       view s now k = Some (v, t)) \<and>
    store_ok s' \<and> view s' now = view s now \<and> (\<forall>k e. lookup s' k = Some e \<longrightarrow> \<not> expired e now)"
proof -
  note d = store_okD(2) [OF assms(1)]
  note mem = visits_entry [OF assms(2) d]
  let ?live = "filter (\<lambda>(k, e). \<not> expired e now) ord" and ?dead = "map fst (filter (\<lambda>(k, e). expired e now) ord)"
  have out: "out = map (\<lambda>(k, e). snapEntry (st_heap s) k e) ?live"
    and s': "s' = foldl (\<lambda>s k. delEntry k s) s ?dead"
    using assms(3) by (simp_all add: Store_Snapshot_def snapshotLoop_eq)
  have keys: "map se_Key out = map fst ?live" by (simp add: out case_prod_beta')
  have ev: "evictions now ?dead s" using mem by (auto simp: evictions_def)
  note f = foldl_evict [OF assms(1) ev]
  have "(\<exists>se \<in> set out. se_Key se = k \<and> snapVal se = Some v \<and> se_ExpireAt se = t) \<longleftrightarrow> view s now k = Some (v, t)"
    for k v t
  proof -
    have "(\<exists>se \<in> set out. se_Key se = k \<and> snapVal se = Some v \<and> se_ExpireAt se = t) \<longleftrightarrow>
      (\<exists>e. (k, e) \<in> set ord \<and> \<not> expired e now \<and> avalOf (st_heap s) e = v \<and> e_expireAt e = t)"
      by (force simp: out snapVal_snapEntry)
    then show ?thesis using mem by (auto simp: view_def split: option.splits)
  qed
  moreover have "distinct (map se_Key out)"
    unfolding keys using visits_distinct [OF assms(2) d] by (simp add: distinct_map_filter)
  moreover have "\<not> expired e now" if "lookup s' k = Some e" for k e
  proof
    assume x: "expired e now"
    have l: "k \<notin> set ?dead" "lookup s k = Some e" using that f(3) [of k] s' by (auto split: if_splits)
    then have "(k, e) \<in> set ord" using mem by simp
    then show False using x l(1) by (force simp: image_iff)
  qed
  ultimately show ?thesis using f(1,2) s' by blast
qed

text \<open>
  Claim C12. The snapshot of BGREWRITEAOF holds exactly the abstract keyspace: one entry per live key with
  its value and deadline, no entry for any other key; it evicts every expired key and nothing else.
\<close>

theorem snapshot_exact:
  assumes "store_ok s" and "visits ord s" and "Store_Snapshot ord now s = (out, s')"
  shows "distinct (map se_Key out) \<and>
    (\<forall>k v t. (\<exists>se \<in> set out. se_Key se = k \<and> snapVal se = Some v \<and> se_ExpireAt se = t) \<longleftrightarrow>
       view s now k = Some (v, t)) \<and>
    store_ok s' \<and> view s' now = view s now \<and> (\<forall>k e. lookup s' k = Some e \<longrightarrow> \<not> expired e now)"
  by (rule snapshot_spec [OF assms])

theorem snapshot_exact_witness:
  "\<exists>out s'. Store_Snapshot (st_data demo) 20 demo = (out, s') \<and>
     (\<exists>se \<in> set out. se_Key se = ''b/c'' \<and> snapVal se = Some (VList [''x''])) \<and> lookup s' ''d'' = None"
proof -
  obtain out s' where r: "Store_Snapshot (st_data demo) 20 demo = (out, s')" by fastforce
  note x = snapshot_exact [OF demo_ok(1) refl r]
  have snap: "\<exists>se \<in> set out. se_Key se = ''b/c'' \<and> snapVal se = Some (VList [''x'']) \<and> se_ExpireAt se = zeroTime"
    using x by (simp add: demo_view)
  have "view s' 20 ''d'' = None" using x by (simp add: demo_view)
  moreover have "\<forall>k e. lookup s' k = Some e \<longrightarrow> \<not> expired e 20" using x by blast
  ultimately have "lookup s' ''d'' = None" using view_live [of s' 20 "''d''"] by (cases "lookup s' ''d''") auto
  with snap show ?thesis using r by blast
qed

text \<open>A sweep pass samples a prefix of the visiting order and removes the expired keys in it.\<close>

lemma foldl_del_length:
  "distinct (map fst (st_data s)) \<Longrightarrow> distinct ks \<Longrightarrow> set ks \<subseteq> dom (lookup s) \<Longrightarrow>
   length (st_data (foldl (\<lambda>s k. delEntry k s) s ks)) + length ks = length (st_data s)"
proof (induction ks arbitrary: s)
  case (Cons k ks)
  have k: "map_of (st_data s) k \<noteq> None" using Cons.prems(3) by auto
  then have "0 < length (st_data s)" by (cases "st_data s") auto
  then have l: "Suc (length (st_data (delEntry k s))) = length (st_data s)"
    using k length_delete_alist [OF Cons.prems(1), of k] by (simp add: delEntry_def)
  have "set ks \<subseteq> dom (lookup (delEntry k s))" using Cons.prems(2,3) by (auto simp: delEntry_def)
  then show ?case using Cons.IH [of "delEntry k s"] Cons.prems(1,2) l by (simp add: delEntry_def)
qed simp

lemma foldl_del_subset: "set (st_data (foldl (\<lambda>s k. delEntry k s) u ks)) \<subseteq> set (st_data u)"
proof (induction ks arbitrary: u)
  case (Cons k ks)
  have "set (st_data (delEntry k u)) \<subseteq> set (st_data u)" by (auto simp: delEntry_def set_delete_alist)
  with Cons.IH [of "delEntry k u"] show ?case unfolding foldl_Cons by (rule order_trans)
qed simp

lemma sweepOnce_spec:
  assumes "store_ok s" and "visits ord s" and "sweepOnce ord now batch s = (sampled, evicted, s')"
  shows "store_ok s'" and "view s' now = view s now" and "0 \<le> evicted" and "evicted \<le> sampled"
    and "sampled = (if batch \<le> 0 then 0 else min batch (int (length (st_data s))))"
    and "int (length (st_data s')) = int (length (st_data s)) - evicted"
    and "\<forall>(k, e) \<in> set (st_data s). expired e now \<Longrightarrow> evicted = sampled \<and> (\<forall>(k, e) \<in> set (st_data s'). expired e now)"
proof -
  let ?xs = "if batch \<le> 0 then [] else take (nat batch) ord"
  let ?dead = "map fst (filter (\<lambda>(k, e). expired e now) ?xs)"
  have r: "sampled = int (length ?xs)" "evicted = int (length ?dead)" "s' = foldl (\<lambda>s k. delEntry k s) s ?dead"
    using assms(3) sweepLoop_eq [of 0 batch now ord 0 s] by (cases "batch \<le> 0"; simp add: sweepOnce_def Let_def)+
  have dk: "distinct (map fst (st_data s))" by (rule store_okD(2) [OF assms(1)])
  have sub: "set ?xs \<subseteq> set ord" using set_take_subset by (auto dest: in_set_takeD)
  note ve = visits_entry [OF assms(2) dk]
  have ev: "evictions now ?dead s" using ve sub by (auto simp: evictions_def split: if_splits)
  show "store_ok s'" "view s' now = view s now" using foldl_evict(1,2) [OF assms(1) ev] r(3) by simp_all
  show "0 \<le> evicted" "evicted \<le> sampled" using length_filter_le [of "\<lambda>(k, e). expired e now" ?xs] by (simp_all only: r length_map of_nat_le_iff of_nat_0_le_iff)
  have lo: "length ord = length (st_data s)" using assms(2) by (metis size_mset)
  then show "sampled = (if batch \<le> 0 then 0 else min batch (int (length (st_data s))))"
    using r(1) by (auto simp: min_def split: if_splits)
  have dd: "distinct ?dead" using distinct_map_filter [of fst ?xs] visits_distinct [OF assms(2) dk] by (simp add: take_map [symmetric])
  have "set ?dead \<subseteq> dom (lookup s)" using ve sub by (force split: if_splits)
  from foldl_del_length [OF dk dd this] show "int (length (st_data s')) = int (length (st_data s)) - evicted" using r(2,3) by simp
  assume ex: "\<forall>(k, e) \<in> set (st_data s). expired e now"
  have "filter (\<lambda>(k, e). expired e now) ?xs = ?xs" using ex sub mset_eq_setD [OF assms(2)] by (intro filter_True) blast
  moreover have "\<forall>(k, e) \<in> set (st_data s'). expired e now"
  proof -
    have "set (st_data s') \<subseteq> set (st_data s)" unfolding r(3) by (rule foldl_del_subset)
    then show ?thesis using ex by blast
  qed
  ultimately show "evicted = sampled \<and> (\<forall>(k, e) \<in> set (st_data s'). expired e now)" using r(1,2) by simp
qed

text \<open>
  Creation sequences stay positive, distinct and below the counter under every keyspace operation,
  the counter never decreases, and every key still present keeps its sequence or gets a fresh one, as long
  as the 64-bit counter has not reached its end.
\<close>

lemma seqs_preserved:
  assumes "seqs_ok s" and "st_seqCounter s < MaxUint64" and "store_exec now op s = (r, s')"
  shows "seqs_ok s' \<and> st_seqCounter s \<le> st_seqCounter s' \<and>
    (\<forall>k e'. lookup s' k = Some e' \<longrightarrow>
       (\<exists>e. lookup s k = Some e \<and> e_seq e' = e_seq e) \<or> st_seqCounter s < e_seq e')"
proof -
  obtain j where "seq_local j s s'" using exec_seq_local [of s now op] assms(3) by auto
  from seqs_step [OF assms(1) this assms(2)] show ?thesis by blast
qed

end
