(* ===== verification/Rewrite.thy ===== *)
theory Rewrite
  imports Rebuild StoreScan
begin

text \<open>
  BGREWRITEAOF end to end: the canonical commands of a snapshot rebuild the snapshotted
  keyspace with deadlines truncated to the millisecond, so a rewrite during which no client
  writes keeps what the log stands for; an INCR between arming the side buffer and the snapshot is
  applied twice at replay, and a list of more than 1048574 elements makes the log unreadable.
\<close>

section \<open>Stores with deadlines\<close>

text \<open>The store represents a keyspace whose expired keys are absent, from an instant on.\<close>

definition holds :: "time \<Rightarrow> db \<Rightarrow> store \<Rightarrow> bool" where
  "holds T db st \<longleftrightarrow> store_ok st \<and> (\<forall>t. T \<le> t \<longrightarrow> view st t = live t db)"

lemma holds_exec:
  assumes "holds T db st" and "T \<le> now" and "args_ok op" and "\<not> copies_hash op (live now db)"
    and "store_exec now op st = (rp, st')"
  shows "rp = fst (spec now op (live now db))" and "holds now (snd (spec now op (live now db))) st'"
proof -
  have v: "view st now = live now db" and ok: "store_ok st" using assms(1,2) by (auto simp: holds_def)
  show rp: "rp = fst (spec now op (live now db))"
    using store_exec_ok(3) [OF ok assms(3,5)] assms(4) v by simp
  have "spec now op (view st now) = (rp, snd (spec now op (live now db)))" using rp v by simp
  then show "holds now (snd (spec now op (live now db))) st'"
    using store_exec_ok(1,2) [OF ok assms(3,5)] assms(4) v by (simp add: holds_def)
qed

lemma live_upd_live: "now \<le> t \<Longrightarrow> live t ((live now db)(k \<mapsto> x)) = live t (db(k \<mapsto> x))"
  by (auto simp: live_def fun_eq_iff split: option.splits)

lemma holds_upd: "holds now ((live now db)(k \<mapsto> x)) st \<Longrightarrow> holds now (db(k \<mapsto> x)) st"
  by (auto simp: holds_def live_upd_live)

lemma holds_later: "holds T db st \<Longrightarrow> T \<le> U \<Longrightarrow> holds U db st"
  by (auto simp: holds_def)

lemma live_None: "db k = None \<Longrightarrow> live t db k = None"
  by (simp add: live_def)

section \<open>Values of a snapshot\<close>

fun wfVal :: "aval \<Rightarrow> bool" where
  "wfVal (VString v) = True"
| "wfVal (VList xs) = (xs \<noteq> [])"
| "wfVal (VHash m) = (m \<noteq> [] \<and> distinct (map fst m))"

lemma view_wf: "store_ok st \<Longrightarrow> view st now k = Some (v, t) \<Longrightarrow> wfVal v"
proof -
  assume ok: "store_ok st" and v: "view st now k = Some (v, t)"
  obtain e where e: "lookup st k = Some e" "v = avalOf (st_heap st) e" using v by (auto simp: view_def split: option.splits if_splits)
  have l: "dq_count (e_list e) \<noteq> 0 \<Longrightarrow> dq_list (e_list e) \<noteq> []" by (metis length_dq_list list.size(3))
  show "wfVal v"
    using l store_okD(3) [OF ok e(1)] e(2) hash_pairs_ne [of "st_heap st" e] hashPairs_keys [of "st_heap st" e]
    by (cases "e_typ e") (auto simp: avalOf_def entry_ok_def hash_ok_def)
qed

lemma hsetPairs_fresh:
  "distinct (map fst (m @ ps)) \<Longrightarrow> hsetPairs (concat (map (\<lambda>(f, v). [f, v]) ps)) m = m @ ps"
proof (induction ps arbitrary: m)
  case (Cons p ps)
  obtain f v where p: "p = (f, v)" by (cases p)
  have "AList.update f v m = m @ [(f, v)]"
    using Cons.prems p by (induction m) (auto simp: AList.update.simps split: prod.splits)
  then show ?case using Cons p by simp
qed simp

definition truncDeadline :: "time \<Rightarrow> time" where
  "truncDeadline t = (if isZero t then zeroTime else truncTime t)"

section \<open>Replaying canonical commands\<close>

lemma handler_exec:
  assumes "holds T db (sv_store s)" and "sv_aof s = None" and "legal c" and "mutOp (ev_now (envs n)) c = Inr op"
    and "T \<le> ev_storeNow (envs n)" and "\<not> copies_hash op (live (ev_storeNow (envs n)) db)"
    and "spec (ev_storeNow (envs n)) op (live (ev_storeNow (envs n)) db) = (rp, db')" and "\<not> isError (mutReply op rp)"
  shows "\<exists>s'. replayHandler pr envs c (s, n) = (None, s', n + 1) \<and> sv_aof s' = None \<and> holds (ev_storeNow (envs n)) db' (sv_store s')"
proof -
  let ?now = "ev_storeNow (envs n)"
  obtain rp' st where e: "store_exec ?now op (sv_store s) = (rp', st)" by fastforce
  note h = holds_exec [OF assms(1,5) legal_args(1) [OF assms(3,4)] assms(6) e]
  have rp: "rp' = rp" using h(1) assms(7) by simp
  have run: "mutRun (envs n) c s = (mutReply op rp, setStore st s)"
    using assms(2,4) e rp by (simp add: mutRun_def appendReply_replay)
  have "replayApply pr (envs n) c s = Some (None, setStore st s)"
    using legal_dispatch [OF assms(3) applying_local] run assms(8)
    by (simp add: replayApply_def isError_def split: resp_value.splits)
  then show ?thesis using h(2) assms(2,7) by (simp add: replayHandler_def)
qed

lemma mutOp_canonical:
  "mutOp t (''RPUSH'' # k # xs) = Inr (ORPush k xs)"
  "even (length xs) \<Longrightarrow> mutOp t (''HSET'' # k # xs) = Inr (OHSet k xs)"
  "mutOp t (renderPExpireAt k d) = Inr (OExpire k (truncTime d))"
  "mutOp t (renderCanonicalSet k v d) = Inr (OSet k v SetAlways (truncDeadline d))"
  using parse_rendered [of SetAlways d t]
  by (simp_all add: mutOp_def renderPExpireAt_def renderCanonicalSet_def truncTime_def truncDeadline_def even_iff_mod_2_eq_zero split: if_splits)

lemma legal_canonical:
  "command_ok (''RPUSH'' # k # xs) \<Longrightarrow> xs \<noteq> [] \<Longrightarrow> legal (''RPUSH'' # k # xs)"
  "command_ok (''HSET'' # k # xs) \<Longrightarrow> 2 \<le> length xs \<Longrightarrow> legal (''HSET'' # k # xs)"
  "command_ok (renderPExpireAt k d) \<Longrightarrow> legal (renderPExpireAt k d)"
  "command_ok (renderCanonicalSet k v d) \<Longrightarrow> legal (renderCanonicalSet k v d)"
  by (simp_all add: legal_def commands_def mkHandler_def arity_ok_def renderPExpireAt_def renderCanonicalSet_def Suc_le_eq)

lemma hashArgs_pairs:
  "hashArgs se = concat (map (\<lambda>(f, v). [f, v]) (map (\<lambda>f. (f, hashGet (se_Hash se) f)) (se_HashOrder se)))"
  "even (length (hashArgs se))"
  by (simp_all add: hashArgs_def o_def length_concat sum_list_triv)

text \<open>A creating command followed, for a key with a deadline, by its PEXPIREAT.\<close>

lemma block_replay:
  assumes h: "holds T db (sv_store s)" "sv_aof s = None" and clk: "T \<le> ev_storeNow (envs n)" "ev_storeNow (envs n) \<le> ev_storeNow (envs (Suc n))"
    and new: "db k = None" and c: "legal c" "\<And>t. mutOp t c = Inr op"
    and sp: "\<And>now d. d k = None \<Longrightarrow> \<exists>rp. spec now op d = (rp, d(k \<mapsto> (v, zeroTime))) \<and> \<not> isError (mutReply op rp) \<and> \<not> copies_hash op d"
    and p: "isZero d \<or> legal (renderPExpireAt k d)"
  shows "\<exists>s' m. applyAll (replayHandler pr envs) (c # (if isZero d then [] else [renderPExpireAt k d])) (s, n) = (None, m, s', n + m) \<and>
    0 < m \<and> sv_aof s' = None \<and>
    holds (ev_storeNow (envs (n + m - 1))) (db(k \<mapsto> (v, truncDeadline d))) (sv_store s')"
proof -
  let ?t0 = "ev_storeNow (envs n)" and ?t1 = "ev_storeNow (envs (Suc n))"
  obtain rp where rp: "spec ?t0 op (live ?t0 db) = (rp, (live ?t0 db)(k \<mapsto> (v, zeroTime)))" "\<not> isError (mutReply op rp)"
    "\<not> copies_hash op (live ?t0 db)"
    using sp [where d = "live ?t0 db" and now = ?t0] live_None [of db k ?t0, OF new] by blast
  obtain s1 where s1: "replayHandler pr envs c (s, n) = (None, s1, n + 1)" "sv_aof s1 = None"
    "holds ?t0 ((live ?t0 db)(k \<mapsto> (v, zeroTime))) (sv_store s1)"
    using handler_exec [where pr = pr and envs = envs and n = n, OF h c(1) c(2) clk(1) rp(3,1,2)] by blast
  note h1 = holds_upd [OF s1(3)]
  show ?thesis
  proof (cases "isZero d")
    case True
    then show ?thesis using s1 h1 by (simp add: truncDeadline_def)
  next
    case False
    have l: "live ?t1 (db(k \<mapsto> (v, zeroTime))) k = Some (v, zeroTime)" by (simp add: live_def isZero_def)
    have sp1: "spec ?t1 (OExpire k (truncTime d)) (live ?t1 (db(k \<mapsto> (v, zeroTime)))) =
        (RpBool True, (live ?t1 (db(k \<mapsto> (v, zeroTime))))(k \<mapsto> (v, truncTime d)))" using l by simp
    have leg: "legal (renderPExpireAt k d)" using p False by blast
    have ne: "\<not> isError (mutReply (OExpire k (truncTime d)) (RpBool True))" by (simp add: mutReply_def isError_def)
    obtain s2 where s2: "replayHandler pr envs (renderPExpireAt k d) (s1, Suc n) = (None, s2, Suc n + 1)" "sv_aof s2 = None"
      "holds ?t1 ((live ?t1 (db(k \<mapsto> (v, zeroTime))))(k \<mapsto> (v, truncTime d))) (sv_store s2)"
      using handler_exec [where pr = pr and envs = envs and n = "Suc n", OF h1 s1(2) leg mutOp_canonical(3) clk(2) _ sp1 ne] by auto
    from holds_upd [OF s2(3)] show ?thesis using s1(1) s2(1,2) False by (simp add: truncDeadline_def)
  qed
qed

text \<open>The commands of one snapshot entry.\<close>

lemma entry_replay:
  assumes h: "holds T db (sv_store s)" "sv_aof s = None" and clk: "T \<le> ev_storeNow (envs n)"
      "ev_storeNow (envs n) \<le> ev_storeNow (envs (Suc n))"
    and se: "snapVal se = Some v" "wfVal v" "db (se_Key se) = None" "\<forall>c \<in> set (snapshotCmds se). command_ok c"
  shows "\<exists>s' m. applyAll (replayHandler pr envs) (snapshotCmds se) (s, n) = (None, m, s', n + m) \<and> 0 < m \<and> sv_aof s' = None \<and>
    holds (ev_storeNow (envs (n + m - 1))) (db(se_Key se \<mapsto> (v, truncDeadline (se_ExpireAt se)))) (sv_store s')"
proof (cases v)
  case (VString b)
  let ?t = "ev_storeNow (envs n)"
  have se': "se_Type se = ''string''" "se_Value se = b"
    using se(1) VString by (auto simp: snapVal_def split: if_splits)
  then have cmds: "snapshotCmds se = [renderCanonicalSet (se_Key se) b (se_ExpireAt se)]" by (simp add: snapshotCmds_def)
  then have leg: "legal (renderCanonicalSet (se_Key se) b (se_ExpireAt se))" using se(4) legal_canonical(4) by simp
  have sp: "spec ?t (OSet (se_Key se) b SetAlways (truncDeadline (se_ExpireAt se))) (live ?t db) =
      (RpBool True, (live ?t db)(se_Key se \<mapsto> (VString b, truncDeadline (se_ExpireAt se))))" by simp
  obtain s' where "replayHandler pr envs (renderCanonicalSet (se_Key se) b (se_ExpireAt se)) (s, n) = (None, s', n + 1)"
    "sv_aof s' = None" "holds ?t ((live ?t db)(se_Key se \<mapsto> (VString b, truncDeadline (se_ExpireAt se)))) (sv_store s')"
    using handler_exec [where pr = pr and envs = envs and n = n, OF h leg mutOp_canonical(4) clk(1) _ sp]
    by (auto simp: mutReply_def isError_def ROK_def)
  then show ?thesis using holds_upd cmds VString by simp
next
  case (VList xs)
  have se': "se_Type se = ''list''" "se_List se = xs" using se(1) VList by (auto simp: snapVal_def split: if_splits)
  have cmds: "snapshotCmds se = (''RPUSH'' # se_Key se # xs) #
      (if isZero (se_ExpireAt se) then [] else [renderPExpireAt (se_Key se) (se_ExpireAt se)])"
    using se' by (simp add: snapshotCmds_def)
  have leg: "legal (''RPUSH'' # se_Key se # xs)" "isZero (se_ExpireAt se) \<or> legal (renderPExpireAt (se_Key se) (se_ExpireAt se))"
    using se(2,4) VList legal_canonical(1,3) by (auto simp: cmds split: if_splits)
  have sp: "\<exists>rp. spec now (ORPush (se_Key se) xs) d = (rp, d(se_Key se \<mapsto> (VList xs, zeroTime))) \<and>
      \<not> isError (mutReply (ORPush (se_Key se) xs) rp) \<and> \<not> copies_hash (ORPush (se_Key se) xs) d"
    if "d (se_Key se) = None" for now d
    using that by (simp add: specPush_def mutReply_def isError_def)
  show ?thesis
    unfolding cmds VList
    by (rule block_replay [where pr = pr and envs = envs and n = n, OF h clk se(3) leg(1) mutOp_canonical(1) _ leg(2)]) (rule sp)
next
  case (VHash m)
  have se': "se_Type se = ''hash''" "m = map (\<lambda>f. (f, hashGet (se_Hash se) f)) (se_HashOrder se)"
    using se(1) VHash by (auto simp: snapVal_def split: if_splits)
  have cmds: "snapshotCmds se = (''HSET'' # se_Key se # hashArgs se) #
      (if isZero (se_ExpireAt se) then [] else [renderPExpireAt (se_Key se) (se_ExpireAt se)])"
    using se' by (simp add: snapshotCmds_def)
  have pairs: "hsetPairs (hashArgs se) [] = m"
    using hsetPairs_fresh [of "[]" m] se(2) VHash hashArgs_pairs(1) [of se] se'(2) by simp
  have len: "2 \<le> length (hashArgs se)" using se(2) VHash se'(2) by (cases "se_HashOrder se") (auto simp: hashArgs_def)
  have leg: "legal (''HSET'' # se_Key se # hashArgs se)" "isZero (se_ExpireAt se) \<or> legal (renderPExpireAt (se_Key se) (se_ExpireAt se))"
    using se(4) legal_canonical(2,3) len by (auto simp: cmds split: if_splits)
  have sp: "\<exists>rp. spec now (OHSet (se_Key se) (hashArgs se)) d = (rp, d(se_Key se \<mapsto> (VHash m, zeroTime))) \<and>
      \<not> isError (mutReply (OHSet (se_Key se) (hashArgs se)) rp) \<and> \<not> copies_hash (OHSet (se_Key se) (hashArgs se)) d"
    if "d (se_Key se) = None" for now d
    using that pairs by (simp add: specHSet_def mutReply_def isError_def)
  show ?thesis
    unfolding cmds VHash
    by (rule block_replay [where pr = pr and envs = envs and n = n,
          OF h clk se(3) leg(1) mutOp_canonical(2) [OF hashArgs_pairs(2)] _ leg(2)]) (rule sp)
qed

lemma clock_mono: "\<forall>m. ev_storeNow (envs m) \<le> ev_storeNow (envs (Suc m)) \<Longrightarrow> a \<le> b \<Longrightarrow> ev_storeNow (envs a) \<le> ev_storeNow (envs b)"
  using lift_Suc_mono_le [of "\<lambda>m. ev_storeNow (envs m)" a b] by simp

definition entriesDB :: "snapshotEntry list \<Rightarrow> db \<Rightarrow> db" where
  "entriesDB ses db = foldl (\<lambda>db se. db(se_Key se \<mapsto> (the (snapVal se), truncDeadline (se_ExpireAt se)))) db ses"

lemma entries_replay:
  "holds T db (sv_store s) \<Longrightarrow> sv_aof s = None \<Longrightarrow> T \<le> ev_storeNow (envs n) \<Longrightarrow>
   \<forall>m. ev_storeNow (envs m) \<le> ev_storeNow (envs (Suc m)) \<Longrightarrow>
   distinct (map se_Key ses) \<Longrightarrow> \<forall>se \<in> set ses. (\<exists>v. snapVal se = Some v \<and> wfVal v) \<and> db (se_Key se) = None \<Longrightarrow>
   \<forall>c \<in> set (concat (map snapshotCmds ses)). command_ok c \<Longrightarrow>
   \<exists>s' m. applyAll (replayHandler pr envs) (concat (map snapshotCmds ses)) (s, n) = (None, m, s', n + m) \<and> sv_aof s' = None \<and>
     holds (ev_storeNow (envs (n + m))) (entriesDB ses db) (sv_store s')"
proof (induction ses arbitrary: s n db T)
  case Nil
  then show ?case using holds_later by (auto simp: entriesDB_def)
next
  case (Cons se ses)
  obtain v where v: "snapVal se = Some v" "wfVal v" and new: "db (se_Key se) = None" using Cons.prems(6) by auto
  have step: "ev_storeNow (envs n) \<le> ev_storeNow (envs (Suc n))" using Cons.prems(4) by blast
  have cmd: "\<forall>c \<in> set (snapshotCmds se). command_ok c" using Cons.prems(7) by simp
  obtain s1 m1 where s1: "applyAll (replayHandler pr envs) (snapshotCmds se) (s, n) = (None, m1, s1, n + m1)" "0 < m1" "sv_aof s1 = None"
    "holds (ev_storeNow (envs (n + m1 - 1))) (db(se_Key se \<mapsto> (v, truncDeadline (se_ExpireAt se)))) (sv_store s1)"
    using entry_replay [where pr = pr, OF Cons.prems(1,2,3) step v new cmd] by blast
  have clk: "ev_storeNow (envs (n + m1 - 1)) \<le> ev_storeNow (envs (n + m1))" by (rule clock_mono [OF Cons.prems(4)]) simp
  have rest: "\<forall>se' \<in> set ses. (\<exists>v. snapVal se' = Some v \<and> wfVal v) \<and> (db(se_Key se \<mapsto> (v, truncDeadline (se_ExpireAt se)))) (se_Key se') = None"
    using Cons.prems(5,6) by (auto simp: rev_image_eqI)
  obtain s' m2 where "applyAll (replayHandler pr envs) (concat (map snapshotCmds ses)) (s1, n + m1) = (None, m2, s', n + m1 + m2)" "sv_aof s' = None"
    "holds (ev_storeNow (envs (n + m1 + m2))) (entriesDB ses (db(se_Key se \<mapsto> (v, truncDeadline (se_ExpireAt se))))) (sv_store s')"
    using Cons.IH [OF s1(4,3) clk Cons.prems(4) _ rest] Cons.prems(5,7) by (simp del: fun_upd_apply) blast
  then show ?case using s1(1) v(1) by (auto simp: applyAll_append entriesDB_def add.assoc)
qed

section \<open>Rewriting the log\<close>

definition truncDB :: "db \<Rightarrow> db" where
  "truncDB db k = map_option (\<lambda>(v, t). (v, truncDeadline t)) (db k)"

lemma entriesDB_lookup:
  "distinct (map se_Key ses) \<Longrightarrow>
   entriesDB ses db k = (case find (\<lambda>se. se_Key se = k) ses of
     Some se \<Rightarrow> Some (the (snapVal se), truncDeadline (se_ExpireAt se)) | None \<Rightarrow> db k)"
proof (induction ses arbitrary: db)
  case (Cons se ses)
  have "find (\<lambda>se. se_Key se = k) ses = None" if "se_Key se = k"
    using Cons.prems that by (auto simp: find_None_iff rev_image_eqI)
  then show ?case using Cons by (auto simp: entriesDB_def split: option.splits)
qed (simp add: entriesDB_def)

lemma snapshot_entries:
  assumes "store_ok st" and "visits ord st" and "Store_Snapshot ord now st = (out, st')"
  shows "distinct (map se_Key out)" and "\<forall>se \<in> set out. \<exists>v. snapVal se = Some v \<and> wfVal v"
    and "entriesDB out Map.empty = truncDB (view st now)"
proof -
  note x = snapshot_spec [OF assms]
  show d: "distinct (map se_Key out)" using x by blast
  have mem: "\<exists>v. snapVal se = Some v \<and> view st now (se_Key se) = Some (v, se_ExpireAt se)" if m: "se \<in> set out" for se
  proof -
    obtain k e where "se = snapEntry (st_heap st) k e"
      using m assms(3) by (auto simp: Store_Snapshot_def snapshotLoop_eq)
    then obtain v where "snapVal se = Some v" using snapVal_snapEntry by blast
    then show ?thesis using x m by blast
  qed
  then show "\<forall>se \<in> set out. \<exists>v. snapVal se = Some v \<and> wfVal v" using view_wf [OF assms(1)] by blast
  show "entriesDB out Map.empty = truncDB (view st now)"
  proof
    fix k
    show "entriesDB out Map.empty k = truncDB (view st now) k"
    proof (cases "find (\<lambda>se. se_Key se = k) out")
      case None
      then have no: "\<not> (\<exists>se \<in> set out. se_Key se = k)" by (auto simp: find_None_iff)
      have "view st now k \<noteq> Some (v, t)" for v t using x no by blast
      then have "view st now k = None" by (cases "view st now k") auto
      then show ?thesis using entriesDB_lookup [OF d, of Map.empty k] None by (simp add: truncDB_def)
    next
      case (Some se)
      then have "se \<in> set out" "se_Key se = k" by (auto simp: find_Some_iff)
      then obtain v where "snapVal se = Some v" "view st now k = Some (v, se_ExpireAt se)" using mem by blast
      then show ?thesis using entriesDB_lookup [OF d, of Map.empty k] Some by (simp add: truncDB_def)
    qed
  qed
qed

lemma snapshot_replay:
  assumes "store_ok st" and "visits (ev_order ev (st_data st)) st" and "snapshotForRewrite ev st = (cmds, st')"
    and "\<forall>c \<in> set cmds. command_ok c" and "sv_store s0 = NewStore" and "sv_aof s0 = None"
    and "\<forall>m. ev_storeNow (envs m) \<le> ev_storeNow (envs (Suc m))" and "\<forall>m. ev_storeNow (envs m) \<le> t"
  shows "\<exists>n s1. Replay F (replayHandler pr envs) (Some (headerBytes @ recs cmds)) (s0, 0) = (None, n, s1) \<and>
     view (sv_store (fst s1)) t = live t (truncDB (view st (ev_storeNow ev)))"
proof -
  obtain out where out: "Store_Snapshot (ev_order ev (st_data st)) (ev_storeNow ev) st = (out, st')" "cmds = concat (map snapshotCmds out)"
    using assms(3) by (auto simp: snapshotForRewrite_def split: prod.splits)
  note e = snapshot_entries [OF assms(1,2) out(1)]
  have empty: "holds (ev_storeNow (envs 0)) Map.empty (sv_store s0)" using assms(5) by (simp add: holds_def store_ok_New)
  obtain s1 m where s1: "applyAll (replayHandler pr envs) cmds (s0, 0) = (None, m, s1, m)"
    "holds (ev_storeNow (envs m)) (truncDB (view st (ev_storeNow ev))) (sv_store s1)"
    using entries_replay [where pr = pr, OF empty assms(6) order_refl assms(7) e(1)] e(2,3) assms(4) out(2) by auto
  have "Replay F (replayHandler pr envs) (Some (headerBytes @ recs cmds)) (s0, 0) = (None, m, s1, m)"
    using Replay_records [OF assms(4), of F "replayHandler pr envs" "[]" "(s0, 0)"] s1(1) by (simp add: replayLoop_Nil)
  then show ?thesis using s1(2) assms(8) by (auto simp: holds_def)
qed


lemma otherStore_ok: "store_ok otherStore"
  using store_exec_ok(1) [OF store_ok_New(1) _ prod.collapse [symmetric], of "OSet ''k'' ''v'' SetAlways zeroTime" 1]
  by (simp add: otherStore_def)

lemma otherStore_snapshot: "fst (snapshotForRewrite (demoEnv 5) otherStore) = [[''SET'', ''k'', ''v'']]"
  by (simp add: otherStore_def snapshotForRewrite_def demoEnv_def store_defs snapshotCmds_def renderCanonicalSet_def isZero_def)


lemma FinalizeRewrite_env: "wd_env w = [] \<Longrightarrow> wd_env (snd (FinalizeRewrite aw w)) = []"
  by (simp add: FinalizeRewrite_def foldSideBuf_def aofFlush_def ioWrite_def ioSync_def ioPlain_def ioRename_def ioSyncDir_def
      swapTo_def AbortRewrite_def Let_def split: option.splits)

text \<open>The snapshot and the swap of a running rewrite, when every system call succeeds.\<close>

lemma rewrite_tail:
  assumes aw: "sv_aof s = Some aw" "aw_f aw = Some i" "\<not> aw_bufErr aw" "aw_sideBuf aw = Some sb"
    and w: "wd_env (sv_world s) = []" "dk_tmp (wd_disk (sv_world s)) = None"
    and c: "snapshotForRewrite ev (sv_store s) = (cmds, st)" "[] \<notin> set cmds"
  shows "\<exists>s2. rewriteWrite ev s = (True, s2) \<and> sv_store (rewriteEnd True s2) = st \<and> \<not> sv_rewriteInFlight (rewriteEnd True s2) \<and>
     sv_replicated (rewriteEnd True s2) = sv_replicated s \<and>
     (\<exists>aw' j. sv_aof (rewriteEnd True s2) = Some aw' \<and> aw_f aw' = Some j \<and> \<not> aw_bufErr aw' \<and> aw_sideBuf aw' = None \<and>
        wd_env (sv_world (rewriteEnd True s2)) = [] \<and> dk_tmp (wd_disk (sv_world (rewriteEnd True s2))) = None \<and>
        j < length (dk_files (wd_disk (sv_world (rewriteEnd True s2)))) \<and>
        dk_canon (wd_disk (sv_world (rewriteEnd True s2))) = Some j \<and>
        in_data (dk_files (wd_disk (sv_world (rewriteEnd True s2))) ! j) = headerBytes @ recs cmds @ sb \<and>
        recoveries (wd_disk (sv_world (rewriteEnd True s2))) = {Some (headerBytes @ recs cmds @ sb)})"
proof -
  define j where "j = length (dk_files (wd_disk (sv_world s)))"
  obtain w2 where w2: "writeSnapshot cmds (sv_world s) = (True, w2)" "wd_env w2 = []" "wd_disk w2 =
     (wd_disk (sv_world s))\<lparr>dk_files := dk_files (wd_disk (sv_world s)) @
          [\<lparr>in_data = headerBytes @ recs cmds, in_synced = length (headerBytes @ recs cmds), in_lost = False\<rparr>],
        dk_tmp := Some j\<rparr>"
    using writeSnapshot_ok [OF w c(2)] by (auto simp: j_def)
  define s2 where "s2 = s\<lparr>sv_store := st, sv_world := w2\<rparr>"
  have rw: "rewriteWrite ev s = (True, s2)"
    using w w2(1) c(1) by (simp add: rewriteWrite_def s2_def ioCreateTmp_def aofWriteHeader_def ioWrite_def Let_def)
  have t: "dk_tmp (wd_disk w2) = Some j" "j < length (dk_files (wd_disk w2))" "in_data (dk_files (wd_disk w2) ! j) = headerBytes @ recs cmds"
    "\<not> in_lost (dk_files (wd_disk w2) ! j)"
    by (simp_all add: w2(3) j_def nth_append)
  obtain w3 where w3: "FinalizeRewrite aw w2 = ((None, aw\<lparr>aw_f := Some j, aw_sideBuf := None, aw_dirty := False\<rparr>), w3)"
    "dk_canon (wd_disk w3) = Some j" "dk_dcanon (wd_disk w3) = Some j" "wd_env w3 = []" "dk_tmp (wd_disk w3) = None" "j < length (dk_files (wd_disk w3))"
    "in_data (dk_files (wd_disk w3) ! j) = headerBytes @ recs cmds @ sb"
    "in_synced (dk_files (wd_disk w3) ! j) = length (headerBytes @ recs cmds @ sb)"
    using FinalizeRewrite_ok [OF w2(2) t(1,2) aw(4,3,2) t(4)] t(2,3) FinalizeRewrite_env [OF w2(2), of aw] by auto
  have re: "rewriteEnd True s2 =
      s2\<lparr>sv_aof := Some (aw\<lparr>aw_f := Some j, aw_sideBuf := None, aw_dirty := False\<rparr>), sv_world := w3, sv_rewriteInFlight := False\<rparr>"
    using aw(1) w3(1) by (simp add: rewriteEnd_def rewriteFinish_def s2_def)
  have "recoveries (wd_disk w3) = {Some (headerBytes @ recs cmds @ sb)}"
    using w3(2,3,7,8) by (auto simp: recoveries_def survives_synced)
  then show ?thesis using rw re w3 aw(3) by (simp add: s2_def)
qed

lemma logging_begin:
  assumes "logging i cmds s"
  shows "\<exists>aw. rewriteBegin s = (True, s\<lparr>sv_aof := Some aw\<rparr>) \<and> aw_f aw = Some i \<and> \<not> aw_bufErr aw \<and> aw_sideBuf aw = Some []"
  using assms by (auto simp: logging_def rewriteBegin_def BeginRewrite_def)

text \<open>A rewrite keeps the agreement of log and keyspace.\<close>

lemma truncDB_noTTL: "noTTL db \<Longrightarrow> truncDB db = db"
proof
  fix k
  assume "noTTL db"
  then show "truncDB db k = db k"
    by (cases "db k") (auto simp: truncDB_def truncDeadline_def isZero_def dest: noTTLD)
qed

lemma snapshot_rebuilds_db:
  assumes "store_ok st" and "visits (ev_order ev (st_data st)) st" and "snapshotForRewrite ev st = (cmds, st')"
    and "\<forall>c \<in> set cmds. command_ok c" and "noTTL (view st (ev_storeNow ev))"
  shows "rebuilds cmds (view st (ev_storeNow ev))"
  unfolding rebuilds_def
proof (intro conjI allI impI)
  show "\<forall>c \<in> set cmds. command_ok c" by (rule assms(4))
  fix pr and envs :: "nat \<Rightarrow> env" and s :: server
  assume s: "sv_store s = NewStore" "sv_aof s = None" and m: "\<forall>m. ev_storeNow (envs m) \<le> ev_storeNow (envs (Suc m))"
  obtain out where out: "Store_Snapshot (ev_order ev (st_data st)) (ev_storeNow ev) st = (out, st')" "cmds = concat (map snapshotCmds out)"
    using assms(3) by (auto simp: snapshotForRewrite_def split: prod.splits)
  note e = snapshot_entries [OF assms(1,2) out(1)]
  have empty: "holds (ev_storeNow (envs 0)) Map.empty (sv_store s)" using s(1) by (simp add: holds_def store_ok_New)
  obtain s1 k where s1: "applyAll (replayHandler pr envs) cmds (s, 0) = (None, k, s1, k)" "sv_aof s1 = None"
    "holds (ev_storeNow (envs k)) (view st (ev_storeNow ev)) (sv_store s1)"
    using entries_replay [where pr = pr, OF empty s(2) order_refl m e(1)] e(2,3) assms(4) out(2) truncDB_noTTL [OF assms(5)] by auto
  have "k = length cmds" using applyAll_len [OF s1(1)] by simp
  moreover have "represents (ev_storeNow (envs k)) (view st (ev_storeNow ev)) (sv_store s1)"
    using s1(3) assms(5) live_noTTL [OF assms(5)] by (auto simp: holds_def represents_def)
  ultimately show "\<exists>s'. applyAll (replayHandler pr envs) cmds (s, 0) = (None, length cmds, s', length cmds) \<and> sv_aof s' = None \<and>
      represents (ev_storeNow (envs (length cmds))) (view st (ev_storeNow ev)) (sv_store s')"
    using s1 by blast
qed

lemma tracks_rewrite:
  assumes tr: "tracks i T old db s" and T: "T \<le> ev_storeNow ev" and ord: "visits (ev_order ev (st_data (sv_store s))) (sv_store s)"
    and ok: "\<forall>c \<in> set (fst (snapshotForRewrite ev (sv_store s))). command_ok c"
  shows "\<exists>j cmds. tracks j (ev_storeNow ev) cmds db (runRewrite ev s)"
proof -
  obtain cmds st where c: "snapshotForRewrite ev (sv_store s) = (cmds, st)" by fastforce
  have cok: "\<forall>c \<in> set cmds. command_ok c" using ok c by simp
  have lg: "logging i old s" and rep: "represents T db (sv_store s)" and nr: "\<not> sv_replicated s" using tr by (simp_all add: tracks_def)
  have v: "view (sv_store s) (ev_storeNow ev) = db" and nt: "noTTL db" and sok: "store_ok (sv_store s)" using rep T by (auto simp: represents_def)
  obtain aw where b: "rewriteBegin s = (True, s\<lparr>sv_aof := Some aw\<rparr>)" "aw_f aw = Some i" "\<not> aw_bufErr aw" "aw_sideBuf aw = Some []"
    using logging_begin [OF lg] by blast
  have w: "wd_env (sv_world s) = []" "dk_tmp (wd_disk (sv_world s)) = None" using lg by (simp_all add: logging_def)
  obtain s2 aw' j where s2: "rewriteWrite ev (s\<lparr>sv_aof := Some aw\<rparr>) = (True, s2)" "sv_store (rewriteEnd True s2) = st"
    "sv_replicated (rewriteEnd True s2) = sv_replicated s" "sv_aof (rewriteEnd True s2) = Some aw'" "aw_f aw' = Some j" "\<not> aw_bufErr aw'" "aw_sideBuf aw' = None"
    "wd_env (sv_world (rewriteEnd True s2)) = []" "dk_tmp (wd_disk (sv_world (rewriteEnd True s2))) = None"
    "j < length (dk_files (wd_disk (sv_world (rewriteEnd True s2))))" "dk_canon (wd_disk (sv_world (rewriteEnd True s2))) = Some j"
    "in_data (dk_files (wd_disk (sv_world (rewriteEnd True s2))) ! j) = headerBytes @ recs cmds"
    using rewrite_tail [where s = "s\<lparr>sv_aof := Some aw\<rparr>" and ev = ev, OF _ b(2,3,4)] w c command_ok_ne [OF cok] by auto
  have run: "runRewrite ev s = rewriteEnd True s2" using b(1) s2(1) by (simp add: runRewrite_def)
  obtain out where "Store_Snapshot (ev_order ev (st_data (sv_store s))) (ev_storeNow ev) (sv_store s) = (out, st)"
    using c by (auto simp: snapshotForRewrite_def split: prod.splits)
  from snapshot_spec [OF sok ord this] have vs: "view st (ev_storeNow ev) = db" "store_ok st" using v by blast+
  have "view st t = db" if "ev_storeNow ev \<le> t" for t using view_later [OF that, of st] vs(1) live_noTTL [OF nt] by simp
  then have "represents (ev_storeNow ev) db st" using vs(2) nt by (simp add: represents_def)
  moreover have "logging j cmds (runRewrite ev s)" unfolding run logging_def using s2 by blast
  moreover have "rebuilds cmds db" using snapshot_rebuilds_db [OF sok ord c cok] v nt by simp
  ultimately show ?thesis using run s2(2,3) nr by (auto simp: tracks_def)
qed



text \<open>
  A write that falls between arming the side buffer and taking the snapshot is in both, so it
  is applied twice at the next restart: here the live counter is 1 and the restarted one 2, with no
  failed system call and no crash.\<close>

lemma rewrite_applies_twice:
  "\<exists>s2 s3 j. serve noPropose [(demoEnv 1, newConnState 1 True, [''INCR'', ''n''])] (snd (rewriteBegin demoLogged)) = Some s2 \<and>
     s3 = rewriteEnd (fst (rewriteWrite (demoEnv 2) s2)) (snd (rewriteWrite (demoEnv 2) s2)) \<and>
     view (sv_store s3) 99 ''n'' = Some (VString ''1'', zeroTime) \<and> dk_canon (wd_disk (sv_world s3)) = Some j \<and>
     (\<exists>n s4. Replay noFloat (replayHandler noPropose (\<lambda>m. demoEnv 50)) (Some (in_data (dk_files (wd_disk (sv_world s3)) ! j)))
          (demoServer None demoWorld, 0) = (None, n, s4) \<and>
        view (sv_store (fst s4)) 99 ''n'' = Some (VString ''2'', zeroTime))"
proof -
  obtain aw where b: "rewriteBegin demoLogged = (True, demoLogged\<lparr>sv_aof := Some aw\<rparr>)" "aw_f aw = Some 0" "\<not> aw_bufErr aw"
    "aw_sideBuf aw = Some []"
    using logging_begin [OF demoLogged_logging] by blast
  have leg: "legal [''INCR'', ''n'']" by (simp add: legal_def commands_def mkHandler_def arity_ok_def small_command)
  have loc: "local_run (newConnState 1 True) (demoLogged\<lparr>sv_aof := Some aw\<rparr>)"
    by (simp add: local_run_def newConnState_def demoLogged_def demoServer_def)
  obtain e aw' w' where ap: "aofAppend [''INCR'', ''n''] aw (demoLog []) = ((e, aw'), w')" by (metis prod.collapse)
  have i: "0 < length (dk_files (wd_disk (demoLog [])))" by (simp add: demoLog_def)
  note k = aofAppend_cases [OF b(2) i b(3) _ ap]
  have k': "e = None" "aw_f aw' = Some 0" "\<not> aw_bufErr aw'" "aw_sideBuf aw' = Some (respRecord [''INCR'', ''n''])" "wd_env w' = []"
    "dk_tmp (wd_disk w') = None"
    using k b(4) by (auto simp: demoLog_def same_but_def)
  define st where "st = snd (store_exec 1 (OIncr ''n'') NewStore)"
  have ex: "store_exec 1 (OIncr ''n'') NewStore = (RpInt 1, st)"
    by (simp add: st_def store_defs go_simps wrap64_def)
  have data: "lookup st ''n'' = Some ((newEntry typeString 1)\<lparr>e_str := ''1''\<rparr>)"
    by (simp add: st_def store_defs go_simps wrap64_def)
  have snap: "snapshotForRewrite (demoEnv 2) st = ([[''SET'', ''n'', ''1'']], st)"
    by (simp add: st_def store_defs go_simps wrap64_def snapshotForRewrite_def demoEnv_def snapshotCmds_def renderCanonicalSet_def)
  define s2 where "s2 = demoLogged\<lparr>sv_store := st, sv_aof := Some aw', sv_world := w'\<rparr>"
  have sv: "serve noPropose [(demoEnv 1, newConnState 1 True, [''INCR'', ''n''])] (snd (rewriteBegin demoLogged)) = Some s2"
    unfolding b(1) snd_conv using legal_dispatch [OF leg loc, of noPropose "demoEnv 1"] ap ex k'(1)
    by (simp add: mutRun_def mutOp_def demoLogged_def demoServer_def demoEnv_def mutEffect_def logForm_def appendReply_def
        appendIfLive_def s2_def)
  obtain s3 j where s3: "rewriteWrite (demoEnv 2) s2 = (True, s3)" "sv_store (rewriteEnd True s3) = st"
    "dk_canon (wd_disk (sv_world (rewriteEnd True s3))) = Some j"
    "in_data (dk_files (wd_disk (sv_world (rewriteEnd True s3))) ! j) = headerBytes @ recs [[''SET'', ''n'', ''1''], [''INCR'', ''n'']]"
    using rewrite_tail [where s = s2 and ev = "demoEnv 2", OF _ k'(2,3,4)] k'(5,6) snap by (auto simp: s2_def)
  have rec: "legalRec [''SET'', ''n'', ''1'']" "legalRec [''INCR'', ''n'']"
    using leg by (simp_all add: legalRec_def legal_def commands_def mkHandler_def arity_ok_def small_command mutOp_def parseSetOptions_def)
  have one: "applyDB [''SET'', ''n'', ''1''] Map.empty = Some [''n'' \<mapsto> (VString ''1'', zeroTime)]"
    "applyDB [''INCR'', ''n''] [''n'' \<mapsto> (VString ''1'', zeroTime)] = Some [''n'' \<mapsto> (VString ''2'', zeroTime)]"
    by (simp_all add: applyDB_def mutOp_def parseSetOptions_def mutEffect_def plainOp_def specIncr_def go_simps int64_def)
  have two: "rebuilds [[''SET'', ''n'', ''1''], [''INCR'', ''n'']] [''n'' \<mapsto> (VString ''2'', zeroTime)]"
    using rebuilds_snoc [OF rebuilds_snoc [OF rebuilds_Nil rec(1) one(1)] rec(2) one(2)] by simp
  obtain s4 where s4: "applyAll (replayHandler noPropose (\<lambda>m. demoEnv 50)) [[''SET'', ''n'', ''1''], [''INCR'', ''n'']] (demoServer None demoWorld, 0) =
      (None, 2, s4, 2)" "represents 50 [''n'' \<mapsto> (VString ''2'', zeroTime)] (sv_store s4)"
    using two [unfolded rebuilds_def, THEN conjunct2, rule_format, of "demoServer None demoWorld" "\<lambda>m. demoEnv 50" noPropose]
    by (auto simp: demoServer_def demoEnv_def numeral_2_eq_2)
  have "\<forall>c \<in> set [[''SET'', ''n'', ''1''], [''INCR'', ''n'']]. command_ok c" using rec by (auto simp: legalRec_def legal_def)
  from Replay_records [OF this, of noFloat "replayHandler noPropose (\<lambda>m. demoEnv 50)" "[]" "(demoServer None demoWorld, 0)"]
  have rp: "Replay noFloat (replayHandler noPropose (\<lambda>m. demoEnv 50)) (Some (headerBytes @ recs [[''SET'', ''n'', ''1''], [''INCR'', ''n'']]))
      (demoServer None demoWorld, 0) = (None, 2, s4, 2)"
    using s4(1) by (simp add: replayLoop_Nil)
  have "view st 99 ''n'' = Some (VString ''1'', zeroTime)"
    using data by (simp add: view_def avalOf_def newEntry_def expired_def)
  moreover have "view (sv_store s4) 99 ''n'' = Some (VString ''2'', zeroTime)" using s4(2) by (simp add: represents_def)
  ultimately show ?thesis using sv s3 rp by (intro exI [of _ s2] exI [of _ "rewriteEnd True s3"] exI [of _ j]) simp
qed

section \<open>Where restart loses data\<close>

lemma live_step:
  assumes "logging i cmds s" and "\<not> sv_replicated s" and "legal c" and "mutOp (ev_now ev) c = Inr op"
    and "holds T db (sv_store s)" and "T \<le> ev_storeNow ev" and "\<not> copies_hash op (live (ev_storeNow ev) db)"
    and "spec (ev_storeNow ev) op (live (ev_storeNow ev) db) = (rp, db')" and "mutEffect op rp"
  shows "\<exists>r s'. dispatch pr ev (newConnState n True) c s = Some (r, newConnState n True, s') \<and> logging i (cmds @ [logForm c op]) s' \<and>
     \<not> sv_replicated s' \<and> holds (ev_storeNow ev) db' (sv_store s')"
proof -
  obtain rp' st where e: "store_exec (ev_storeNow ev) op (sv_store s) = (rp', st)" by fastforce
  note h = holds_exec [OF assms(5,6) legal_args(1) [OF assms(3,4)] assms(7) e]
  have rp: "rp' = rp" using h(1) assms(8) by simp
  have loc: "local_run (newConnState n True) s" using assms(2) by (simp add: local_run_def newConnState_def)
  have ne: "logForm c op \<noteq> []"
    using assms(3) by (cases op) (auto simp: logForm_def renderCanonicalSet_def renderPExpireAt_def legal_def command_ok_def)
  have lg: "logging i cmds (setStore st s)" using assms(1) by (simp add: logging_def)
  obtain s' where s': "appendReply (logForm c op) (mutReply op rp) (setStore st s) = (mutReply op rp, s')"
    "logging i (cmds @ [logForm c op]) s'" "sv_store s' = st" "sv_replicated s' = sv_replicated s"
    using append_logging [OF lg ne] by fastforce
  have "mutRun ev c s = (mutReply op rp, s')" using assms(4,9) e rp s'(1) by (simp add: mutRun_def)
  then show ?thesis using legal_dispatch [OF assms(3) loc] s' h(2) assms(2,8) by simp
qed

lemma demo_commands:
  "legal [''SET'', ''k'', ''v'', ''PX'', ''10'']" "legal [''PERSIST'', ''k'']" "legal [''RENAME'', ''k'', ''j'']"
  "legal [''SET'', ''k'', ''v'', ''PXAT'', ''10'']"
  by (simp_all add: legal_def commands_def mkHandler_def arity_ok_def small_command)

lemma demo_ops:
  "mutOp 0 [''SET'', ''k'', ''v'', ''PX'', ''10''] = Inr (OSet ''k'' ''v'' SetAlways 10000000)"
  "mutOp t [''SET'', ''k'', ''v'', ''PXAT'', ''10''] = Inr (OSet ''k'' ''v'' SetAlways 10000000)"
  "mutOp t [''PERSIST'', ''k''] = Inr (OPersist ''k'')" "mutOp t [''RENAME'', ''k'', ''j''] = Inr (ORename ''k'' ''j'')"
  "logForm c (OSet ''k'' ''v'' SetAlways 10000000) = [''SET'', ''k'', ''v'', ''PXAT'', ''10'']"
proof -
  have p: "parseInt ''10'' = Some 10" by (simp add: go_simps)
  show "mutOp 0 [''SET'', ''k'', ''v'', ''PX'', ''10''] = Inr (OSet ''k'' ''v'' SetAlways 10000000)"
    "mutOp t [''SET'', ''k'', ''v'', ''PXAT'', ''10''] = Inr (OSet ''k'' ''v'' SetAlways 10000000)"
    by (simp_all add: mutOp_def parseSetOptions_def p durMul_def wrap64_def computeExpireAt_def timeAdd_def timeUnixMilli_def Millisecond_def)
  show "mutOp t [''PERSIST'', ''k''] = Inr (OPersist ''k'')" "mutOp t [''RENAME'', ''k'', ''j''] = Inr (ORename ''k'' ''j'')"
    by (simp_all add: mutOp_def)
  have f: "formatInt 10 = ''10''" by (simp add: go_simps)
  show "logForm c (OSet ''k'' ''v'' SetAlways 10000000) = [''SET'', ''k'', ''v'', ''PXAT'', ''10'']"
    by (simp add: logForm_def renderCanonicalSet_def isZero_def zeroTime_def unixMilli_def Millisecond_def wrap64_def f)
qed

text \<open>The live server after SET with a deadline of 10 ms and a second command at 1 ms.\<close>

lemma demo_live:
  assumes "legal c" and "\<And>t. mutOp t c = Inr op" and "logForm c op = c" and "\<not> copies_hash op Map.empty"
    and "spec 1000000 op [''k'' \<mapsto> (VString ''v'', 10000000)] = (rp, db')" and "mutEffect op rp" and "\<And>d. \<not> copies_hash op d"
  shows "\<exists>s'. serve noPropose [(demoEnv 0, newConnState 1 True, [''SET'', ''k'', ''v'', ''PX'', ''10'']),
       (demoEnv 1000000, newConnState 1 True, c)] demoLogged = Some s' \<and>
     logging 0 [[''SET'', ''k'', ''v'', ''PXAT'', ''10''], c] s' \<and> holds 1000000 db' (sv_store s')"
proof -
  have e: "ev_now (demoEnv t) = t" "ev_storeNow (demoEnv t) = t" for t by (simp_all add: demoEnv_def)
  have h0: "holds 0 Map.empty (sv_store demoLogged)" by (simp add: demoLogged_def demoServer_def holds_def store_ok_New)
  have r0: "\<not> sv_replicated demoLogged" by (simp add: demoLogged_def demoServer_def)
  obtain r s1 where s1: "dispatch noPropose (demoEnv 0) (newConnState 1 True) [''SET'', ''k'', ''v'', ''PX'', ''10''] demoLogged =
      Some (r, newConnState 1 True, s1)" "logging 0 [[''SET'', ''k'', ''v'', ''PXAT'', ''10'']] s1" "\<not> sv_replicated s1"
      "holds 0 [''k'' \<mapsto> (VString ''v'', 10000000)] (sv_store s1)"
    using live_step [OF demoLogged_logging r0 demo_commands(1), where ev = "demoEnv 0" and pr = noPropose and n = 1, unfolded e, OF demo_ops(1) h0]
    by (auto simp: mutEffect_def demo_ops(5))
  have l: "live 1000000 [''k'' \<mapsto> (VString ''v'', 10000000)] = [''k'' \<mapsto> (VString ''v'', 10000000)]"
    by (auto simp: live_def fun_eq_iff)
  obtain r' s2 where "dispatch noPropose (demoEnv 1000000) (newConnState 1 True) c s1 = Some (r', newConnState 1 True, s2)"
    "logging 0 ([[''SET'', ''k'', ''v'', ''PXAT'', ''10'']] @ [c]) s2" "holds 1000000 db' (sv_store s2)"
    using live_step [OF s1(2,3) assms(1), where ev = "demoEnv 1000000" and pr = noPropose and n = 1, unfolded e, OF assms(2) s1(4) _ assms(7), unfolded l, OF _ assms(5,6)]
    by (auto simp: assms(3))
  then show ?thesis using s1(1) by simp
qed

text \<open>Restart one minute later.\<close>

lemma demo_restart_set:
  "\<exists>s1. replayHandler noPropose (\<lambda>m. demoEnv 60000000000) [''SET'', ''k'', ''v'', ''PXAT'', ''10''] (demoServer None demoWorld, 0) = (None, s1, 1) \<and>
     sv_aof s1 = None \<and> holds 60000000000 [''k'' \<mapsto> (VString ''v'', 10000000)] (sv_store s1)"
proof -
  have e: "ev_now (demoEnv t) = t" "ev_storeNow (demoEnv t) = t" for t by (simp_all add: demoEnv_def)
  have h0: "holds 60000000000 Map.empty (sv_store (demoServer None demoWorld))" by (simp add: demoServer_def holds_def store_ok_New)
  show ?thesis
    using handler_exec [where n = 0 and envs = "\<lambda>m. demoEnv 60000000000" and pr = noPropose and s = "demoServer None demoWorld",
        OF h0 _ demo_commands(4) demo_ops(2)]
    by (simp add: e mutReply_def isError_def ROK_def demoServer_def)
qed

lemma demo_gone: "live 60000000000 [''k'' \<mapsto> (VString ''v'', 10000000)] = Map.empty"
  by (auto simp: live_def fun_eq_iff isZero_def zeroTime_def)

lemma demo_replay:
  assumes "command_ok c" and "replayHandler noPropose (\<lambda>m. demoEnv 60000000000) [''SET'', ''k'', ''v'', ''PXAT'', ''10'']
      (demoServer None demoWorld, 0) = (None, s1, 1)"
    and "replayHandler noPropose (\<lambda>m. demoEnv 60000000000) c (s1, 1) = (err, s2, n)"
  shows "Replay noFloat (replayHandler noPropose (\<lambda>m. demoEnv 60000000000))
      (Some (headerBytes @ recs [[''SET'', ''k'', ''v'', ''PXAT'', ''10''], c])) (demoServer None demoWorld, 0) =
      (case err of None \<Rightarrow> (None, 2, s2, n) | Some e \<Rightarrow> (Some (ReplayApply e), 1, s2, n))"
proof -
  have "\<forall>d \<in> set [[''SET'', ''k'', ''v'', ''PXAT'', ''10''], c]. command_ok d" using assms(1) demo_commands(4) by (simp add: legal_def)
  from Replay_records [OF this, of noFloat "replayHandler noPropose (\<lambda>m. demoEnv 60000000000)" "[]" "(demoServer None demoWorld, 0)"]
  show ?thesis using assms(2,3) by (simp add: replayLoop_Nil numeral_2_eq_2 split: option.splits)
qed

text \<open>
  Replay evaluates deadlines against the clock of the restart, so a key whose
  deadline was removed in time is lost when the restart comes after that deadline: SET with
  10 ms to live, PERSIST one millisecond later, and a restart after a minute leave the live server
  with the key and the restarted one without it. No command failed.\<close>

lemma replay_loses_persisted_key:
  "\<exists>s' n s1. serve noPropose [(demoEnv 0, newConnState 1 True, [''SET'', ''k'', ''v'', ''PX'', ''10'']),
       (demoEnv 1000000, newConnState 1 True, [''PERSIST'', ''k''])] demoLogged = Some s' \<and>
     view (sv_store s') 60000000000 ''k'' = Some (VString ''v'', zeroTime) \<and>
     Replay noFloat (replayHandler noPropose (\<lambda>m. demoEnv 60000000000))
       (Some (in_data (dk_files (wd_disk (sv_world s')) ! 0))) (demoServer None demoWorld, 0) = (None, n, s1) \<and>
     view (sv_store (fst s1)) 60000000000 ''k'' = None"
proof -
  have e: "ev_now (demoEnv t) = t" "ev_storeNow (demoEnv t) = t" for t by (simp_all add: demoEnv_def)
  have nz: "\<not> isZero 10000000" by (simp add: isZero_def zeroTime_def)
  obtain s' where s': "serve noPropose [(demoEnv 0, newConnState 1 True, [''SET'', ''k'', ''v'', ''PX'', ''10'']),
       (demoEnv 1000000, newConnState 1 True, [''PERSIST'', ''k''])] demoLogged = Some s'"
     "logging 0 [[''SET'', ''k'', ''v'', ''PXAT'', ''10''], [''PERSIST'', ''k'']] s'" "holds 1000000 [''k'' \<mapsto> (VString ''v'', zeroTime)] (sv_store s')"
    using demo_live [OF demo_commands(2) demo_ops(3)] nz by (auto simp: logForm_def mutEffect_def)
  obtain s1 where s1: "replayHandler noPropose (\<lambda>m. demoEnv 60000000000) [''SET'', ''k'', ''v'', ''PXAT'', ''10''] (demoServer None demoWorld, 0) = (None, s1, 1)"
    "sv_aof s1 = None" "holds 60000000000 [''k'' \<mapsto> (VString ''v'', 10000000)] (sv_store s1)" using demo_restart_set by blast
  obtain s2 where s2: "replayHandler noPropose (\<lambda>m. demoEnv 60000000000) [''PERSIST'', ''k''] (s1, 1) = (None, s2, 2)"
    "holds 60000000000 Map.empty (sv_store s2)"
    using handler_exec [where n = 1 and envs = "\<lambda>m. demoEnv 60000000000" and pr = noPropose, OF s1(3,2) demo_commands(2) demo_ops(3)]
    by (auto simp: e demo_gone mutReply_def isError_def numeral_2_eq_2)
  have c: "command_ok [''PERSIST'', ''k'']" using demo_commands(2) by (simp add: legal_def)
  have "view (sv_store s') 60000000000 ''k'' = Some (VString ''v'', zeroTime)" using s'(3) by (simp add: holds_def live_def)
  moreover have "view (sv_store s2) 60000000000 ''k'' = None" using s2(2) by (simp add: holds_def)
  moreover have "in_data (dk_files (wd_disk (sv_world s')) ! 0) = headerBytes @ recs [[''SET'', ''k'', ''v'', ''PXAT'', ''10''], [''PERSIST'', ''k'']]"
    using s'(2) by (simp add: logging_def)
  ultimately show ?thesis using s'(1) demo_replay [OF c s1(1) s2(1)]
    by (intro exI [of _ s'] exI [of _ 2] exI [of _ "(s2, 2)"]) simp
qed

text \<open>
  For the same reason a log can make the server refuse to start: after SET with
  10 ms to live and a RENAME of the key one millisecond later, both acknowledged, a restart
  after a minute fails with the error of RENAME on a missing key.\<close>

lemma replay_refuses_expired_rename:
  "\<exists>s' n s1. serve noPropose [(demoEnv 0, newConnState 1 True, [''SET'', ''k'', ''v'', ''PX'', ''10'']),
       (demoEnv 1000000, newConnState 1 True, [''RENAME'', ''k'', ''j''])] demoLogged = Some s' \<and>
     Replay noFloat (replayHandler noPropose (\<lambda>m. demoEnv 60000000000))
       (Some (in_data (dk_files (wd_disk (sv_world s')) ! 0))) (demoServer None demoWorld, 0) =
       (Some (ReplayApply ''ERR no such key''), n, s1)"
proof -
  have e: "ev_now (demoEnv t) = t" "ev_storeNow (demoEnv t) = t" for t by (simp_all add: demoEnv_def)
  obtain s' where s': "serve noPropose [(demoEnv 0, newConnState 1 True, [''SET'', ''k'', ''v'', ''PX'', ''10'']),
       (demoEnv 1000000, newConnState 1 True, [''RENAME'', ''k'', ''j''])] demoLogged = Some s'"
     "logging 0 [[''SET'', ''k'', ''v'', ''PXAT'', ''10''], [''RENAME'', ''k'', ''j'']] s'"
    using demo_live [OF demo_commands(3) demo_ops(4)] by (auto simp: logForm_def mutEffect_def)
  obtain s1 where s1: "replayHandler noPropose (\<lambda>m. demoEnv 60000000000) [''SET'', ''k'', ''v'', ''PXAT'', ''10''] (demoServer None demoWorld, 0) = (None, s1, 1)"
    "sv_aof s1 = None" "holds 60000000000 [''k'' \<mapsto> (VString ''v'', 10000000)] (sv_store s1)" using demo_restart_set by blast
  obtain rp st where x: "store_exec 60000000000 (ORename ''k'' ''j'') (sv_store s1) = (rp, st)" by fastforce
  have rp: "rp = RpErr ErrNoKey" using holds_exec(1) [OF s1(3) order_refl _ _ x] by (simp add: demo_gone)
  have "mutRun (demoEnv 60000000000) [''RENAME'', ''k'', ''j''] s1 = (RError ''ERR no such key'', setStore st s1)"
    using x rp demo_ops(4) [of 60000000000] by (simp add: mutRun_def e mutEffect_def mutReply_def mutErr_def)
  then have "replayHandler noPropose (\<lambda>m. demoEnv 60000000000) [''RENAME'', ''k'', ''j''] (s1, 1) = (Some ''ERR no such key'', setStore st s1, 2)"
    using legal_dispatch [OF demo_commands(3) applying_local] by (simp add: replayHandler_def replayApply_def numeral_2_eq_2)
  moreover have "command_ok [''RENAME'', ''k'', ''j'']" using demo_commands(3) by (simp add: legal_def)
  moreover have "in_data (dk_files (wd_disk (sv_world s')) ! 0) = headerBytes @ recs [[''SET'', ''k'', ''v'', ''PXAT'', ''10''], [''RENAME'', ''k'', ''j'']]"
    using s'(2) by (simp add: logging_def)
  ultimately show ?thesis using s'(1) demo_replay [OF _ s1(1)]
    by (intro exI [of _ s'] exI [of _ 1] exI [of _ "(setStore st s1, 2)"]) simp
qed

text \<open>
  A handler releases the lock of the store before it appends to the log, so two connections can log their writes in
  the other order than they applied them: after two SETs of one key, both acknowledged, the live
  server has the second value and the restarted one the first.\<close>

lemma concurrent_sets_log_reversed:
  "\<exists>st1 st2 s3 s4 s5.
     Store_Set 1 ''k'' ''a'' \<lparr>so_Mode = SetAlways, so_ExpireAt = zeroTime\<rparr> (sv_store demoLogged) = (True, st1) \<and>
     Store_Set 1 ''k'' ''b'' \<lparr>so_Mode = SetAlways, so_ExpireAt = zeroTime\<rparr> st1 = (True, st2) \<and>
     appendReply [''SET'', ''k'', ''b''] ROK (setStore st2 demoLogged) = (ROK, s3) \<and>
     appendReply [''SET'', ''k'', ''a''] ROK s3 = (ROK, s4) \<and> view (sv_store s4) 99 ''k'' = Some (VString ''b'', zeroTime) \<and>
     Replay noFloat (replayHandler noPropose (\<lambda>m. demoEnv 50)) (Some (in_data (dk_files (wd_disk (sv_world s4)) ! 0)))
       (demoServer None demoWorld, 0) = (None, 2, s5, 2) \<and>
     view (sv_store s5) 99 ''k'' = Some (VString ''a'', zeroTime)"
proof -
  let ?c = "\<lambda>v. [''SET'', ''k'', v]" and ?o = "\<lparr>so_Mode = SetAlways, so_ExpireAt = zeroTime\<rparr>"
  obtain st1 where st1: "Store_Set 1 ''k'' ''a'' ?o (sv_store demoLogged) = (True, st1)"
    by (simp add: demoLogged_def demoServer_def store_defs)
  obtain st2 where st2: "Store_Set 1 ''k'' ''b'' ?o st1 = (True, st2)" "view st2 99 ''k'' = Some (VString ''b'', zeroTime)"
    using st1 by (auto simp: demoLogged_def demoServer_def store_defs view_def avalOf_def newEntry_def expired_def)
  have "logging 0 [] (setStore st2 demoLogged)" using demoLogged_logging by (simp add: logging_def)
  from append_logging [OF this, of "?c ''b''" ROK] obtain s3 where s3: "appendReply (?c ''b'') ROK (setStore st2 demoLogged) = (ROK, s3)"
    "logging 0 [?c ''b''] s3" "sv_store s3 = st2" by auto
  from append_logging [OF s3(2), of "?c ''a''" ROK] obtain s4 where s4: "appendReply (?c ''a'') ROK s3 = (ROK, s4)"
    "logging 0 [?c ''b'', ?c ''a''] s4" "sv_store s4 = st2" using s3(3) by auto
  have rec: "legalRec (?c ''a'')" "legalRec (?c ''b'')"
    by (simp_all add: legalRec_def legal_def commands_def mkHandler_def arity_ok_def small_command mutOp_def parseSetOptions_def)
  have "applyDB (?c ''b'') Map.empty = Some [''k'' \<mapsto> (VString ''b'', zeroTime)]"
    "applyDB (?c ''a'') [''k'' \<mapsto> (VString ''b'', zeroTime)] = Some [''k'' \<mapsto> (VString ''a'', zeroTime)]"
    by (simp_all add: applyDB_def mutOp_def parseSetOptions_def mutEffect_def plainOp_def)
  from rebuilds_snoc [OF rebuilds_snoc [OF rebuilds_Nil rec(2) this(1)] rec(1) this(2)]
  have two: "rebuilds [?c ''b'', ?c ''a''] [''k'' \<mapsto> (VString ''a'', zeroTime)]" by simp
  obtain s5 where s5: "applyAll (replayHandler noPropose (\<lambda>m. demoEnv 50)) [?c ''b'', ?c ''a''] (demoServer None demoWorld, 0) = (None, 2, s5, 2)"
    "represents 50 [''k'' \<mapsto> (VString ''a'', zeroTime)] (sv_store s5)"
    using two [unfolded rebuilds_def, THEN conjunct2, rule_format, of "demoServer None demoWorld" "\<lambda>m. demoEnv 50" noPropose]
    by (auto simp: demoServer_def demoEnv_def numeral_2_eq_2)
  have "\<forall>c \<in> set [?c ''b'', ?c ''a'']. command_ok c" using rec by (auto simp: legalRec_def legal_def)
  from Replay_records [OF this, of noFloat "replayHandler noPropose (\<lambda>m. demoEnv 50)" "[]" "(demoServer None demoWorld, 0)"]
  have "Replay noFloat (replayHandler noPropose (\<lambda>m. demoEnv 50)) (Some (in_data (dk_files (wd_disk (sv_world s4)) ! 0)))
      (demoServer None demoWorld, 0) = (None, 2, s5, 2)"
    using s5(1) s4(2) by (simp add: replayLoop_Nil logging_def)
  moreover have "view (sv_store s5) 99 ''k'' = Some (VString ''a'', zeroTime)" using s5(2) by (simp add: represents_def)
  ultimately show ?thesis using st1 st2 s3 s4
    by (intro exI [of _ st1] exI [of _ st2] exI [of _ s3] exI [of _ s4] exI [of _ s5]) simp
qed

end
