(* ===== verification/Cluster.thy ===== *)
theory Cluster
  imports Rewrite "HOL-Library.Char_ord" "HOL-Library.List_Lexorder"
begin

text \<open>
  The replicated command path (\<^verbatim>\<open>internal/cluster\<close>: \<^verbatim>\<open>envelope.go\<close>, \<^verbatim>\<open>statemachine.go\<close>,
  \<^verbatim>\<open>snapshot.go\<close>, \<^verbatim>\<open>node.go\<close>). The consensus library ToyRaft is not part of the repository: what
  \<^verbatim>\<open>raft.Node\<close> does is an argument of the definitions that call it, and what the code relies on
  is the hypothesis \<open>raft_applies\<close>.
\<close>

section \<open>envelope.go\<close>

definition envelopeVersion :: char where
  "envelopeVersion = CHR 0x01"

datatype cluster_err = EnvelopeEmpty | EnvelopeVersion char | EnvelopeDecode resp_err | SnapHeader nat | SnapBody nat nat

definition Encode :: "floatlib \<Rightarrow> bytes list \<Rightarrow> bytes" where
  "Encode F argv = envelopeVersion # fst (WriteFrame F (RArray (map RBulk argv)))"

definition Decode :: "floatlib \<Rightarrow> bytes \<Rightarrow> cluster_err + bytes list" where
  "Decode F data =
     (if data = [] then Inl EnvelopeEmpty
      else if hd data \<noteq> envelopeVersion then Inl (EnvelopeVersion (hd data))
      else case ReadCommand F (tl data) of
             Inl e \<Rightarrow> Inl (EnvelopeDecode e)
           | Inr (argv, _) \<Rightarrow> Inr argv)"

section \<open>statemachine.go\<close>

text \<open>
  The state machine and the state \<open>'s\<close> its \<^verbatim>\<open>ApplyFunc\<close> works on. \<^const>\<open>None\<close> stands for an apply that
  never returns.
\<close>

type_synonym 's apply_fn = "bytes list \<Rightarrow> 's \<Rightarrow> (resp_value \<times> 's) option"

record stateMachine =
  sm_results :: "(nat \<times> resp_value) list"

definition NewStateMachine :: stateMachine where
  "NewStateMachine = \<lparr>sm_results = []\<rparr>"

record raftEntry =
  en_Index :: nat
  en_Data :: bytes

definition SM_Apply :: "floatlib \<Rightarrow> 's apply_fn \<Rightarrow> raftEntry \<Rightarrow> stateMachine \<times> 's \<Rightarrow> ((cluster_err + resp_value) \<times> stateMachine \<times> 's) option" where
  "SM_Apply F ap entry = (\<lambda>(sm, st).
     case Decode F (en_Data entry) of
       Inl e \<Rightarrow> Some (Inl e, sm, st)
     | Inr argv \<Rightarrow>
         (case ap argv st of
            None \<Rightarrow> None
          | Some (reply, st') \<Rightarrow>
              Some (Inr reply, sm\<lparr>sm_results := AList.update (en_Index entry) reply (sm_results sm)\<rparr>, st')))"

definition TakeResult :: "nat \<Rightarrow> stateMachine \<Rightarrow> resp_value option \<times> stateMachine" where
  "TakeResult idx sm = (map_of (sm_results sm) idx, sm\<lparr>sm_results := AList.delete idx (sm_results sm)\<rparr>)"

section \<open>snapshot.go\<close>

definition clusterCanonicalSet :: "string \<Rightarrow> bytes \<Rightarrow> snapshotEntry \<Rightarrow> bytes list" where
  "clusterCanonicalSet key val e =
     [''SET'', key, val] @ (if isZero (se_ExpireAt e) then [] else [''PXAT'', formatInt (unixMilli (se_ExpireAt e))])"

definition clusterEntryCmds :: "snapshotEntry \<Rightarrow> bytes list list" where
  "clusterEntryCmds e =
     (let expire = (if isZero (se_ExpireAt e) then []
                    else [[''PEXPIREAT'', se_Key e, formatInt (unixMilli (se_ExpireAt e))]])
      in if se_Type e = ''list'' then ([''RPUSH'', se_Key e] @ se_List e) # expire
         else if se_Type e = ''hash''
         then ([''HSET'', se_Key e] @ concat (map (\<lambda>f. [f, hashGet (se_Hash e) f]) (se_HashOrder e))) # expire
         else [clusterCanonicalSet (se_Key e) (se_Value e) e])"

text \<open>\<^verbatim>\<open>sort.Slice\<close> by key: keys are distinct, so stability does not matter.\<close>

definition commandsFromSnapshot :: "snapshotEntry list \<Rightarrow> bytes list list" where
  "commandsFromSnapshot entries = concat (map clusterEntryCmds (sort_key se_Key entries))"

text \<open>\<^verbatim>\<open>binary.BigEndian\<close> on 32 bits; the conversion of a length to \<^verbatim>\<open>uint32\<close> drops higher bits.\<close>

definition putUint32 :: "nat \<Rightarrow> bytes" where
  "putUint32 n = [char_of (n div 16777216), char_of (n div 65536), char_of (n div 256), char_of n]"

definition getUint32 :: "bytes \<Rightarrow> nat" where
  "getUint32 b = of_char (b ! 0) * 16777216 + of_char (b ! 1) * 65536 + of_char (b ! 2) * 256 + of_char (b ! 3)"

definition snapFrame :: "floatlib \<Rightarrow> bytes list \<Rightarrow> bytes" where
  "snapFrame F argv = putUint32 (length (Encode F argv) mod 2 ^ 32) @ Encode F argv"

definition SerializeSnapshot :: "floatlib \<Rightarrow> snapshotEntry list \<Rightarrow> bytes" where
  "SerializeSnapshot F entries = concat (map (snapFrame F) (commandsFromSnapshot entries))"

function snapLoop :: "floatlib \<Rightarrow> bytes \<Rightarrow> bytes list list \<Rightarrow> cluster_err + bytes list list" where
  "snapLoop F data cmds =
     (if data = [] then Inr cmds
      else if length data < 4 then Inl (SnapHeader (length data))
      else let n = getUint32 (take 4 data); body = drop 4 data
           in if length body mod 2 ^ 32 < n then Inl (SnapBody n (length body))
              else case Decode F (take n body) of
                     Inl e \<Rightarrow> Inl e
                   | Inr argv \<Rightarrow> snapLoop F (drop n body) (cmds @ [argv]))"
  by pat_completeness auto

termination snapLoop
  by (relation "measure (\<lambda>(F, data, cmds). length data)") auto

declare snapLoop.simps [simp del]

definition CommandsFromSnapshot :: "floatlib \<Rightarrow> bytes \<Rightarrow> cluster_err + bytes list list" where
  "CommandsFromSnapshot F data = snapLoop F data []"

section \<open>node.go\<close>

text \<open>
  The configuration of a node and the node. \<open>nd_closers\<close> are the resources \<^verbatim>\<open>Stop\<close> closes after the Raft
  node; a single node has none.
\<close>

datatype closer = ClTransport | ClStorage

record nodeConfig =
  nc_NodeID :: string
  nc_Peers :: "peer list"
  nc_RaftAddr :: string
  nc_RaftDir :: string

record node =
  nd_clientAddrs :: "(string \<times> string) list"
  nd_peers :: "peer list"
  nd_nodeID :: string
  nd_closers :: "closer list"

definition clientAddrMap :: "peer list \<Rightarrow> (string \<times> string) list" where
  "clientAddrMap peers =
     (if length peers \<le> 1 then []
      else foldl (\<lambda>m p. if pe_ClientAddr p \<noteq> [] then AList.update (pe_ID p) (pe_ClientAddr p) m else m) [] peers)"

text \<open>
  What the constructors of the library get: \<open>rc_peers\<close> and, for several nodes, the listen address and
  the URLs of the others. The library may refuse each of its three parts.
\<close>

record raftConfig =
  rc_self :: string
  rc_peers :: "string list"
  rc_listen :: string
  rc_urls :: "(string \<times> string) list"

record raftLib =
  rl_storage :: "string \<Rightarrow> bool"
  rl_transport :: "string \<Rightarrow> (string \<times> string) list \<Rightarrow> bool"
  rl_raft :: "raftConfig \<Rightarrow> bool"

datatype node_err = NodeNotInPeers | NodeNoRaftDir | NodeStorage | NodeTransport | NodeRaft

text \<open>The loop over the members: ids, URLs of the others, own address, whether the node was found.\<close>

fun memberLoop :: "string \<Rightarrow> peer list \<Rightarrow> string list \<Rightarrow> (string \<times> string) list \<Rightarrow> string \<Rightarrow> bool \<Rightarrow>
    string list \<times> (string \<times> string) list \<times> string \<times> bool" where
  "memberLoop selfID [] ids urls selfAddr found = (ids, urls, selfAddr, found)"
| "memberLoop selfID (p # ps) ids urls selfAddr found =
     (if pe_ID p = selfID
      then memberLoop selfID ps (ids @ [pe_ID p]) urls (if selfAddr = [] then pe_Addr p else selfAddr) True
      else memberLoop selfID ps (ids @ [pe_ID p]) (AList.update (pe_ID p) (''http://'' @ pe_Addr p) urls) selfAddr found)"

definition emptyNode :: "closer list \<Rightarrow> node" where
  "emptyNode cls = \<lparr>nd_clientAddrs = [], nd_peers = [], nd_nodeID = [], nd_closers = cls\<rparr>"

definition newSingleNode :: "raftLib \<Rightarrow> nodeConfig \<Rightarrow> node_err + node" where
  "newSingleNode lib cfg =
     (if rl_raft lib \<lparr>rc_self = nc_NodeID cfg, rc_peers = [nc_NodeID cfg], rc_listen = [], rc_urls = []\<rparr>
      then Inr (emptyNode []) else Inl NodeRaft)"

text \<open>The first component is what a failing constructor closes again.\<close>

definition newMultiNode :: "raftLib \<Rightarrow> nodeConfig \<Rightarrow> closer list \<times> (node_err + node)" where
  "newMultiNode lib cfg =
     (let (ids, urls, selfAddr, found) = memberLoop (nc_NodeID cfg) (nc_Peers cfg) [] [] (nc_RaftAddr cfg) False
      in if \<not> found then ([], Inl NodeNotInPeers)
         else if nc_RaftDir cfg = [] then ([], Inl NodeNoRaftDir)
         else if \<not> rl_storage lib (nc_RaftDir cfg) then ([], Inl NodeStorage)
         else if \<not> rl_transport lib selfAddr urls then ([ClStorage], Inl NodeTransport)
         else if \<not> rl_raft lib \<lparr>rc_self = nc_NodeID cfg, rc_peers = ids, rc_listen = selfAddr, rc_urls = urls\<rparr>
         then ([ClTransport, ClStorage], Inl NodeRaft)
         else ([], Inr (emptyNode [ClTransport, ClStorage])))"

definition NewNode :: "raftLib \<Rightarrow> nodeConfig \<Rightarrow> closer list \<times> (node_err + node)" where
  "NewNode lib cfg =
     (case (if length (nc_Peers cfg) \<le> 1 then ([], newSingleNode lib cfg) else newMultiNode lib cfg) of
        (closed, Inl e) \<Rightarrow> (closed, Inl e)
      | (closed, Inr nd) \<Rightarrow>
          (closed, Inr (nd\<lparr>nd_clientAddrs := clientAddrMap (nc_Peers cfg), nd_peers := nc_Peers cfg, nd_nodeID := nc_NodeID cfg\<rparr>)))"

definition LeaderClientAddr :: "string \<Rightarrow> node \<Rightarrow> string" where
  "LeaderClientAddr hint nd =
     (if hint = [] then [] else case map_of (nd_clientAddrs nd) hint of None \<Rightarrow> [] | Some a \<Rightarrow> a)"

text \<open>
  \<open>WaitLeader\<close> sees one status per tick, role and leader hint, until the context ends; the list of
  statuses is what it reads before that.
\<close>

fun WaitLeader :: "(bool \<times> string) list \<Rightarrow> bool" where
  "WaitLeader [] = False"
| "WaitLeader ((leader, hint) # sts) = (if leader \<or> hint \<noteq> [] then True else WaitLeader sts)"

text \<open>\<open>Stop\<close> returns the first error and closes everything; \<open>closeOK\<close> says which close succeeds.\<close>

datatype stop_err = StopRaft | StopClose closer

fun closeLoop :: "(closer \<Rightarrow> bool) \<Rightarrow> closer list \<Rightarrow> stop_err option \<Rightarrow> closer list \<Rightarrow> stop_err option \<times> closer list" where
  "closeLoop closeOK [] err closed = (err, closed)"
| "closeLoop closeOK (c # cs) err closed =
     closeLoop closeOK cs (if \<not> closeOK c \<and> err = None then Some (StopClose c) else err) (closed @ [c])"

definition NodeStop :: "bool \<Rightarrow> (closer \<Rightarrow> bool) \<Rightarrow> node \<Rightarrow> stop_err option \<times> closer list" where
  "NodeStop raftOK closeOK nd = closeLoop closeOK (nd_closers nd) (if raftOK then None else Some StopRaft) []"

text \<open>
  \<open>rp\<close> is \<^verbatim>\<open>raft.Node.Propose\<close>: it acts on the state machine and what that applies to, and returns the
  index of the entry, the not-leader error with its hint, or another error with its text.
\<close>

datatype raft_err = RaftNotLeader string | RaftFailed string

type_synonym 's raft_propose = "bytes \<Rightarrow> stateMachine \<times> 's \<Rightarrow> (raft_err + nat) \<times> stateMachine \<times> 's"

definition Node_Propose :: "floatlib \<Rightarrow> 's raft_propose \<Rightarrow> bytes list \<Rightarrow> stateMachine \<times> 's \<Rightarrow> proposeResult \<times> stateMachine \<times> 's" where
  "Node_Propose F rp argv st =
     (case rp (Encode F argv) st of
        (Inl (RaftNotLeader hint), st') \<Rightarrow> (PNotLeader hint, st')
      | (Inl (RaftFailed e), st') \<Rightarrow> (PFailed (''cluster: propose: '' @ e), st')
      | (Inr idx, sm, s) \<Rightarrow>
          (case TakeResult idx sm of
             (Some reply, sm') \<Rightarrow> (PReply reply, sm', s)
           | (None, sm') \<Rightarrow> (PFailed (''cluster: no reply captured for applied index '' @ formatNat idx), sm', s)))"

text \<open>The \<^verbatim>\<open>ApplyFunc\<close> of a server; \<open>envs n\<close> is what the \<open>n\<close>-th applied command reads from outside.\<close>

definition serverApply :: "propose \<Rightarrow> (nat \<Rightarrow> env) \<Rightarrow> (server \<times> nat) apply_fn" where
  "serverApply pr envs argv = (\<lambda>(s, n). map_option (\<lambda>(r, s'). (r, s', n + 1)) (applyReplicated pr (envs n) argv s))"

section \<open>Applying a log\<close>

lemma Decode_Encode: "command_ok argv \<Longrightarrow> Decode F (Encode F argv) = Inr argv"
  using WriteFrame_command(2) [of argv F "[]"] by (simp add: Decode_def Encode_def)

text \<open>A node applies committed entries in index order and stops at one it cannot decode.\<close>

fun applyLog :: "floatlib \<Rightarrow> 's apply_fn \<Rightarrow> raftEntry list \<Rightarrow> stateMachine \<times> 's \<Rightarrow> (stateMachine \<times> 's) option" where
  "applyLog F ap [] x = Some x"
| "applyLog F ap (e # es) x =
     (case SM_Apply F ap e x of Some (Inr reply, x') \<Rightarrow> applyLog F ap es x' | _ \<Rightarrow> None)"

lemma applyLog_append:
  "applyLog F ap (es @ fs) x = (case applyLog F ap es x of None \<Rightarrow> None | Some y \<Rightarrow> applyLog F ap fs y)"
  by (induction es arbitrary: x) (simp_all split: option.splits sum.splits)

text \<open>An entry leaves the replies of other indices alone.\<close>

lemma applyLog_results:
  "applyLog F ap es (sm, st) = Some (sm', st') \<Longrightarrow> idx \<notin> en_Index ` set es \<Longrightarrow> map_of (sm_results sm') idx = map_of (sm_results sm) idx"
proof (induction es arbitrary: sm st)
  case (Cons e es)
  then show ?case
    by (auto simp: SM_Apply_def split: option.splits sum.splits prod.splits)
qed simp

text \<open>
  What ToyRaft documents for \<^verbatim>\<open>Propose\<close>: when it returns an index, the entry with that index and
  the proposed bytes has been applied, after and before other entries with other indices.
\<close>

definition raft_applies :: "floatlib \<Rightarrow> 's apply_fn \<Rightarrow> 's raft_propose \<Rightarrow> bool" where
  "raft_applies F ap rp \<longleftrightarrow>
     (\<forall>data x idx y. rp data x = (Inr idx, y) \<longrightarrow>
        (\<exists>es fs. applyLog F ap (es @ \<lparr>en_Index = idx, en_Data = data\<rparr> # fs) x = Some y \<and> idx \<notin> en_Index ` set fs))"

text \<open>\<^verbatim>\<open>Propose\<close> as the dispatcher of a server sees it.\<close>

definition serverPropose :: "floatlib \<Rightarrow> (server \<times> nat) raft_propose \<Rightarrow> stateMachine \<Rightarrow> nat \<Rightarrow> propose" where
  "serverPropose F rp sm n argv s = (case Node_Propose F rp argv (sm, s, n) of (res, sm', s', n') \<Rightarrow> (res, s'))"

lemma propose_reply:
  assumes "raft_applies F ap rp" and "command_ok argv" and "rp (Encode F argv) (sm, s) = (Inr idx, sm0, s')"
  shows "\<exists>es fs sm1 s1 r s2 sm2 sm'. applyLog F ap es (sm, s) = Some (sm1, s1) \<and> ap argv s1 = Some (r, s2) \<and>
     applyLog F ap fs (sm2, s2) = Some (sm0, s') \<and>
     Node_Propose F rp argv (sm, s) = (PReply r, sm', s') \<and> map_of (sm_results sm') idx = None"
proof -
  let ?e = "\<lparr>en_Index = idx, en_Data = Encode F argv\<rparr>"
  obtain es fs where ap: "applyLog F ap (es @ ?e # fs) (sm, s) = Some (sm0, s')" and new: "idx \<notin> en_Index ` set fs"
    using assms(1,3) unfolding raft_applies_def by blast
  obtain sm1 s1 where es: "applyLog F ap es (sm, s) = Some (sm1, s1)" and tl: "applyLog F ap (?e # fs) (sm1, s1) = Some (sm0, s')"
    using ap by (auto simp: applyLog_append split: option.splits)
  obtain r s2 where r: "ap argv s1 = Some (r, s2)"
    using tl Decode_Encode [OF assms(2), of F] by (auto simp: SM_Apply_def split: option.splits)
  define sm2 where "sm2 = sm1\<lparr>sm_results := AList.update idx r (sm_results sm1)\<rparr>"
  have fs: "applyLog F ap fs (sm2, s2) = Some (sm0, s')"
    using tl r Decode_Encode [OF assms(2), of F] by (simp add: SM_Apply_def sm2_def)
  have "map_of (sm_results sm0) idx = Some r" using applyLog_results [OF fs new] by (simp add: sm2_def)
  then show ?thesis using es r fs assms(3) by (fastforce simp: Node_Propose_def TakeResult_def)
qed

text \<open>A resolved legal command is legal and does not depend on the clock.\<close>

lemma int64_unixMilli: "int64 (unixMilli t)"
  by (simp add: unixMilli_def int64_wrap64)

lemma formatInt_small: "int64 n \<Longrightarrow> int (length (formatInt n)) \<le> MaxBulkSize"
  using length_formatInt_le [of n] by (simp add: MaxBulkSize_def)

lemma resolved_ok: "legal argv \<Longrightarrow> legalRec (resolveNondeterministic now argv)"
proof -
  assume l: "legal argv"
  then obtain h where h: "map_of commands (upperASCII (argv ! 0)) = Some h" "h_mutating h" "arity_ok h argv" "argv \<noteq> []" "command_ok argv"
    by (auto simp: legal_def command_ok_def)
  have "set (resolveNondeterministic now argv) \<subseteq> set argv \<union> {''NX'', ''XX'', ''PXAT'', ''PEXPIREAT''} \<union> formatInt ` {n. int64 n}
      \<and> length (resolveNondeterministic now argv) \<le> max (length argv) 7"
  proof (cases "upperASCII (argv ! 0) \<in> {''SET'', ''EXPIRE'', ''PEXPIRE''}")
    case True
    have "3 \<le> length argv" using h(1,3) True by (auto simp: commands_def arity_ok_def mkHandler_def)
    then have m: "argv ! 0 \<in> set argv" "argv ! Suc 0 \<in> set argv" "argv ! 2 \<in> set argv"
      using h(4) by (auto intro!: nth_mem)
    show ?thesis
      using True m int64_unixMilli
      by (auto simp: resolveNondeterministic_def resolveSet_def resolveRelativeExpire_def
          split: sum.splits option.splits SetMode.splits if_splits)
  next
    case False
    then have "resolveNondeterministic now argv = argv" by (simp add: resolveNondeterministic_def)
    then show ?thesis by auto
  qed
  moreover have "\<forall>a \<in> set argv. int (length a) \<le> MaxBulkSize" "int (length argv) \<le> MaxArrayLen" using h(5) by (simp_all add: command_ok_def)
  ultimately have "\<forall>a \<in> set (resolveNondeterministic now argv). int (length a) \<le> MaxBulkSize" 
    "int (length (resolveNondeterministic now argv)) \<le> MaxArrayLen"
    using formatInt_small by (auto simp: MaxArrayLen_def) (auto simp: MaxBulkSize_def dest!: subsetD)
  then show ?thesis
    using resolved_legal [OF h(1-4), of now] resolve_op [of _ now argv] by (simp add: legalRec_def legal_def command_ok_def)
qed

text \<open>
  Claim C5. On the leader a client gets the reply of its own write: when ToyRaft commits the proposal, the
  dispatcher answers with what applying exactly the resolved command returned, in the state
  reached by the entries committed before it, whatever entries of other clients were applied
  around it; the resulting server is the one all these entries lead to.\<close>

theorem leader_replies:
  assumes "raft_applies F (serverApply pq envs) rp" and "legal argv" and "sv_replicated s" and "cs_authenticated cs" and "\<not> cs_applying cs"
    and "rp (Encode F (resolveNondeterministic (ev_now ev) argv)) (sm, s, n) = (Inr idx, sm0, s', n')"
  shows "\<exists>es fs sm1 s1 n1 r s2 sm2. applyLog F (serverApply pq envs) es (sm, s, n) = Some (sm1, s1, n1) \<and>
     applyReplicated pq (envs n1) (resolveNondeterministic (ev_now ev) argv) s1 = Some (r, s2) \<and>
     applyLog F (serverApply pq envs) fs (sm2, s2, n1 + 1) = Some (sm0, s', n') \<and>
     dispatch (serverPropose F rp sm n) ev cs argv s = Some (r, cs, s')"
proof -
  let ?c = "resolveNondeterministic (ev_now ev) argv"
  have ok: "command_ok ?c" using resolved_ok [OF assms(2)] by (simp add: legalRec_def legal_def)
  obtain es fs sm1 s1 n1 r s2 n2 sm2 sm' where x: "applyLog F (serverApply pq envs) es (sm, s, n) = Some (sm1, s1, n1)"
    "serverApply pq envs ?c (s1, n1) = Some (r, s2, n2)" "applyLog F (serverApply pq envs) fs (sm2, s2, n2) = Some (sm0, s', n')"
    "Node_Propose F rp ?c (sm, s, n) = (PReply r, sm', s', n')"
    using propose_reply [OF assms(1) ok assms(6)] by (metis prod.collapse)
  obtain h where h: "map_of commands (upperASCII (argv ! 0)) = Some h" "h_mutating h" "arity_ok h argv" "argv \<noteq> []"
    using assms(2) by (auto simp: legal_def command_ok_def)
  have "dispatch (serverPropose F rp sm n) ev cs argv s = Some (r, cs, s')"
    using h assms(3-5) x(4) by (auto simp: dispatch_def Let_def serverPropose_def arity_ok_def not_less)
  moreover have "applyReplicated pq (envs n1) ?c s1 = Some (r, s2)" "n2 = n1 + 1" using x(2) by (auto simp: serverApply_def)
  ultimately show ?thesis using x(1,3) by blast
qed

section \<open>Convergence of replicas\<close>

text \<open>The effect of a resolved command on the keys live at its application.\<close>

definition effectDB :: "bytes list \<Rightarrow> db \<Rightarrow> db" where
  "effectDB c db = (case mutOp 0 c of Inl e \<Rightarrow> db | Inr op \<Rightarrow> snd (spec 0 op db))"

text \<open>No deadline lies between the two clocks when an entry is applied, and no hash is copied.\<close>

fun inStep :: "(nat \<Rightarrow> time) \<Rightarrow> (nat \<Rightarrow> time) \<Rightarrow> nat \<Rightarrow> bytes list list \<Rightarrow> db \<Rightarrow> bool" where
  "inStep a b n [] db = True"
| "inStep a b n (c # cs) db =
     (live (a n) db = live (b n) db \<and>
      (case mutOp 0 c of Inl e \<Rightarrow> True | Inr op \<Rightarrow> \<not> copies_hash op (live (a n) db)) \<and>
      inStep a b (n + 1) cs (effectDB c (live (a n) db)))"

lemma appendReply_store: "sv_store (snd (appendReply c r s)) = sv_store s"
  by (simp add: appendReply_def appendIfLive_def case_prod_beta Let_def split: option.splits)

lemma replica_step:
  assumes "holds T db (sv_store s)" and "T \<le> ev_storeNow (envs n)" and "legalRec c"
    and "case mutOp 0 c of Inl e \<Rightarrow> True | Inr op \<Rightarrow> \<not> copies_hash op (live (ev_storeNow (envs n)) db)"
  shows "\<exists>r s'. serverApply pr envs c (s, n) = Some (r, s', n + 1) \<and>
    holds (ev_storeNow (envs n)) (effectDB c (live (ev_storeNow (envs n)) db)) (sv_store s')"
proof -
  let ?now = "ev_storeNow (envs n)"
  have l: "legal c" and clk: "mutOp (ev_now (envs n)) c = mutOp 0 c" using assms(3) by (auto simp: legalRec_def)
  obtain r s' where run: "mutRun (envs n) c s = (r, s')" by fastforce
  have ap: "serverApply pr envs c (s, n) = Some (r, s', n + 1)"
    using legal_dispatch [OF l applying_local] run by (simp add: serverApply_def applyReplicated_def)
  have "holds ?now (effectDB c (live ?now db)) (sv_store s')"
  proof (cases "mutOp 0 c")
    case (Inl e)
    then have "s' = s" using run clk by (simp add: mutRun_def)
    then show ?thesis using assms(1,2) Inl by (auto simp: holds_def effectDB_def live_live)
  next
    case (Inr op)
    note args = legal_args [OF l Inr]
    obtain rp st where e: "store_exec ?now op (sv_store s) = (rp, st)" by fastforce
    have "holds ?now (snd (spec ?now op (live ?now db))) st"
      using holds_exec(2) [OF assms(1,2) args(1) _ e] assms(4) Inr by simp
    moreover have "sv_store s' = st"
      using run clk Inr e appendReply_store [of "logForm c op" "mutReply op rp" "setStore st s"]
      by (cases "mutEffect op rp") (auto simp: mutRun_def)
    ultimately show ?thesis using spec_clock [OF args(2), of ?now "live ?now db" 0] Inr by (simp add: effectDB_def)
  qed
  with ap show ?thesis by blast
qed

text \<open>The effect of a log applied at given times; undefined when it copies a hash.\<close>

fun effects :: "(nat \<Rightarrow> time) \<Rightarrow> nat \<Rightarrow> bytes list list \<Rightarrow> db \<Rightarrow> db option" where
  "effects a n [] db = Some db"
| "effects a n (c # cs) db =
     (if (case mutOp 0 c of Inl e \<Rightarrow> True | Inr op \<Rightarrow> \<not> copies_hash op (live (a n) db))
      then effects a (n + 1) cs (effectDB c (live (a n) db)) else None)"

lemma inStep_effects: "inStep a b n cs db \<Longrightarrow> \<exists>d. effects a n cs db = Some d \<and> effects b n cs db = Some d"
proof (induction cs arbitrary: n db)
  case (Cons c cs)
  have eq: "live (b n) db = live (a n) db" using Cons.prems by simp
  show ?case using Cons.IH [of "Suc n" "effectDB c (live (a n) db)"] Cons.prems
    unfolding effects.simps inStep.simps eq by simp
qed simp

lemma replica_log:
  "map en_Data es = map (Encode F) cs \<Longrightarrow> \<forall>c \<in> set cs. legalRec c \<Longrightarrow> holds T db (sv_store s) \<Longrightarrow> T \<le> ev_storeNow (envs n) \<Longrightarrow>
   \<forall>m. ev_storeNow (envs m) \<le> ev_storeNow (envs (Suc m)) \<Longrightarrow> effects (\<lambda>m. ev_storeNow (envs m)) n cs db = Some db' \<Longrightarrow>
   \<exists>sm' s'. applyLog F (serverApply pr envs) es (sm, s, n) = Some (sm', s', n + length cs) \<and>
     holds (ev_storeNow (envs (n + length cs))) db' (sv_store s')"
proof (induction cs arbitrary: es n db s T sm)
  case Nil
  then show ?case using holds_later by fastforce
next
  case (Cons c cs)
  obtain e es' where es: "es = e # es'" "en_Data e = Encode F c" "map en_Data es' = map (Encode F) cs"
    using Cons.prems(1) by (auto simp: map_eq_Cons_conv)
  have lc: "legalRec c" and dec: "Decode F (en_Data e) = Inr c"
    using Cons.prems(2) es(2) Decode_Encode by (simp_all add: legalRec_def legal_def)
  let ?d = "live (ev_storeNow (envs n)) db"
  have st: "case mutOp 0 c of Inl e \<Rightarrow> True | Inr op \<Rightarrow> \<not> copies_hash op ?d"
    "effects (\<lambda>m. ev_storeNow (envs m)) (Suc n) cs (effectDB c ?d) = Some db'"
    using Cons.prems(6) by (simp_all split: if_splits)
  obtain r s1 where a: "serverApply pr envs c (s, n) = Some (r, s1, Suc n)" "holds (ev_storeNow (envs n)) (effectDB c ?d) (sv_store s1)"
    using replica_step [where envs = envs and n = n and pr = pr, OF Cons.prems(3,4) lc st(1)] by auto
  have rest: "\<forall>c \<in> set cs. legalRec c" and clk: "ev_storeNow (envs n) \<le> ev_storeNow (envs (Suc n))"
    using Cons.prems(2,5) by simp_all
  show ?case using Cons.IH [OF es(3) rest a(2) clk Cons.prems(5) st(2)] es(1) dec a(1) by (simp add: SM_Apply_def)
qed

text \<open>
  Claim C6. Replicas converge: two nodes that hold the same keyspace and apply the same log of resolved
  client commands, each at its own times and with whatever its own log file does, hold the
  same keyspace afterwards, from any instant after both have finished. There are two conditions:
  whenever an entry is applied the two clocks, neither of which runs backwards, agree on which
  keys have expired, and no entry is a COPY of a hash.\<close>

theorem replicas_converge:
  assumes "map en_Data es = map (\<lambda>(now, argv). Encode F (resolveNondeterministic now argv)) reqs"
    and "\<forall>(now, argv) \<in> set reqs. legal argv"
    and "holds TA db (sv_store sA)" and "holds TB db (sv_store sB)"
    and "TA \<le> ev_storeNow (envA 0)" and "TB \<le> ev_storeNow (envB 0)"
    and "\<forall>m. ev_storeNow (envA m) \<le> ev_storeNow (envA (Suc m))" and "\<forall>m. ev_storeNow (envB m) \<le> ev_storeNow (envB (Suc m))"
    and "inStep (\<lambda>m. ev_storeNow (envA m)) (\<lambda>m. ev_storeNow (envB m)) 0 (map (\<lambda>(now, argv). resolveNondeterministic now argv) reqs) db"
    and "ev_storeNow (envA (length reqs)) \<le> t" and "ev_storeNow (envB (length reqs)) \<le> t"
  shows "\<exists>smA' sA' smB' sB'. applyLog F (serverApply prA envA) es (smA, sA, 0) = Some (smA', sA', length reqs) \<and>
     applyLog F (serverApply prB envB) es (smB, sB, 0) = Some (smB', sB', length reqs) \<and>
     view (sv_store sA') t = view (sv_store sB') t"
proof -
  let ?cs = "map (\<lambda>(now, argv). resolveNondeterministic now argv) reqs"
  have es: "map en_Data es = map (Encode F) ?cs" using assms(1) by (simp add: case_prod_beta comp_def)
  have lr: "\<forall>c \<in> set ?cs. legalRec c" using assms(2) resolved_ok by auto
  obtain d where d: "effects (\<lambda>m. ev_storeNow (envA m)) 0 ?cs db = Some d" "effects (\<lambda>m. ev_storeNow (envB m)) 0 ?cs db = Some d"
    using inStep_effects [OF assms(9)] by blast
  show ?thesis
    using replica_log [where pr = prA and sm = smA, OF es lr assms(3,5,7) d(1)]
      replica_log [where pr = prB and sm = smB, OF es lr assms(4,6,8) d(2)] assms(10,11)
    by (auto simp: holds_def)
qed

text \<open>A log of two commands: SET with a deadline of 10 ms, proposed at time 0, and PERSIST.\<close>

definition demoProposals :: "(time \<times> bytes list) list" where
  "demoProposals = [(0, [''SET'', ''k'', ''v'', ''PX'', ''10'']), (1000000, [''PERSIST'', ''k''])]"

definition demoEntries :: "raftEntry list" where
  "demoEntries = [\<lparr>en_Index = 1, en_Data = Encode noFloat [''SET'', ''k'', ''v'', ''PXAT'', ''10'']\<rparr>,
     \<lparr>en_Index = 2, en_Data = Encode noFloat [''PERSIST'', ''k'']\<rparr>]"

lemma demo_resolved:
  "map (\<lambda>(now, argv). resolveNondeterministic now argv) demoProposals = [[''SET'', ''k'', ''v'', ''PXAT'', ''10''], [''PERSIST'', ''k'']]"
proof -
  have "parseInt ''10'' = Some 10" "formatInt 10 = ''10''" by (simp_all add: go_simps)
  then show ?thesis
    by (simp add: demoProposals_def resolveNondeterministic_def resolveSet_def parseSetOptions_def computeExpireAt_def durMul_def
        timeAdd_def wrap64_def isZero_def zeroTime_def unixMilli_def Millisecond_def)
qed

lemma demo_entries: "map en_Data demoEntries = map (\<lambda>(now, argv). Encode noFloat (resolveNondeterministic now argv)) demoProposals"
  using arg_cong [OF demo_resolved, of "map (Encode noFloat)"] by (simp add: demoEntries_def split_def comp_def)

lemma demo_holds: "holds t Map.empty (sv_store (demoServer a w))"
  by (simp add: demoServer_def holds_def store_ok_New)

lemma demo_live_early: "t < 10000000 \<Longrightarrow> live t [''k'' \<mapsto> (VString ''v'', 10000000)] = [''k'' \<mapsto> (VString ''v'', 10000000)]"
  by (auto simp: live_def fun_eq_iff)

lemma demo_live_empty: "live t Map.empty = Map.empty"
  by (simp add: live_def fun_eq_iff)

lemma demo_legal: "\<forall>(now, argv) \<in> set demoProposals. legal argv" "\<forall>c \<in> set [[''SET'', ''k'', ''v'', ''PXAT'', ''10''], [''PERSIST'', ''k'']]. legalRec c"
  using demo_commands demo_ops by (auto simp: demoProposals_def legalRec_def)

lemma demo_effects:
  "t < 10000000 \<Longrightarrow> effects (\<lambda>m. t) 0 [[''SET'', ''k'', ''v'', ''PXAT'', ''10''], [''PERSIST'', ''k'']] Map.empty =
     Some [''k'' \<mapsto> (VString ''v'', zeroTime)]"
  "effects (\<lambda>m. 60000000000) 0 [[''SET'', ''k'', ''v'', ''PXAT'', ''10''], [''PERSIST'', ''k'']] Map.empty = Some Map.empty"
  by (simp_all add: effectDB_def demo_ops demo_live_early demo_live_empty demo_gone isZero_def zeroTime_def)

theorem replicas_converge_witness:
  "\<exists>smA sA smB sB. applyLog noFloat (serverApply noPropose (\<lambda>m. demoEnv 5)) demoEntries (NewStateMachine, demoServer None demoWorld, 0) = Some (smA, sA, 2) \<and>
     applyLog noFloat (serverApply noPropose (\<lambda>m. demoEnv 2000000)) demoEntries (NewStateMachine, demoServer None demoWorld, 0) = Some (smB, sB, 2) \<and>
     view (sv_store sA) 99000000 = view (sv_store sB) 99000000"
proof -
  have st: "inStep (\<lambda>m. ev_storeNow (demoEnv 5)) (\<lambda>m. ev_storeNow (demoEnv 2000000)) 0
      (map (\<lambda>(now, argv). resolveNondeterministic now argv) demoProposals) Map.empty"
    unfolding demo_resolved by (simp add: effectDB_def demo_ops demo_live_early demo_live_empty demoEnv_def)
  have l: "length demoProposals = 2" by (simp add: demoProposals_def)
  show ?thesis
    using replicas_converge [where envA = "\<lambda>m. demoEnv 5" and envB = "\<lambda>m. demoEnv 2000000" and t = 99000000 and prA = noPropose and prB = noPropose
        and TA = 0 and TB = 0 and smA = NewStateMachine and smB = NewStateMachine, OF demo_entries demo_legal(1) demo_holds demo_holds _ _ _ _ st]
    unfolding l by (simp add: demoEnv_def)
qed

text \<open>
  The condition on the clocks is needed, although commands are resolved before they are
  proposed: expiry is still decided by the clock of the node that applies. SET with 10 ms to live
  followed by PERSIST, applied within 10 ms on one node and after a minute on the other, leaves the
  key for ever on the first and not at all on the second.\<close>

lemma replicas_diverge:
  "\<exists>smA sA smB sB. map en_Data demoEntries = map (\<lambda>(now, argv). Encode noFloat (resolveNondeterministic now argv)) demoProposals \<and>
     applyLog noFloat (serverApply noPropose (\<lambda>m. demoEnv 1000000)) demoEntries (NewStateMachine, demoServer None demoWorld, 0) = Some (smA, sA, 2) \<and>
     applyLog noFloat (serverApply noPropose (\<lambda>m. demoEnv 60000000000)) demoEntries (NewStateMachine, demoServer None demoWorld, 0) = Some (smB, sB, 2) \<and>
     view (sv_store sA) 60000000000 ''k'' = Some (VString ''v'', zeroTime) \<and> view (sv_store sB) 60000000000 ''k'' = None"
proof -
  have es: "map en_Data demoEntries = map (Encode noFloat) [[''SET'', ''k'', ''v'', ''PXAT'', ''10''], [''PERSIST'', ''k'']]"
    by (simp add: demoEntries_def)
  have e: "ev_storeNow (demoEnv t) = t" for t by (simp add: demoEnv_def)
  obtain smA sA where a: "applyLog noFloat (serverApply noPropose (\<lambda>m. demoEnv 1000000)) demoEntries (NewStateMachine, demoServer None demoWorld, 0) = Some (smA, sA, 2)"
    "holds 1000000 [''k'' \<mapsto> (VString ''v'', zeroTime)] (sv_store sA)"
    using replica_log [where envs = "\<lambda>m. demoEnv 1000000" and n = 0 and T = 0 and pr = noPropose and sm = NewStateMachine, OF es demo_legal(2) demo_holds [where a = None and w = demoWorld], unfolded e, OF _ _ demo_effects(1)]
    by (auto simp: numeral_2_eq_2)
  obtain smB sB where b: "applyLog noFloat (serverApply noPropose (\<lambda>m. demoEnv 60000000000)) demoEntries (NewStateMachine, demoServer None demoWorld, 0) = Some (smB, sB, 2)"
    "holds 60000000000 Map.empty (sv_store sB)"
    using replica_log [where envs = "\<lambda>m. demoEnv 60000000000" and n = 0 and T = 0 and pr = noPropose and sm = NewStateMachine, OF es demo_legal(2) demo_holds [where a = None and w = demoWorld], unfolded e, OF _ _ demo_effects(2)]
    by (auto simp: numeral_2_eq_2)
  have v: "live 60000000000 [''k'' \<mapsto> (VString ''v'', zeroTime)] ''k'' = Some (VString ''v'', zeroTime)" by (simp add: live_def isZero_def)
  show ?thesis using demo_entries a b v demo_live_empty by (fastforce simp: holds_def)
qed

text \<open>A library that commits every proposal at once, as a single node does.\<close>

definition soloRaft :: "floatlib \<Rightarrow> 's apply_fn \<Rightarrow> 's raft_propose" where
  "soloRaft F ap data x =
     (case SM_Apply F ap \<lparr>en_Index = 1, en_Data = data\<rparr> x of
        Some (Inr r, y) \<Rightarrow> (Inr 1, y)
      | _ \<Rightarrow> (Inl (RaftFailed ''stopped''), x))"

lemma solo_applies: "raft_applies F ap (soloRaft F ap)"
proof -
  have "\<exists>es fs. applyLog F ap (es @ \<lparr>en_Index = idx, en_Data = data\<rparr> # fs) x = Some y \<and> idx \<notin> en_Index ` set fs"
    if "soloRaft F ap data x = (Inr idx, y)" for data x idx y
    using that by (intro exI [of _ "[]"]) (auto simp: soloRaft_def split: option.splits sum.splits)
  then show ?thesis by (simp add: raft_applies_def)
qed

theorem leader_replies_witness:
  "\<exists>r s'. dispatch (serverPropose noFloat (soloRaft noFloat (serverApply noPropose (\<lambda>n. demoEnv 5))) NewStateMachine 0) (demoEnv 5)
       (newConnState 1 True) [''PERSIST'', ''k''] ((demoServer None demoWorld)\<lparr>sv_replicated := True\<rparr>) = Some (r, newConnState 1 True, s')"
proof -
  let ?s = "(demoServer None demoWorld)\<lparr>sv_replicated := True\<rparr>" and ?ap = "serverApply noPropose (\<lambda>n. demoEnv 5)"
  have res: "resolveNondeterministic (ev_now (demoEnv 5)) [''PERSIST'', ''k''] = [''PERSIST'', ''k'']"
    by (simp add: resolveNondeterministic_def)
  obtain r s' where run: "mutRun (demoEnv 5) [''PERSIST'', ''k''] ?s = (r, s')" by fastforce
  have "?ap [''PERSIST'', ''k''] (?s, 0) = Some (r, s', 1)"
    using legal_dispatch [OF demo_commands(2) applying_local, of noPropose "demoEnv 5" ?s] run by (simp add: serverApply_def applyReplicated_def)
  then have rp: "\<exists>sm0. soloRaft noFloat ?ap (Encode noFloat (resolveNondeterministic (ev_now (demoEnv 5)) [''PERSIST'', ''k''])) (NewStateMachine, ?s, 0)
      = (Inr 1, sm0, s', 1)"
    unfolding res using Decode_Encode [of "[''PERSIST'', ''k'']" noFloat] demo_commands(2) by (simp add: soloRaft_def SM_Apply_def legal_def)
  show ?thesis
    using rp leader_replies [OF solo_applies demo_commands(2), where s = ?s and cs = "newConnState 1 True" and ev = "demoEnv 5"]
    by (fastforce simp: newConnState_def)
qed

section \<open>Snapshots of the state machine\<close>

lemma length_putUint32 [simp]: "length (putUint32 n) = 4"
  by (simp add: putUint32_def)

lemma getUint32_put: "n < 2 ^ 32 \<Longrightarrow> getUint32 (putUint32 n) = n"
proof -
  assume n: "n < 2 ^ 32"
  define q1 q2 q3 where q: "q1 = n div 256" "q2 = q1 div 256" "q3 = q2 div 256"
  have d: "n div 65536 = q2" "n div 16777216 = q3" using div_mult2_eq [of n 256 256] div_mult2_eq [of n 65536 256] by (simp_all add: q)
  have "q3 < 256" using n by (simp add: div_less_iff_less_mult flip: d(2))
  then have "getUint32 (putUint32 n) = q3 * 16777216 + q2 mod 256 * 65536 + q1 mod 256 * 256 + n mod 256"
    by (simp add: getUint32_def putUint32_def d flip: q(1))
  moreover have "n = q1 * 256 + n mod 256" "q1 = q2 * 256 + q1 mod 256" "q2 = q3 * 256 + q2 mod 256"
    by (simp_all only: q div_mult_mod_eq)
  ultimately show ?thesis by linarith
qed

lemma Encode_ne [simp]: "Encode F c \<noteq> []"
  by (simp add: Encode_def)

lemma snapLoop_frames:
  "\<forall>c \<in> set cs. command_ok c \<Longrightarrow> length (concat (map (snapFrame F) cs)) < 2 ^ 32 \<Longrightarrow>
   snapLoop F (concat (map (snapFrame F) cs)) acc = Inr (acc @ cs)"
proof (induction cs arbitrary: acc)
  case Nil
  then show ?case by (simp add: snapLoop.simps)
next
  case (Cons c cs)
  let ?rest = "concat (map (snapFrame F) cs)" and ?n = "length (Encode F c)"
  have n: "?n < 2 ^ 32" and len: "length (Encode F c @ ?rest) < 2 ^ 32" using Cons.prems(2) by (simp_all add: snapFrame_def [of F c])
  have "snapLoop F (putUint32 ?n @ Encode F c @ ?rest) acc = snapLoop F ?rest (acc @ [c])"
    using n len Cons.prems(1) Decode_Encode [of c F] by (subst snapLoop.simps) (simp add: getUint32_put)
  then show ?case using Cons n by (simp add: snapFrame_def [of F c])
qed

lemma clusterEntryCmds_eq: "clusterEntryCmds e = snapshotCmds e"
  by (simp add: clusterEntryCmds_def snapshotCmds_def clusterCanonicalSet_def renderCanonicalSet_def renderPExpireAt_def hashArgs_def Let_def)

lemma entriesDB_perm:
  assumes "distinct (map se_Key xs)" and "mset xs = mset ys"
  shows "entriesDB xs db = entriesDB ys db"
proof
  fix k
  have d: "distinct (map se_Key ys)" using assms mset_eq_imp_distinct_iff [of "map se_Key xs" "map se_Key ys"] by simp
  have s: "set xs = set ys" using assms(2) by (rule mset_eq_setD)
  have u: "find (\<lambda>se. se_Key se = k) zs = Some se \<longleftrightarrow> se \<in> set zs \<and> se_Key se = k" if "distinct (map se_Key zs)" for zs se
    using that by (induction zs) (auto simp: rev_image_eqI)
  have "find (\<lambda>se. se_Key se = k) xs = find (\<lambda>se. se_Key se = k) ys"
    using u [OF assms(1)] u [OF d] s by (metis not_None_eq)
  then show "entriesDB xs db k = entriesDB ys db k" by (simp add: entriesDB_lookup assms(1) d)
qed

text \<open>Applying commands one after the other, as a restore would.\<close>

fun applyCmds :: "'s apply_fn \<Rightarrow> bytes list list \<Rightarrow> 's \<Rightarrow> 's option" where
  "applyCmds ap [] st = Some st"
| "applyCmds ap (c # cs) st = (case ap c st of None \<Rightarrow> None | Some (r, st') \<Rightarrow> applyCmds ap cs st')"

lemma applyCmds_replay:
  "applyAll (replayHandler pr envs) cs (s, n) = (None, m, s', n') \<Longrightarrow> applyCmds (serverApply pr envs) cs (s, n) = Some (s', n')"
proof (induction cs arbitrary: s n m)
  case (Cons c cs)
  obtain s1 m1 where s1: "replayHandler pr envs c (s, n) = (None, s1)" "applyAll (replayHandler pr envs) cs s1 = (None, m1, s', n')"
    using Cons.prems by (auto split: prod.splits option.splits)
  have "\<exists>r. serverApply pr envs c (s, n) = Some (r, s1)"
    using s1(1) by (auto simp: replayHandler_def replayApply_def serverApply_def applyReplicated_def split: option.splits resp_value.splits prod.splits)
  then show ?case using Cons.IH s1(2) by (cases s1) auto
qed simp



section \<open>Pending replies\<close>

lemma applyLog_keys:
  "applyLog F ap es (sm, s) = Some (sm', s') \<Longrightarrow> distinct (map fst (sm_results sm)) \<Longrightarrow>
   distinct (map fst (sm_results sm')) \<and> set (map fst (sm_results sm')) = set (map fst (sm_results sm)) \<union> en_Index ` set es"
proof (induction es arbitrary: sm s)
  case (Cons e es)
  obtain r sm1 s1 where a: "SM_Apply F ap e (sm, s) = Some (Inr r, sm1, s1)" "applyLog F ap es (sm1, s1) = Some (sm', s')"
    using Cons.prems(1) by (auto split: option.splits sum.splits)
  have k: "map fst (sm_results sm1) = map fst (AList.update (en_Index e) r (sm_results sm))"
    using a(1) by (auto simp: SM_Apply_def split: option.splits sum.splits)
  have "distinct (map fst (sm_results sm1))" using Cons.prems(2) unfolding k by simp
  moreover have "set (map fst (sm_results sm1)) = insert (en_Index e) (set (map fst (sm_results sm)))"
    unfolding k update_keys by auto
  ultimately show ?case using Cons.IH [OF a(2)] by auto
qed simp

text \<open>
  A node that does not propose never takes a reply out of its table: after a follower has
  applied a log, the table holds one reply for every entry of that log (indices are distinct), so it grows with
  the log without bound. Only the node that proposed an entry calls \<^verbatim>\<open>TakeResult\<close>.\<close>

lemma follower_results_grow:
  assumes "applyLog F ap es (NewStateMachine, s) = Some (sm, s')" and "distinct (map en_Index es)"
  shows "length (sm_results sm) = length es"
proof -
  have "distinct (map fst (sm_results sm)) \<and> set (map fst (sm_results sm)) = en_Index ` set es"
    using applyLog_keys [OF assms(1)] by (simp add: NewStateMachine_def)
  then show ?thesis using distinct_card [of "map fst (sm_results sm)"] distinct_card [OF assms(2)] by simp
qed

end
