(* ===== verification/Sweeper.thy ===== *)
theory Sweeper
  imports StoreScan
begin

text \<open>
  The background sweeper (\<^verbatim>\<open>internal/store/sweeper.go\<close>): a tick samples the key map, evicts the expired
  keys it saw, and repeats while the expired fraction stays above a threshold, up to a fixed
  number of passes. The order in which a pass visits the map is an argument, and so are the two
  comparisons of floating-point numbers. Metrics and spans are left out.
\<close>

section \<open>Model\<close>

text \<open>
  \<open>fl_quotLe e n t\<close> is \<^verbatim>\<open>float64(e)/float64(n) <= t\<close>, \<open>fl_nonpos t\<close> is \<^verbatim>\<open>t <= 0\<close>, \<open>fl_quarter\<close> is 0.25.
\<close>

record 'f float64 =
  fl_nonpos :: "'f \<Rightarrow> bool"
  fl_quarter :: 'f
  fl_quotLe :: "int \<Rightarrow> int \<Rightarrow> 'f \<Rightarrow> bool"

record 'f sweeper =
  sw_interval :: int
  sw_batch :: int
  sw_threshold :: 'f
  sw_maxLoops :: int

text \<open>The options of \<^verbatim>\<open>NewSweeper\<close> have the same fields.\<close>

definition NewSweeper :: "'f float64 \<Rightarrow> 'f sweeper \<Rightarrow> 'f sweeper" where
  "NewSweeper fl opts =
     \<lparr>sw_interval = (if sw_interval opts \<le> 0 then Second else sw_interval opts),
      sw_batch = (if sw_batch opts \<le> 0 then 20 else sw_batch opts),
      sw_threshold = (if fl_nonpos fl (sw_threshold opts) then fl_quarter fl else sw_threshold opts),
      sw_maxLoops = (if sw_maxLoops opts \<le> 0 then 16 else sw_maxLoops opts)\<rparr>"

text \<open>\<open>ord i\<close> is the order of the \<open>i\<close>-th pass; the fourth argument counts the passes left.\<close>

type_synonym passOrder = "nat \<Rightarrow> (string \<times> entry) list \<Rightarrow> (string \<times> entry) list"

fun tickLoop :: "'f float64 \<Rightarrow> passOrder \<Rightarrow> 'f sweeper \<Rightarrow> time \<Rightarrow> nat \<Rightarrow> nat \<Rightarrow> int \<Rightarrow> int \<Rightarrow> store \<Rightarrow> int \<times> int \<times> store" where
  "tickLoop fl ord sw now 0 i totalSampled totalEvicted s = (totalSampled, totalEvicted, s)"
| "tickLoop fl ord sw now (Suc m) i totalSampled totalEvicted s =
     (let (sampled, evicted, s') = sweepOnce (ord i (st_data s)) now (sw_batch sw) s
      in if sampled = 0 then (totalSampled + sampled, totalEvicted + evicted, s')
         else if fl_quotLe fl evicted sampled (sw_threshold sw) then (totalSampled + sampled, totalEvicted + evicted, s')
         else tickLoop fl ord sw now m (i + 1) (totalSampled + sampled) (totalEvicted + evicted) s')"

definition tick :: "'f float64 \<Rightarrow> passOrder \<Rightarrow> 'f sweeper \<Rightarrow> time \<Rightarrow> store \<Rightarrow> int \<times> int \<times> store" where
  "tick fl ord sw now s = tickLoop fl ord sw now (nat (sw_maxLoops sw)) 0 0 0 s"

text \<open>The ticks of a sweeper until its context ends: the clock and the orders each one sees.\<close>

fun sweeperRun :: "'f float64 \<Rightarrow> 'f sweeper \<Rightarrow> (time \<times> passOrder) list \<Rightarrow> store \<Rightarrow> store" where
  "sweeperRun fl sw [] s = s"
| "sweeperRun fl sw ((now, ord) # ts) s = sweeperRun fl sw ts (snd (snd (tick fl ord sw now s)))"

section \<open>Properties\<close>

abbreviation fair :: "passOrder \<Rightarrow> bool" where
  "fair ord \<equiv> \<forall>i d. mset (ord i d) = mset d"

lemma tickLoop_spec:
  assumes "store_ok s" and "fair ord" and "tickLoop fl ord sw now m i S E s = (S', E', s')"
  shows "store_ok s' \<and> view s' now = view s now \<and> 0 \<le> E' - E \<and> E' - E \<le> S' - S \<and> S' - S \<le> int m * max 0 (sw_batch sw) \<and>
    int (length (st_data s')) = int (length (st_data s)) - (E' - E)"
  using assms(1,3)
proof (induction m arbitrary: i S E s)
  case (Suc m)
  obtain n e u where r: "sweepOnce (ord i (st_data s)) now (sw_batch sw) s = (n, e, u)" by (metis prod.collapse)
  have v: "visits (ord i (st_data s)) s" using assms(2) by blast
  note x = sweepOnce_spec(1-6) [OF Suc.prems(1) v r]
  have n: "n \<le> max 0 (sw_batch sw)" "int m * max 0 (sw_batch sw) \<ge> 0" "int (Suc m) * max 0 (sw_batch sw) = int m * max 0 (sw_batch sw) + max 0 (sw_batch sw)"
    using x(5) by (auto simp: algebra_simps)
  show ?case
  proof (cases "n = 0 \<or> fl_quotLe fl e n (sw_threshold sw)")
    case True
    then have "S' = S + n \<and> E' = E + e \<and> s' = u" using Suc.prems(2) r by (auto split: if_splits)
    moreover have "n \<le> int (Suc m) * max 0 (sw_batch sw)" using n by linarith
    ultimately show ?thesis using x(1-4,6) by (simp del: of_nat_Suc)
  next
    case False
    then have "tickLoop fl ord sw now m (i + 1) (S + n) (E + e) u = (S', E', s')" using Suc.prems(2) r by simp
    note k = Suc.IH [OF x(1) this]
    have "S' - S \<le> int (Suc m) * max 0 (sw_batch sw)" using k n by linarith
    then show ?thesis using k x(2-4,6) by (simp del: of_nat_Suc)
  qed
qed (use assms in auto)

lemma tick_spec:
  assumes "store_ok s" and "fair ord" and "tick fl ord sw now s = (S, E, s')"
  shows "store_ok s'" and "view s' now = view s now" and "0 \<le> E" and "E \<le> S" and "S \<le> max 0 (sw_maxLoops sw) * max 0 (sw_batch sw)"
    and "int (length (st_data s')) = int (length (st_data s)) - E"
proof -
  have "int (nat (sw_maxLoops sw)) = max 0 (sw_maxLoops sw)" by simp
  note k = tickLoop_spec [OF assms(1,2) assms(3) [unfolded tick_def], unfolded this]
  show "store_ok s'" "view s' now = view s now" "0 \<le> E" "E \<le> S" "S \<le> max 0 (sw_maxLoops sw) * max 0 (sw_batch sw)"
    "int (length (st_data s')) = int (length (st_data s)) - E"
    using k by (simp_all only: diff_zero)
qed

text \<open>
  Claim C25. The sweeper never takes a key away that a client could still see: whatever ticks run, with
  clocks that do not run backwards and maps visited in any order, the abstract keyspace is
  unchanged from the last tick on and the representation stays well formed; each tick samples at
  most batch times maxLoops keys.\<close>

theorem sweeper_invisible:
  assumes "store_ok s" and "\<forall>(now, ord) \<in> set ts. fair ord \<and> now \<le> t"
  shows "store_ok (sweeperRun fl sw ts s) \<and> view (sweeperRun fl sw ts s) t = view s t \<and>
     (\<forall>(now, ord) \<in> set ts. fst (tick fl ord sw now s) \<le> max 0 (sw_maxLoops sw) * max 0 (sw_batch sw))"
proof -
  have "store_ok (sweeperRun fl sw ts s) \<and> view (sweeperRun fl sw ts s) t = view s t"
    using assms
  proof (induction ts arbitrary: s)
    case (Cons x ts)
    obtain now ord where x: "x = (now, ord)" by (cases x)
    obtain S E u where r: "tick fl ord sw now s = (S, E, u)" by (metis prod.collapse)
    have o: "fair ord" "now \<le> t" using Cons.prems(2) x by auto
    note k = tick_spec(1,2) [OF Cons.prems(1) o(1) r]
    have "view u t = view s t" using view_later [OF o(2)] k(2) by metis
    then show ?case using Cons.IH [OF k(1)] Cons.prems(2) x r by simp
  qed simp
  moreover have "fst (tick fl ord sw now s) \<le> max 0 (sw_maxLoops sw) * max 0 (sw_batch sw)" if m: "(now, ord) \<in> set ts" for now ord
  proof -
    have o: "fair ord" using assms(2) m by blast
    show ?thesis using tick_spec(5) [OF assms(1) o, of fl sw now "fst (tick fl ord sw now s)"] by (metis prod.collapse)
  qed
  ultimately show ?thesis by blast
qed

lemma tickLoop_clears:
  assumes "store_ok s" and "fair ord" and "\<forall>(k, e) \<in> set (st_data s). expired e now" and "0 < sw_batch sw"
    and "\<And>n. 0 < n \<Longrightarrow> \<not> fl_quotLe fl n n (sw_threshold sw)"
  shows "length (st_data (snd (snd (tickLoop fl ord sw now m i S E s)))) = length (st_data s) - m * nat (sw_batch sw)"
  using assms(1,3)
proof (induction m arbitrary: i S E s)
  case (Suc m)
  obtain n e u where r: "sweepOnce (ord i (st_data s)) now (sw_batch sw) s = (n, e, u)" by (metis prod.collapse)
  have v: "visits (ord i (st_data s)) s" using assms(2) by blast
  note x = sweepOnce_spec(1,5,6) [OF Suc.prems(1) v r] and y = sweepOnce_spec(7) [OF Suc.prems(1) v r Suc.prems(2)]
  have n: "n = min (sw_batch sw) (int (length (st_data s)))" using x(2) assms(4) by simp
  have l: "length (st_data u) = length (st_data s) - nat (sw_batch sw)" using x(3) y n assms(4) by (simp add: min_def split: if_splits)
  show ?case
  proof (cases "n = 0")
    case True
    then show ?thesis using r l n assms(4) by (simp add: min_def split: if_splits)
  next
    case False
    then have "0 < n" using n assms(4) by (auto simp: min_def split: if_splits)
    then have "\<not> fl_quotLe fl e n (sw_threshold sw)" using assms(5) y by simp
    then show ?thesis using r False Suc.IH [OF x(1), of "i + 1" "S + n" "E + e"] y l by (simp add: diff_diff_left)
  qed
qed simp

text \<open>
  The sweeper makes progress: in a store whose keys have all expired, one tick removes
  batch times maxLoops of them, or all; with the default options a tick therefore empties a
  store of up to 320 expired keys. (The threshold is below one: a quotient of equal numbers is above it.)\<close>

lemma tick_clears_expired:
  assumes "store_ok s" and "fair ord" and "\<forall>(k, e) \<in> set (st_data s). expired e now"
    and "\<And>n. 0 < n \<Longrightarrow> \<not> fl_quotLe fl n n (sw_threshold (NewSweeper fl opts))" and "sw_batch opts \<le> 0" and "sw_maxLoops opts \<le> 0"
  shows "length (st_data (snd (snd (tick fl ord (NewSweeper fl opts) now s)))) = length (st_data s) - 320"
proof -
  have b: "sw_batch (NewSweeper fl opts) = 20" "sw_maxLoops (NewSweeper fl opts) = 16" using assms(5,6) by (simp_all add: NewSweeper_def)
  show ?thesis
    using tickLoop_clears [OF assms(1-3) _ assms(4)] by (simp add: tick_def b)
qed

text \<open>Exact fractions, numerator and positive denominator, instead of floating-point numbers.\<close>

definition fracFloat :: "(int \<times> int) float64" where
  "fracFloat = \<lparr>fl_nonpos = (\<lambda>(p, q). p \<le> 0), fl_quarter = (1, 4), fl_quotLe = (\<lambda>e n (p, q). e * q \<le> p * n)\<rparr>"

definition noOptions :: "(int \<times> int) sweeper" where
  "noOptions = \<lparr>sw_interval = 0, sw_batch = 0, sw_threshold = (0, 1), sw_maxLoops = 0\<rparr>"

theorem sweeper_invisible_witness:
  "view (sweeperRun fracFloat (NewSweeper fracFloat noOptions) [(15, \<lambda>i d. d), (20, \<lambda>i d. rev d)] demo) 20 = view demo 20"
  using sweeper_invisible [OF demo_ok(1), of "[(15, \<lambda>i d. d), (20, \<lambda>i d. rev d)]" 20 fracFloat "NewSweeper fracFloat noOptions"] by simp

end
