(* ===== verification/Serving.thy ===== *)
theory Serving
  imports Cluster Sweeper
begin

text \<open>
  Serving clients (\<^verbatim>\<open>internal/server/conn.go\<close> and the accept loop of \<^verbatim>\<open>server.go\<close>): a connection is a byte
  stream from which commands are read, dispatched in order and answered in the protocol the
  connection has negotiated by then.
\<close>

section \<open>conn.go\<close>

text \<open>
  The loop of \<^verbatim>\<open>handleConn\<close> over the whole input of the peer. \<open>envs n\<close> is what the \<open>n\<close>-th command reads
  from outside, \<open>sent n\<close> whether flushing the \<open>n\<close>-th reply succeeds; a reply that fails to encode or to
  be sent ends the connection. The result is what the peer receives, with both states. The
  telemetry of \<^verbatim>\<open>observeCommand\<close> around \<^verbatim>\<open>dispatch\<close> is left out.
\<close>

function connLoop ::
  "floatlib \<Rightarrow> propose \<Rightarrow> (nat \<Rightarrow> env) \<Rightarrow> (nat \<Rightarrow> bool) \<Rightarrow> bytes \<Rightarrow> nat \<times> connState \<times> server \<times> bytes \<Rightarrow> (bytes \<times> connState \<times> server) option" where
  "connLoop F pr envs sent inp (n, cs, s, out) =
     (case ReadCommand F inp of
        Inl e \<Rightarrow>
          if e = EOF then Some (out, cs, s)
          else Some (if sent n then out @ fst (WriteFrame F (RError ''ERR Protocol error'')) else out, cs, s)
      | Inr (argv, rest) \<Rightarrow>
          (case dispatch pr (envs n) cs argv s of
             None \<Rightarrow> None
           | Some (reply, cs', s') \<Rightarrow>
               let (b, ok) = WriteFrameProto F (cs_proto cs') reply
               in if \<not> ok \<or> \<not> sent n then Some (out, cs', s')
                  else connLoop F pr envs sent rest (n + 1, cs', s', out @ b)))"
  by pat_completeness auto

termination connLoop
  by (relation "measure (\<lambda>(F, pr, envs, sent, inp, x). length inp)") (auto dest!: ReadCommand_spec(2) eats_shorter)

declare connLoop.simps [simp del]

text \<open>\<open>handshake\<close> is \<^const>\<open>None\<close> on a plaintext listener, else the outcome of the TLS handshake.\<close>

definition handleConn ::
  "floatlib \<Rightarrow> propose \<Rightarrow> (nat \<Rightarrow> env) \<Rightarrow> (nat \<Rightarrow> bool) \<Rightarrow> bool option \<Rightarrow> nat \<Rightarrow> bytes \<Rightarrow> server \<Rightarrow> (bytes \<times> server) option" where
  "handleConn F pr envs sent handshake connID inp s =
     (if handshake = Some False then Some ([], s)
      else map_option (\<lambda>(out, cs, s'). (out, s'))
             (connLoop F pr envs sent inp (0, newConnState (connID + 1) (sv_requirePass s = []), s, [])))"

section \<open>The accept loop\<close>

definition nextBackoff :: "int \<Rightarrow> int" where
  "nextBackoff prev =
     (if prev \<le> 0 then 5 * Millisecond
      else let next = wrap64 (prev * 2) in if next > Second then Second else next)"

text \<open>
  What \<^verbatim>\<open>Accept\<close> can return, and what the loop does: how many connections it started, the delays it slept,
  and how it ended (\<^const>\<open>None\<close>: it is still waiting).
\<close>

datatype acceptEvent = AcConn | AcTooManyFiles | AcClosed | AcFailed

datatype acceptEnd = EndClean | EndError

fun acceptLoop :: "acceptEvent list \<Rightarrow> int \<Rightarrow> nat \<Rightarrow> int list \<Rightarrow> acceptEnd option \<times> nat \<times> int list" where
  "acceptLoop [] backoff started slept = (None, started, slept)"
| "acceptLoop (AcConn # es) backoff started slept = acceptLoop es 0 (started + 1) slept"
| "acceptLoop (AcTooManyFiles # es) backoff started slept =
     acceptLoop es (nextBackoff backoff) started (slept @ [nextBackoff backoff])"
| "acceptLoop (AcClosed # es) backoff started slept = (Some EndClean, started, slept)"
| "acceptLoop (AcFailed # es) backoff started slept = (Some EndError, started, slept)"

section \<open>Every reply can be written\<close>

fun encodable :: "resp_value \<Rightarrow> bool" where
  "encodable (RArray vs) = (\<forall>v \<in> set vs. encodable v)"
| "encodable (RMap vs) = (\<forall>v \<in> set vs. encodable v)"
| "encodable (RSet vs) = (\<forall>v \<in> set vs. encodable v)"
| "encodable (RPush vs) = (\<forall>v \<in> set vs. encodable v)"
| "encodable (RVerbatim tag b) = (length tag = 3)"
| "encodable (RUnknown c) = False"
| "encodable v = True"

lemma encodable_write:
  "encodable v \<Longrightarrow> snd (WriteFrameProto F p v)"
  "\<forall>v \<in> set vs. encodable v \<Longrightarrow> snd (writeElems F p vs)"
  by (induction F p v and F p vs rule: WriteFrameProto_writeElems.induct)
     (auto simp: wok_def wthen_def writePrefixed_def writeBulkBytes_def writeHeader_def writeDouble_def writeBoolean_def writeNull_def writeVerbatim_def)

lemma encodable_bulks [simp]: "v \<in> set (bulks vs) \<Longrightarrow> encodable v"
  by (auto simp: bulks_def)

lemma mutReply_encodable: "encodable (mutReply op rp)"
  by (cases rp) (auto simp: mutReply_def mutErr_def incrErr_def wrongTypeErr_def notIntegerErr_def bulkOrNull_def ROK_def
      split: store_op.splits store_err.splits option.splits)

lemma isError_encodable: "isError e \<Longrightarrow> encodable e"
  by (cases e) (auto simp: isError_def)

lemma errors [simp]: "isError wrongTypeErr" "isError notIntegerErr" "isError syntaxErr" "isError timeoutErr" "isError (RError m)" "isError (notLeaderReply ev hint)"
  by (simp_all add: isError_def wrongTypeErr_def notIntegerErr_def syntaxErr_def timeoutErr_def notLeaderReply_def)

lemma setOptions_isError: "setOptionsLoop now ts opts m x = Inl e \<Longrightarrow> isError e"
proof (induction now ts opts m x rule: setOptionsLoop.induct)
  case (2 now t rest opts m x)
  then show ?case by (auto simp: Let_def computeExpireAt_def split: if_splits list.splits option.splits sum.splits)
qed simp

lemma copyOptions_isError: "copyOptions ts r = Inl e \<Longrightarrow> isError e"
  by (induction ts r rule: copyOptions.induct) (auto split: if_splits option.splits)

lemma scanOptions_isError: "scanOptions ts m c = Inl e \<Longrightarrow> isError e"
  by (induction ts m c rule: scanOptions.induct) (auto split: if_splits option.splits)

lemma mutOp_isError: "mutOp now argv = Inl e \<Longrightarrow> isError e"
  by (auto simp: mutOp_def Let_def parseSetOptions_def dest: setOptions_isError copyOptions_isError split: if_splits sum.splits option.splits)

lemma mutOp_error_encodable: "mutOp now argv = Inl e \<Longrightarrow> encodable e"
  by (rule isError_encodable [OF mutOp_isError])

lemma mutRun_encodable: "encodable (fst (mutRun ev argv s))"
  using mutReply_encodable mutOp_error_encodable
  by (auto simp: mutRun_def appendReply_def case_prod_beta Let_def split: sum.splits)

lemma authenticate_reply: "encodable (fst (authenticate s user pass cs))"
  by (simp add: authenticate_def)

lemma waitLoop_reply: "waitLoop es timed target n me = Some r \<Longrightarrow> encodable r"
  by (induction es timed target n me rule: waitLoop.induct) (auto simp: Let_def split: if_splits)

lemma conn_replies:
  "encodable (fst (cmdHello s argv cs))" "encodable (fst (cmdAuth s argv cs))" "encodable (fst (cmdReadOnly cs))" "encodable (fst (cmdReadWrite cs))"
  "encodable (fst (cmdBGRewriteAOF s))" "cmdWait ev argv s = Some r \<Longrightarrow> encodable r"
  using authenticate_reply waitLoop_reply
  by (auto simp: cmdHello_def helloReply_def cmdAuth_def cmdReadOnly_def cmdReadWrite_def ROK_def cmdBGRewriteAOF_def cmdWait_def Let_def case_prod_beta
      intro: isError_encodable split: option.splits if_splits)

lemma store_replies:
  "encodable (fst (cmdGet ev argv s))" "encodable (cmdExists ev argv s)" "encodable (cmdKeys ev argv s)" "encodable (cmdScan ev argv s)"
  "encodable (cmdDBSize s)" "encodable (cmdTTL ev argv s)" "encodable (cmdPTTL ev argv s)"
  "encodable (cmdLLen ev argv s)" "encodable (cmdLRange ev argv s)" "encodable (cmdLIndex ev argv s)" "encodable (cmdHGet ev argv s)"
  "encodable (cmdHExists ev argv s)" "encodable (cmdHKeys ev argv s)" "encodable (cmdHVals ev argv s)" "encodable (cmdHLen ev argv s)"
  "encodable (cmdHGetAll ev argv s)" "encodable (cmdType ev argv s)" "encodable (cmdInfo ev argv s)" "encodable (cmdPing argv)" "encodable (cmdEcho argv)"
  using scanOptions_isError
  by (auto simp: cmdGet_def cmdExists_def cmdKeys_def cmdScan_def cmdDBSize_def cmdTTL_def cmdPTTL_def ttlReply_def cmdLLen_def cmdLRange_def cmdLIndex_def
      cmdHGet_def cmdHExists_def cmdHKeys_def cmdHVals_def cmdHLen_def cmdHGetAll_def cmdType_def cmdInfo_def cmdPing_def cmdEcho_def bulkOrNull_def
      Let_def case_prod_beta intro: isError_encodable split: sum.splits option.splits prod.splits)

lemma read_encodable:
  assumes "map_of commands (upperASCII (argv ! 0)) = Some h" and "\<not> h_mutating h" and "h_fn h ev cs argv s = Some (r, cs', s')"
  shows "encodable r"
  using command_mem [OF assms(1)] assms(2,3) unfolding commands_def list.set
  by (elim insertE emptyE; simp add: mkHandler_def onServer_def onRead_def onConn_def onWait_def case_prod_beta Let_def;
      (auto simp: conn_replies store_replies; fail)?)

lemma dispatch_encodable_local:
  assumes "dispatch pr ev cs argv s = Some (r, cs', s')"
    and "sv_replicated s \<Longrightarrow> \<not> cs_applying cs \<Longrightarrow> \<forall>c q u'. pr c s = (PReply q, u') \<longrightarrow> encodable q"
  shows "encodable r"
  using assms(1)
proof (cases rule: dispatch_cases)
  case refused
  then show ?thesis by (simp add: isError_encodable)
next
  case (proposed h p)
  then show ?thesis
    using assms(1) assms(2) [OF proposed(3,4)] isError_encodable by (cases p) (auto simp: dispatch_def Let_def split: if_splits)
next
  case (ran h)
  show ?thesis
  proof (cases "h_mutating h")
    case True
    then show ?thesis using mut_handler [OF ran(1) True, of ev cs s] ran(4) mutRun_encodable [of ev argv s] by (auto simp: case_prod_beta Let_def)
  next
    case False
    then show ?thesis using read_encodable [OF ran(1) _ ran(4)] by blast
  qed
qed

lemma dispatch_encodable:
  assumes "dispatch pr ev cs argv s = Some (r, cs', s')" and "\<forall>c u q u'. pr c u = (PReply q, u') \<longrightarrow> encodable q"
  shows "encodable r"
  using dispatch_encodable_local [OF assms(1)] assms(2) by blast

section \<open>Pipelining\<close>

text \<open>The conversation a list of commands leads to: each reply with the protocol it is written in.\<close>

fun converse :: "propose \<Rightarrow> (nat \<Rightarrow> env) \<Rightarrow> bytes list list \<Rightarrow> nat \<Rightarrow> connState \<Rightarrow> server \<Rightarrow> ((resp_value \<times> proto) list \<times> connState \<times> server) option" where
  "converse pr envs [] n cs s = Some ([], cs, s)"
| "converse pr envs (c # cmds) n cs s =
     (case dispatch pr (envs n) cs c s of
        None \<Rightarrow> None
      | Some (r, cs', s') \<Rightarrow> map_option (apfst ((#) (r, cs_proto cs'))) (converse pr envs cmds (n + 1) cs' s'))"

definition connStep :: "floatlib \<Rightarrow> propose \<Rightarrow> (nat \<Rightarrow> env) \<Rightarrow> (nat \<Rightarrow> bool) \<Rightarrow> bytes list \<Rightarrow> nat \<times> connState \<times> server \<times> bytes \<Rightarrow>
    (bytes \<times> connState \<times> server) option + nat \<times> connState \<times> server \<times> bytes" where
  "connStep F pr envs sent argv = (\<lambda>(n, cs, s, out).
     case dispatch pr (envs n) cs argv s of
       None \<Rightarrow> Inl None
     | Some (reply, cs', s') \<Rightarrow>
         let (b, ok) = WriteFrameProto F (cs_proto cs') reply
         in if \<not> ok \<or> \<not> sent n then Inl (Some (out, cs', s')) else Inr (n + 1, cs', s', out @ b))"

definition connEnd :: "floatlib \<Rightarrow> (nat \<Rightarrow> bool) \<Rightarrow> resp_err \<Rightarrow> nat \<times> connState \<times> server \<times> bytes \<Rightarrow> (bytes \<times> connState \<times> server) option" where
  "connEnd F sent e = (\<lambda>(n, cs, s, out).
     if e = EOF then Some (out, cs, s)
     else Some (if sent n then out @ fst (WriteFrame F (RError ''ERR Protocol error'')) else out, cs, s))"

lemma connLoop_step:
  "connLoop F pr envs sent inp x =
     (case ReadCommand F inp of
        Inl e \<Rightarrow> connEnd F sent e x
      | Inr (argv, rest) \<Rightarrow> (case connStep F pr envs sent argv x of Inl r \<Rightarrow> r | Inr x' \<Rightarrow> connLoop F pr envs sent rest x'))"
proof -
  obtain n cs s out where x: "x = (n, cs, s, out)" by (cases x)
  show ?thesis unfolding x
    by (subst connLoop.simps) (simp add: connStep_def connEnd_def case_prod_beta Let_def split: sum.split option.split)
qed

lemmas connLoop_stream = command_stream.loop_stream [OF connLoop_step]

lemma steps_converse:
  assumes "\<forall>c u q u'. pr c u = (PReply q, u') \<longrightarrow> encodable q" and "\<forall>m. sent m"
  shows "converse pr envs cmds n cs s = Some (rs, cs', s') \<Longrightarrow>
    steps (connStep F pr envs sent) cmds (n, cs, s, out) =
      Inr (n + length cmds, cs', s', out @ concat (map (\<lambda>(r, p). fst (WriteFrameProto F p r)) rs))"
proof (induction cmds arbitrary: n cs s rs out)
  case (Cons c cmds)
  obtain r cs1 s1 where d: "dispatch pr (envs n) cs c s = Some (r, cs1, s1)" using Cons.prems by (auto split: option.splits)
  obtain rs1 where rs: "rs = (r, cs_proto cs1) # rs1" "converse pr envs cmds (Suc n) cs1 s1 = Some (rs1, cs', s')"
    using Cons.prems d by auto
  have "snd (WriteFrameProto F (cs_proto cs1) r)" by (rule encodable_write(1) [OF dispatch_encodable [OF d assms(1)]])
  then have "connStep F pr envs sent c (n, cs, s, out) = Inr (Suc n, cs1, s1, out @ fst (WriteFrameProto F (cs_proto cs1) r))"
    using d assms(2) by (simp add: connStep_def case_prod_beta)
  then show ?case using Cons.IH [OF rs(2)] rs(1) by simp
qed simp

text \<open>
  Claim C8. Pipelined commands are answered one by one and in order: when the bytes of a connection are the
  encodings of some commands, followed by bytes that are no command, the peer receives the
  encodings of the replies of exactly these commands, each in the protocol in force after it (so
  that HELLO is answered in the protocol it selects), no reply fails to encode, and what follows is
  one protocol error, or nothing at a clean end of the stream. (The peer keeps reading, and no
  command blocks for ever.)\<close>

theorem pipelined_replies:
  assumes "\<forall>c \<in> set cmds. command_ok c" and "\<forall>c u q u'. pr c u = (PReply q, u') \<longrightarrow> encodable q" and "\<forall>m. sent m"
    and "converse pr envs cmds 0 (newConnState (connID + 1) (sv_requirePass s = [])) s = Some (rs, cs', s')"
    and "ReadCommand F tail = Inl e"
  shows "handleConn F pr envs sent None connID (concat (map (\<lambda>argv. fst (WriteFrame F (RArray (map RBulk argv)))) cmds) @ tail) s =
     Some (concat (map (\<lambda>(r, p). fst (WriteFrameProto F p r)) rs) @
       (if e = EOF then [] else fst (WriteFrame F (RError ''ERR Protocol error''))), s')"
proof -
  let ?x = "(0, newConnState (connID + 1) (sv_requirePass s = []), s, [])"
  have "connLoop F pr envs sent (concat (map (\<lambda>argv. fst (WriteFrame F (RArray (map RBulk argv)))) cmds) @ tail) ?x =
      connLoop F pr envs sent tail (0 + length cmds, cs', s', [] @ concat (map (\<lambda>(r, p). fst (WriteFrameProto F p r)) rs))"
    by (simp only: connLoop_stream [OF assms(1)] steps_converse [OF assms(2-4)] sum.case)
  also have "\<dots> = connEnd F sent e (length cmds, cs', s', concat (map (\<lambda>(r, p). fst (WriteFrameProto F p r)) rs))"
    by (subst connLoop_step) (simp add: assms(5))
  finally show ?thesis using assms(3) by (simp add: handleConn_def connEnd_def)
qed

theorem pipelined_replies_witness:
  "\<exists>out s'. handleConn noFloat noPropose (\<lambda>n. demoEnv 5) (\<lambda>n. True) None 0
       (concat (map (\<lambda>argv. fst (WriteFrame noFloat (RArray (map RBulk argv)))) [[''PING''], [''ECHO'', ''x'']]) @ ''?'') ((demoServer None demoWorld)\<lparr>sv_requirePass := []\<rparr>) = Some (out, s') \<and>
     out = fst (WriteFrameProto noFloat Proto2 (RString ''PONG'')) @ fst (WriteFrameProto noFloat Proto2 (RBulk ''x'')) @
       fst (WriteFrame noFloat (RError ''ERR Protocol error''))"
proof -
  let ?cmds = "[[''PING''], [''ECHO'', ''x'']]"
  have ok: "\<forall>c \<in> set ?cmds. command_ok c" by (simp add: small_command)
  have pr: "\<forall>c u q u'. noPropose c u = (PReply q, u') \<longrightarrow> encodable q" by (simp add: noPropose_def)
  let ?s = "(demoServer None demoWorld)\<lparr>sv_requirePass := []\<rparr>"
  have cv: "converse noPropose (\<lambda>n. demoEnv 5) ?cmds 0 (newConnState (0 + 1) (sv_requirePass ?s = [])) ?s =
      Some ([(RString ''PONG'', Proto2), (RBulk ''x'', Proto2)], newConnState 1 True, ?s)"
    by (simp add: dispatch_def commands_def mkHandler_def onRead_def cmdPing_def cmdEcho_def newConnState_def demoServer_def)
  have tl: "ReadCommand noFloat ''?'' = Inl ErrProtocol"
    by (simp add: ReadCommand_def ReadFrame_def MaxDepth_def numeral_eq_Suc readByte_def readKind_def)
  show ?thesis using pipelined_replies [OF ok pr _ cv tl, of "\<lambda>n. True"] by simp
qed

section \<open>Replies on the wire\<close>

text \<open>
  The states a node of a cluster can be in: a fresh state machine, to which committed entries
  are applied and from which pending replies are taken, while the server it belongs to goes
  on in any way.
\<close>

inductive nodeState :: "floatlib \<Rightarrow> propose \<Rightarrow> (nat \<Rightarrow> env) \<Rightarrow> stateMachine \<times> server \<times> nat \<Rightarrow> bool"
  for F :: floatlib and pq :: propose and envs :: "nat \<Rightarrow> env" where
  fresh: "nodeState F pq envs (NewStateMachine, s, n)"
| entry: "nodeState F pq envs x \<Longrightarrow> SM_Apply F (serverApply pq envs) e x = Some (res, y) \<Longrightarrow> nodeState F pq envs y"
| taken: "nodeState F pq envs (sm, x) \<Longrightarrow> TakeResult idx sm = (res, sm') \<Longrightarrow> nodeState F pq envs (sm', x)"
| moves: "nodeState F pq envs (sm, s, n) \<Longrightarrow> nodeState F pq envs (sm, s', n')"

text \<open>Every pending reply has an encoding: entries are applied locally, they never propose.\<close>

lemma applied_encodable: "serverApply pq envs argv x = Some (r, y) \<Longrightarrow> encodable r"
  by (auto simp: serverApply_def applyReplicated_def applyingConn_def split: option.splits prod.splits
      dest!: dispatch_encodable_local)

lemma SM_Apply_pending:
  "SM_Apply F (serverApply pq envs) e (sm, x) = Some (res, sm', y) \<Longrightarrow> \<forall>q \<in> ran (map_of (sm_results sm)). encodable q \<Longrightarrow>
   \<forall>q \<in> ran (map_of (sm_results sm')). encodable q"
  by (auto simp: SM_Apply_def ran_def AList.update_conv' split: sum.splits option.splits if_splits) (blast dest: applied_encodable)+

lemma applyLog_pending:
  "applyLog F (serverApply pq envs) es x = Some y \<Longrightarrow> \<forall>q \<in> ran (map_of (sm_results (fst x))). encodable q \<Longrightarrow>
   \<forall>q \<in> ran (map_of (sm_results (fst y))). encodable q"
proof (induction es arbitrary: x)
  case (Cons e es)
  obtain r z where a: "SM_Apply F (serverApply pq envs) e x = Some (Inr r, z)" "applyLog F (serverApply pq envs) es z = Some y"
    using Cons.prems(1) by (auto split: option.splits sum.splits)
  show ?case using Cons.IH [OF a(2)] SM_Apply_pending [of F pq envs e "fst x" "snd x" "Inr r" "fst z" "snd z"] a(1) Cons.prems(2) by simp
qed simp

lemma nodeState_pending: "nodeState F pq envs x \<Longrightarrow> \<forall>q \<in> ran (map_of (sm_results (fst x))). encodable q"
proof (induction rule: nodeState.induct)
  case (entry x e res y)
  then show ?case using SM_Apply_pending [of F pq envs e "fst x" "snd x" res "fst y" "snd y"] by simp
next
  case (taken sm x idx res sm')
  then show ?case by (auto simp: TakeResult_def ran_def AList.delete_conv' split: if_splits) blast
qed (simp_all add: NewStateMachine_def)

lemma proposed_encodable:
  assumes "raft_applies F (serverApply pq envs) rp" and "nodeState F pq envs (sm, s, n)" and "serverPropose F rp sm n c s = (PReply q, u)"
  shows "encodable q"
proof -
  obtain idx sm0 x where rp: "rp (Encode F c) (sm, s, n) = (Inr idx, sm0, x)" and q: "map_of (sm_results sm0) idx = Some q"
    using assms(3) by (auto simp: serverPropose_def Node_Propose_def TakeResult_def split: prod.splits sum.splits raft_err.splits option.splits)
  obtain es where "applyLog F (serverApply pq envs) es (sm, s, n) = Some (sm0, x)" using assms(1) rp unfolding raft_applies_def by blast
  from applyLog_pending [OF this] nodeState_pending [OF assms(2)] q show ?thesis by (auto intro: ranI)
qed

text \<open>
  Claim C27. Every reply has an encoding: whatever a peer sends, the reply of the dispatcher is a
  value of the kinds the writer knows, verbatim strings with a three-byte format, so writing it
  succeeds at both protocols and the connection is not dropped for it. This holds on a standalone
  server in every state, and on a node of a cluster in every state it can reach, where the reply
  of a write is the one that applying its entry left for it.\<close>

theorem replies_encodable:
  assumes "dispatch pr ev cs argv s = Some (r, cs', s')"
    and "sv_replicated s \<longrightarrow>
      pr = serverPropose F rp sm n \<and> raft_applies F (serverApply pq envs) rp \<and> nodeState F pq envs (sm, s, n)"
  shows "snd (WriteFrameProto F p r)"
proof -
  have "encodable q" if "sv_replicated s" "pr c s = (PReply q, u)" for c q u
    using proposed_encodable [of F pq envs rp sm s n c q u] assms(2) that by blast
  then show ?thesis using encodable_write(1) [OF dispatch_encodable_local [OF assms(1)]] by blast
qed

theorem replies_encodable_witness:
  "\<exists>r s'. dispatch (serverPropose noFloat (soloRaft noFloat (serverApply noPropose (\<lambda>n. demoEnv 5))) NewStateMachine 0) (demoEnv 5)
       (newConnState 1 True) [''PERSIST'', ''k''] ((demoServer None demoWorld)\<lparr>sv_replicated := True\<rparr>) = Some (r, newConnState 1 True, s') \<and>
     snd (WriteFrameProto noFloat Proto3 r)"
proof -
  let ?s = "(demoServer None demoWorld)\<lparr>sv_replicated := True\<rparr>"
  let ?pr = "serverPropose noFloat (soloRaft noFloat (serverApply noPropose (\<lambda>n. demoEnv 5))) NewStateMachine 0"
  have "map_of commands ''PERSIST'' = Some (mkHandler (onServer cmdPersist) 2 2 True False)" by (simp add: commands_def)
  then obtain r s' where d: "dispatch ?pr (demoEnv 5) (newConnState 1 True) [''PERSIST'', ''k''] ?s = Some (r, newConnState 1 True, s')"
    by (cases "?pr [''PERSIST'', ''k''] ?s"; cases "fst (?pr [''PERSIST'', ''k''] ?s)")
      (auto simp: dispatch_def Let_def newConnState_def mkHandler_def resolveNondeterministic_def)
  have "snd (WriteFrameProto noFloat Proto3 r)"
    using replies_encodable [OF d] solo_applies nodeState.fresh by blast
  with d show ?thesis by blast
qed

text \<open>
  Reply splitting: the name of an unknown command is copied unescaped into a simple error, so a
  command name that contains a line end makes the server send two frames for one command: the error cut at the
  line end, and whatever simple string the peer put behind it.\<close>

lemma unknown_command_splits:
  assumes "cs_authenticated cs" and "map_of commands (upperASCII (a @ CRLF @ ''+'' @ b)) = None"
  shows "\<exists>r. dispatch pr ev cs [a @ CRLF @ ''+'' @ b] s = Some (r, cs, s) \<and>
     fst (WriteFrameProto F p r) =
       fst (WriteFrameProto F p (RError (''ERR unknown command '' @ CHR 0x27 # a))) @ fst (WriteFrameProto F p (RString (b @ [CHR 0x27])))"
  using assms by (simp add: dispatch_def Let_def quoted_def writePrefixed_def wok_def)

lemma acceptLoop_delays:
  "acceptLoop es b n ds = (r, m, ds') \<Longrightarrow> b = 0 \<or> 5 * Millisecond \<le> b \<and> b \<le> Second \<Longrightarrow>
   \<forall>d \<in> set ds. 5 * Millisecond \<le> d \<and> d \<le> Second \<Longrightarrow> \<forall>d \<in> set ds'. 5 * Millisecond \<le> d \<and> d \<le> Second"
proof (induction es b n ds rule: acceptLoop.induct)
  case (3 es b n ds)
  have "5 * Millisecond \<le> nextBackoff b \<and> nextBackoff b \<le> Second"
    using "3.prems"(2) by (auto simp: nextBackoff_def Millisecond_def Second_def wrap64_def Let_def)
  then show ?case using 3 by auto
qed auto

end
