(* ===== verification/Instrument.thy ===== *)
theory Instrument
  imports Serving
begin

text \<open>
  The telemetry around a command (\<^verbatim>\<open>internal/server/instrument.go\<close>, and the gauges of \<^verbatim>\<open>metrics.go\<close>):
  \<^verbatim>\<open>observeCommand\<close> wraps the dispatcher in counters and spans. The OpenTelemetry library is not part of
  the repository; what is modelled is the sequence of calls into it.
\<close>

section \<open>instrument.go\<close>

text \<open>Whether the command reads, and whether its second argument is a key.\<close>

definition storeSpanOps :: "(string \<times> bool \<times> bool) list" where
  "storeSpanOps =
     [(''GET'', True, True), (''SET'', False, True), (''DEL'', False, True),
      (''EXISTS'', True, True), (''INCR'', False, True), (''DECR'', False, True),
      (''TYPE'', True, True), (''TTL'', True, True), (''PTTL'', True, True),
      (''EXPIRE'', False, True), (''PEXPIRE'', False, True), (''PEXPIREAT'', False, True),
      (''PERSIST'', False, True), (''RENAME'', False, True), (''RENAMENX'', False, True),
      (''COPY'', False, True), (''KEYS'', True, False), (''SCAN'', True, False),
      (''DBSIZE'', True, False), (''FLUSHDB'', False, False),
      (''LPUSH'', False, True), (''RPUSH'', False, True), (''LPOP'', False, True),
      (''RPOP'', False, True), (''LLEN'', True, True), (''LRANGE'', True, True),
      (''LINDEX'', True, True),
      (''HSET'', False, True), (''HGET'', True, True), (''HDEL'', False, True),
      (''HEXISTS'', True, True), (''HKEYS'', True, True), (''HVALS'', True, True),
      (''HLEN'', True, True), (''HGETALL'', True, True)]"

text \<open>\<open>ci_command\<close> is the label all its options carry; \<open>ci_storeSpan\<close> is empty for a command outside the keyspace.\<close>

record cmdInstr =
  ci_command :: string
  ci_storeSpan :: string
  ci_read :: bool
  ci_hasKey :: bool

definition buildInstr :: "string \<Rightarrow> cmdInstr" where
  "buildInstr name =
     (case map_of storeSpanOps name of
        None \<Rightarrow> \<lparr>ci_command = name, ci_storeSpan = [], ci_read = False, ci_hasKey = False\<rparr>
      | Some (read, hasKey) \<Rightarrow>
          \<lparr>ci_command = name, ci_storeSpan = ''store.'' @ lowerASCII name, ci_read = read, ci_hasKey = hasKey\<rparr>)"

definition newCmdInstruments :: "(string \<times> cmdInstr) list" where
  "newCmdInstruments = map (\<lambda>name. (name, buildInstr name)) (map fst commands @ [''UNKNOWN''])"

text \<open>Calls into the telemetry library: instruments with their labels, and spans.\<close>

datatype telEvent =
    MInflight string int
  | MDuration string
  | MErrors string string
  | MCommands string string
  | SStart string "(string \<times> string) list"
  | SAttr string string string
  | SStatus string string
  | SEnd string

definition replyKindName :: "resp_value \<Rightarrow> string" where
  "replyKindName v =
     (case v of
        RString _ \<Rightarrow> ''simple'' | RError _ \<Rightarrow> ''error'' | RInt _ \<Rightarrow> ''integer'' | RBulk _ \<Rightarrow> ''bulk'' | RNullBulk \<Rightarrow> ''bulk''
      | RArray _ \<Rightarrow> ''array'' | RNullArray \<Rightarrow> ''array'' | RMap _ \<Rightarrow> ''map'' | RSet _ \<Rightarrow> ''set'' | RNull \<Rightarrow> ''null''
      | RDouble _ \<Rightarrow> ''double'' | RBoolean _ \<Rightarrow> ''boolean'' | RVerbatim _ _ \<Rightarrow> ''verbatim'' | RPush _ \<Rightarrow> ''push'' | RUnknown _ \<Rightarrow> ''other'')"

definition commandLabel :: "bytes list \<Rightarrow> string" where
  "commandLabel argv =
     (if argv = [] then ''UNKNOWN''
      else let name = upperASCII (argv ! 0) in if map_of commands name \<noteq> None then name else ''UNKNOWN'')"

definition contains :: "string \<Rightarrow> string \<Rightarrow> bool" where
  "contains p s = list_ex (\<lambda>i. hasPrefix p (drop i s)) [0..<length s + 1]"

definition errorKind :: "string \<Rightarrow> string" where
  "errorKind msg =
     (if hasPrefix ''WRONGTYPE'' msg then ''wrongtype''
      else if hasPrefix ''NOAUTH'' msg then ''noauth''
      else if hasPrefix ''NOPROTO'' msg then ''noproto''
      else let low = lowerASCII msg
           in if contains ''wrong number of arguments'' low then ''arity''
              else if contains ''unknown command'' low then ''unknown''
              else if contains ''not an integer'' low then ''notinteger''
              else if contains ''overflow'' low then ''overflow''
              else if contains ''bad pattern'' low then ''badpattern''
              else if contains ''invalid cursor'' low then ''invalid_cursor''
              else if contains ''syntax error'' low then ''syntax''
              else if contains ''protocol error'' low then ''protocol''
              else if contains ''no such key'' low then ''nosuchkey''
              else ''other'')"

text \<open>\<open>hashKey\<close> is \<^const>\<open>None\<close> unless key capture is on; it then is the salted digest.\<close>

definition startStoreSpan :: "(string \<Rightarrow> string) option \<Rightarrow> cmdInstr \<Rightarrow> bytes list \<Rightarrow> telEvent list" where
  "startStoreSpan hashKey ci argv =
     (if ci_storeSpan ci = [] then []
      else SStart (ci_storeSpan ci) [] #
           (case hashKey of
              Some h \<Rightarrow> if ci_hasKey ci \<and> length argv \<ge> 2 then [SAttr (ci_storeSpan ci) ''key.hash'' (h (argv ! 1))] else []
            | None \<Rightarrow> []))"

definition finishStoreSpan :: "cmdInstr \<Rightarrow> resp_value \<Rightarrow> telEvent list" where
  "finishStoreSpan ci reply =
     (if ci_storeSpan ci = [] then []
      else (if ci_read ci
            then (case reply of
                    RBulk _ \<Rightarrow> [SAttr (ci_storeSpan ci) ''hit'' ''true'']
                  | RNullBulk \<Rightarrow> [SAttr (ci_storeSpan ci) ''hit'' ''false'']
                  | RNull \<Rightarrow> [SAttr (ci_storeSpan ci) ''hit'' ''false'']
                  | _ \<Rightarrow> [])
            else []) @
           (case reply of
              RError str \<Rightarrow> if hasPrefix ''WRONGTYPE'' str then [SStatus (ci_storeSpan ci) str] else []
            | _ \<Rightarrow> []) @
           [SEnd (ci_storeSpan ci)])"

text \<open>
  \<open>ObsPanic\<close>: the label is not in the table of precomputed instruments, a nil dereference; \<open>ObsBlocked\<close>: the
  command does not return.
\<close>

datatype observed = ObsPanic | ObsBlocked | Observed resp_value connState server "telEvent list"

definition observeCommand :: "(string \<Rightarrow> string) option \<Rightarrow> propose \<Rightarrow> env \<Rightarrow> connState \<Rightarrow> bytes list \<Rightarrow> server \<Rightarrow> observed" where
  "observeCommand hashKey pr ev cs argv s =
     (case map_of newCmdInstruments (commandLabel argv) of
        None \<Rightarrow> ObsPanic
      | Some ci \<Rightarrow>
          (case dispatch pr ev cs argv s of
             None \<Rightarrow> ObsBlocked
           | Some (reply, cs', s') \<Rightarrow>
               Observed reply cs' s'
                 ([SStart ''command'' [(''db.system'', ''toykv''), (''db.operation'', ci_command ci)], MInflight (ci_command ci) 1] @
                  startStoreSpan hashKey ci argv @ finishStoreSpan ci reply @
                  [MInflight (ci_command ci) (- 1), MDuration (ci_command ci),
                   SAttr ''command'' ''argc'' (formatNat (length argv)),
                   SAttr ''command'' ''resp.proto'' (if cs_proto cs' = Proto3 then ''3'' else ''2''),
                   SAttr ''command'' ''authenticated'' (if cs_authenticated cs' then ''true'' else ''false''),
                   SAttr ''command'' ''reply.kind'' (replyKindName reply)] @
                  (case reply of
                     RError str \<Rightarrow>
                       [MErrors (ci_command ci) (errorKind str), SAttr ''command'' ''error.kind'' (errorKind str), SStatus ''command'' str,
                        MCommands (ci_command ci) ''error'']
                   | _ \<Rightarrow> [MCommands (ci_command ci) ''ok'']) @
                  [SEnd ''command''])))"

section \<open>metrics.go\<close>

text \<open>
  What a collection reads from the server; \<open>seconds\<close> is \<^verbatim>\<open>int64(d.Seconds())\<close>. An observation is a gauge, its label and
  its value.
\<close>

definition observableGauges :: "(int \<Rightarrow> int) \<Rightarrow> env \<Rightarrow> server \<Rightarrow> (string \<times> string \<times> int) list" where
  "observableGauges seconds ev s =
     [(''toykv.keys'', [], int (Store_DBSize (sv_store s)))] @
     (case (sv_aof s, ev_aofSize ev) of (Some _, Some sz) \<Rightarrow> [(''toykv.aof.size'', [], sz)] | _ \<Rightarrow> []) @
     [(''toykv.aof.rewrite.in_progress'', [], if sv_rewriteInFlight s then 1 else 0),
      (''toykv.uptime'', [], seconds (timeSub (ev_now ev) (sv_startTime s))),
      (''toykv.build.info'', serverVersion, 1)] @
     (if sv_replicated s
      then (''toykv.raft.is_leader'', [], if cst_leader (ev_cluster ev) then 1 else 0) #
           map (\<lambda>(peerID, matchIdx). (''toykv.raft.replication_lag'', peerID, max (int (cst_commit (ev_cluster ev)) - int matchIdx) 0))
             (cst_match (ev_cluster ev))
      else [])"

section \<open>Bounded labels\<close>

text \<open>The labels an instrument may carry: they do not depend on any input.\<close>

definition metricLabels :: "string set" where
  "metricLabels = set (map fst commands) \<union> {''UNKNOWN''}"

definition errorKinds :: "string set" where
  "errorKinds = {''wrongtype'', ''noauth'', ''noproto'', ''arity'', ''unknown'', ''notinteger'', ''overflow'', ''badpattern'',
     ''invalid_cursor'', ''syntax'', ''protocol'', ''nosuchkey'', ''other''}"

fun metric_ok :: "telEvent \<Rightarrow> bool" where
  "metric_ok (MInflight c d) = (c \<in> metricLabels)"
| "metric_ok (MDuration c) = (c \<in> metricLabels)"
| "metric_ok (MErrors c k) = (c \<in> metricLabels \<and> k \<in> errorKinds)"
| "metric_ok (MCommands c st) = (c \<in> metricLabels \<and> st \<in> {''ok'', ''error''})"
| "metric_ok _ = True"

lemma errorKind_bounded: "errorKind msg \<in> errorKinds"
  by (simp add: errorKind_def errorKinds_def Let_def)

lemma buildInstr_name [simp]: "ci_command (buildInstr name) = name"
  by (simp add: buildInstr_def split: option.splits prod.splits)

lemma instr_found:
  "\<exists>ci. map_of newCmdInstruments (commandLabel argv) = Some ci \<and> ci_command ci = commandLabel argv \<and> commandLabel argv \<in> metricLabels"
proof -
  have m: "commandLabel argv \<in> metricLabels"
    by (auto simp: commandLabel_def metricLabels_def Let_def dest: map_of_SomeD intro: rev_image_eqI)
  have "map_of (map (\<lambda>n. (n, buildInstr n)) ns) x = (if x \<in> set ns then Some (buildInstr x) else None)" for ns x
    by (induction ns) auto
  then have "map_of newCmdInstruments (commandLabel argv) = Some (buildInstr (commandLabel argv))"
    using m by (simp only: newCmdInstruments_def) (simp add: metricLabels_def)
  then show ?thesis using m by simp
qed

text \<open>The balance of the in-flight counter over a sequence of calls.\<close>

fun inflight :: "telEvent list \<Rightarrow> int" where
  "inflight [] = 0"
| "inflight (MInflight c d # es) = d + inflight es"
| "inflight (_ # es) = inflight es"

lemma inflight_append: "inflight (xs @ ys) = inflight xs + inflight ys"
  by (induction xs rule: inflight.induct) simp_all

lemma span_events:
  "inflight (startStoreSpan h ci argv) = 0" "inflight (finishStoreSpan ci reply) = 0"
  "list_all metric_ok (startStoreSpan h ci argv)" "list_all metric_ok (finishStoreSpan ci reply)"
  by (auto simp: startStoreSpan_def finishStoreSpan_def split: option.splits resp_value.splits)

fun isCount :: "telEvent \<Rightarrow> bool" where
  "isCount (MCommands c st) = True"
| "isCount _ = False"

lemma span_counts: "filter isCount (startStoreSpan h ci argv) = []" "filter isCount (finishStoreSpan ci reply) = []"
  by (auto simp: startStoreSpan_def finishStoreSpan_def split: option.splits resp_value.splits)

text \<open>
  Claim C30. Telemetry does not interfere and stays bounded: around any command, with any reply, the
  wrapper finds its precomputed instruments (no nil dereference), returns exactly what the
  dispatcher returns in the states it leaves, leaves the in-flight counter balanced, counts the
  command once, and labels every metric from a set fixed by the command table, whatever bytes the
  peer sent.\<close>

theorem telemetry_bounded:
  "finite metricLabels \<and> finite errorKinds \<and>
   (case observeCommand hashKey pr ev cs argv s of
      ObsPanic \<Rightarrow> False
    | ObsBlocked \<Rightarrow> dispatch pr ev cs argv s = None
    | Observed reply cs' s' es \<Rightarrow>
        dispatch pr ev cs argv s = Some (reply, cs', s') \<and> list_all metric_ok es \<and> inflight es = 0 \<and>
        filter isCount es = [MCommands (commandLabel argv) (if isError reply then ''error'' else ''ok'')])"
proof -
  obtain ci where ci: "map_of newCmdInstruments (commandLabel argv) = Some ci" "ci_command ci = commandLabel argv" "commandLabel argv \<in> metricLabels"
    using instr_found by blast
  show ?thesis
    using ci(2,3) errorKind_bounded
    by (auto simp: observeCommand_def ci(1) metricLabels_def errorKinds_def inflight_append span_events span_counts isError_def
        split: option.splits resp_value.splits)
qed

end
