(* ===== verification/Telemetry.thy ===== *)
theory Telemetry
  imports Instrument
begin

text \<open>
  The set-up of telemetry (\<^verbatim>\<open>internal/telemetry\<close>): which exporters and instruments are made, what is installed
  as a global, what is shut down, the digest of captured keys, and the log handler that copies
  records to the collector. The OpenTelemetry library is a parameter: each of its constructors returns an
  error or nothing, and the calls into it are collected in order.
\<close>

section \<open>metrics.go\<close>

datatype instrKind = KCounter | KUpDown | KHistogram

record instrument =
  it_Kind :: instrKind
  it_Name :: string
  it_Unit :: string
  it_Desc :: string

definition instr :: "instrKind \<Rightarrow> string \<Rightarrow> string \<Rightarrow> string \<Rightarrow> instrument" where
  "instr k n u d = \<lparr>it_Kind = k, it_Name = n, it_Unit = u, it_Desc = d\<rparr>"

text \<open>The fields of \<^verbatim>\<open>Metrics\<close> in their order.\<close>

definition metricsTable :: "instrument list" where
  "metricsTable =
     [
      instr KCounter ''toykv.commands'' '''' ''Total commands dispatched, by command and status.'',
      instr KHistogram ''toykv.command.duration'' ''s'' (''Command dispatch latency (enter'' @ [CHR 0xE2, CHR 0x86, CHR 0x92] @ ''reply).''),
      instr KCounter ''toykv.command.errors'' '''' ''Commands that produced an error reply, by command and error kind.'',
      instr KUpDown ''toykv.commands.inflight'' '''' ''Commands currently executing.'',
      instr KCounter ''toykv.connections'' '''' ''Total connections accepted.'',
      instr KUpDown ''toykv.connections.active'' '''' ''Connections currently being served.'',
      instr KHistogram ''toykv.connection.duration'' ''s'' (''Connection lifetime (accept'' @ [CHR 0xE2, CHR 0x86, CHR 0x92] @ ''close).''),
      instr KCounter ''toykv.connections.rejected'' '''' ''Connections rejected before serving, by reason.'',
      instr KCounter ''toykv.protocol.errors'' '''' ''RESP protocol / framing errors that dropped a connection.'',
      instr KCounter ''toykv.auth.attempts'' '''' ''AUTH attempts, by result.'',
      instr KCounter ''toykv.tls.handshakes'' '''' ''TLS handshakes, by result.'',
      instr KUpDown ''toykv.clients.by_protocol'' '''' ''Connected clients by negotiated wire protocol.'',
      instr KCounter ''toykv.keyspace.hits'' '''' ''Read commands that found a live key.'',
      instr KCounter ''toykv.keyspace.misses'' '''' ''Read commands that found no live key (absent or expired).'',
      instr KCounter ''toykv.keys.expired'' '''' ''Keys evicted due to expiry, by path (lazy|sweeper).'',
      instr KCounter ''toykv.sweeper.passes'' '''' ''TTL sweeper tick passes.'',
      instr KCounter ''toykv.sweeper.sampled'' '''' ''Keys sampled by the TTL sweeper.'',
      instr KCounter ''toykv.sweeper.evicted'' '''' ''Keys evicted by the TTL sweeper.'',
      instr KHistogram ''toykv.sweeper.duration'' ''s'' ''TTL sweeper tick wall time.'',
      instr KCounter ''toykv.aof.appends'' '''' ''AOF records appended.'',
      instr KCounter ''toykv.aof.append.bytes'' '''' ''Bytes appended to the AOF.'',
      instr KCounter ''toykv.aof.fsyncs'' '''' ''AOF fsyncs, by policy.'',
      instr KHistogram ''toykv.aof.fsync.duration'' ''s'' (''AOF fsync latency, by policy '' @ [CHR 0xE2, CHR 0x80, CHR 0x94] @ '' the durability-latency signal.''),
      instr KCounter ''toykv.aof.append.errors'' '''' (''AOF append failures '' @ [CHR 0xE2, CHR 0x80, CHR 0x94] @ '' a durability breach.''),
      instr KCounter ''toykv.aof.rewrites'' '''' ''BGREWRITEAOF completions, by result.'',
      instr KHistogram ''toykv.aof.rewrite.duration'' ''s'' (''BGREWRITEAOF wall time (start'' @ [CHR 0xE2, CHR 0x86, CHR 0x92] @ ''finalize).''),
      instr KCounter ''toykv.aof.replay.records'' '''' ''Records applied during startup AOF replay.'',
      instr KCounter ''toykv.aof.replay.bytes'' '''' ''Bytes read during startup AOF replay.'',
      instr KHistogram ''toykv.aof.replay.duration'' ''s'' ''Startup AOF replay wall time.''
     ]"

text \<open>The builder keeps a handle even when the meter returns an error, and collects the errors.\<close>

definition builder_add :: "(instrument \<Rightarrow> string option) \<Rightarrow> instrument \<Rightarrow> instrument list \<times> string list \<Rightarrow> instrument list \<times> string list" where
  "builder_add meter it = (\<lambda>(mx, errs). (mx @ [it], case meter it of None \<Rightarrow> errs | Some e \<Rightarrow> errs @ [e]))"

definition newMetrics :: "(instrument \<Rightarrow> string option) \<Rightarrow> instrument list \<times> string list" where
  "newMetrics meter = fold (builder_add meter) metricsTable ([], [])"

definition noopMeter :: "instrument \<Rightarrow> string option" where
  "noopMeter it = None"

definition NoopMetrics :: "instrument list" where
  "NoopMetrics = fst (newMetrics noopMeter)"

section \<open>exporter.go\<close>

datatype transport = Grpc | Http

datatype signal = Traces | Metrics | Logs

datatype 'f sampler = AlwaysSample | NeverSample | TraceIDRatioBased 'f

text \<open>\<open>ge1\<close> and \<open>le0\<close> are the float comparisons with 1 and 0, both false for a NaN; the sampler is parent based.\<close>

definition newSampler :: "('f \<Rightarrow> bool) \<Rightarrow> ('f \<Rightarrow> bool) \<Rightarrow> 'f \<Rightarrow> 'f sampler" where
  "newSampler ge1 le0 ratio = (if ge1 ratio then AlwaysSample else if le0 ratio then NeverSample else TraceIDRatioBased ratio)"

definition normalizeProtocol :: "string \<Rightarrow> string" where
  "normalizeProtocol p = (if p = [] then ''grpc'' else lowerASCII p)"

text \<open>\<^verbatim>\<open>strings.TrimSuffix\<close> with a slash.\<close>

definition trimSlash :: "string \<Rightarrow> string" where
  "trimSlash s = (if s \<noteq> [] \<and> last s = CHR ''/'' then butlast s else s)"

definition hostPort :: "string \<Rightarrow> string" where
  "hostPort endpoint =
     (let i = indexOf endpoint ''://''
      in trimSlash (if i \<ge> 0 then drop (nat i + 3) endpoint else endpoint))"

record 'f telConfig =
  tc_Endpoint :: string
  tc_Protocol :: string
  tc_ServiceName :: string
  tc_Version :: string
  tc_Sampling :: 'f
  tc_CaptureKeys :: bool

text \<open>What the library returns: an error, or nothing.\<close>

record 'f otelLib =
  ol_resource :: "string \<Rightarrow> string \<Rightarrow> string option"
  ol_exporter :: "signal \<Rightarrow> transport \<Rightarrow> string \<Rightarrow> string option"
  ol_runtime :: "string option"
  ol_meter :: "instrument \<Rightarrow> string option"
  ol_ge1 :: "'f \<Rightarrow> bool"
  ol_le0 :: "'f \<Rightarrow> bool"

datatype 'f otelCall =
    CallErrorHandler
  | CallExporter signal transport string
  | CallTracer "'f sampler"
  | CallSetProvider signal bool
  | CallRuntime

datatype exp_err = ExpUnknownProtocol string | ExpFailed string

datatype tel_err = TelResource string | TelExporter signal exp_err | TelRuntime string | TelInstruments "string list"

text \<open>The three exporter constructors differ in the package they call only.\<close>

definition newExporter :: "'f otelLib \<Rightarrow> signal \<Rightarrow> 'f telConfig \<Rightarrow> exp_err option \<times> 'f otelCall list" where
  "newExporter lib sg cfg =
     (let p = normalizeProtocol (tc_Protocol cfg); hp = hostPort (tc_Endpoint cfg)
      in if p = ''http'' then (map_option ExpFailed (ol_exporter lib sg Http hp), [CallExporter sg Http hp])
         else if p = ''grpc'' then (map_option ExpFailed (ol_exporter lib sg Grpc hp), [CallExporter sg Grpc hp])
         else (Some (ExpUnknownProtocol (tc_Protocol cfg)), []))"

definition newTraceExporter :: "'f otelLib \<Rightarrow> 'f telConfig \<Rightarrow> exp_err option \<times> 'f otelCall list" where
  "newTraceExporter lib cfg = newExporter lib Traces cfg"

definition newMetricExporter :: "'f otelLib \<Rightarrow> 'f telConfig \<Rightarrow> exp_err option \<times> 'f otelCall list" where
  "newMetricExporter lib cfg = newExporter lib Metrics cfg"

definition newLogExporter :: "'f otelLib \<Rightarrow> 'f telConfig \<Rightarrow> exp_err option \<times> 'f otelCall list" where
  "newLogExporter lib cfg = newExporter lib Logs cfg"

record providers =
  pv_Enabled :: bool
  pv_Metrics :: "instrument list"
  pv_CaptureKeys :: bool
  pv_keySalt :: bytes
  pv_shutdownFns :: "signal list"

text \<open>\<open>salt\<close> is what \<^verbatim>\<open>newKeySalt\<close> drew. Each step returns early on an error; the providers made before it stay installed.\<close>

definition initEnabled :: "'f otelLib \<Rightarrow> bytes \<Rightarrow> 'f telConfig \<Rightarrow> (tel_err + providers) \<times> 'f otelCall list" where
  "initEnabled lib salt cfg =
     (let c0 = [CallErrorHandler]
      in case ol_resource lib (tc_ServiceName cfg) (tc_Version cfg) of
           Some e \<Rightarrow> (Inl (TelResource e), c0)
         | None \<Rightarrow>
     (case newTraceExporter lib cfg of
        (Some e, x) \<Rightarrow> (Inl (TelExporter Traces e), c0 @ x)
      | (None, x) \<Rightarrow>
     (let c1 = c0 @ x @ [CallTracer (newSampler (ol_ge1 lib) (ol_le0 lib) (tc_Sampling cfg)), CallSetProvider Traces True]
      in case newMetricExporter lib cfg of
           (Some e, y) \<Rightarrow> (Inl (TelExporter Metrics e), c1 @ y)
         | (None, y) \<Rightarrow>
     (let c2 = c1 @ y @ [CallSetProvider Metrics True]
      in case newLogExporter lib cfg of
           (Some e, z) \<Rightarrow> (Inl (TelExporter Logs e), c2 @ z)
         | (None, z) \<Rightarrow>
     (let c3 = c2 @ z @ [CallSetProvider Logs True, CallRuntime]
      in case ol_runtime lib of
           Some e \<Rightarrow> (Inl (TelRuntime e), c3)
         | None \<Rightarrow>
     (case newMetrics (ol_meter lib) of
        (mx, errs) \<Rightarrow>
          if errs \<noteq> [] then (Inl (TelInstruments errs), c3)
          else (Inr \<lparr>pv_Enabled = True, pv_Metrics = mx, pv_CaptureKeys = tc_CaptureKeys cfg, pv_keySalt = salt,
                     pv_shutdownFns = [Traces, Metrics, Logs]\<rparr>, c3)))))))"

section \<open>telemetry.go\<close>

definition newDisabled :: "bytes \<Rightarrow> 'f telConfig \<Rightarrow> providers \<times> 'f otelCall list" where
  "newDisabled salt cfg =
     (\<lparr>pv_Enabled = False, pv_Metrics = fst (newMetrics noopMeter), pv_CaptureKeys = tc_CaptureKeys cfg, pv_keySalt = salt, pv_shutdownFns = []\<rparr>,
      [CallSetProvider Traces False, CallSetProvider Metrics False, CallSetProvider Logs False])"

definition Disabled :: "bytes \<Rightarrow> providers" where
  "Disabled salt =
     \<lparr>pv_Enabled = False, pv_Metrics = fst (newMetrics noopMeter), pv_CaptureKeys = False, pv_keySalt = salt, pv_shutdownFns = []\<rparr>"

definition Init :: "'f otelLib \<Rightarrow> bytes \<Rightarrow> 'f telConfig \<Rightarrow> (tel_err + providers) \<times> 'f otelCall list" where
  "Init lib salt cfg = (if tc_Endpoint cfg = [] then apfst Inr (newDisabled salt cfg) else initEnabled lib salt cfg)"

text \<open>Shutdown calls every function and returns the first error.\<close>

fun shutdownLoop :: "(signal \<Rightarrow> string option) \<Rightarrow> signal list \<Rightarrow> string option \<Rightarrow> string option" where
  "shutdownLoop stop [] firstErr = firstErr"
| "shutdownLoop stop (fn # fns) firstErr = shutdownLoop stop fns (if stop fn \<noteq> None \<and> firstErr = None then stop fn else firstErr)"

definition Shutdown :: "(signal \<Rightarrow> string option) \<Rightarrow> providers \<Rightarrow> string option \<times> signal list" where
  "Shutdown stop p = (shutdownLoop stop (pv_shutdownFns p) None, pv_shutdownFns p)"

text \<open>\<^verbatim>\<open>hex.EncodeToString\<close>. \<open>sha256\<close> is a parameter whose digests have 32 bytes.\<close>

definition hexDigit :: "nat \<Rightarrow> char" where
  "hexDigit n = (''0123456789abcdef'' ! n)"

definition hexEncode :: "bytes \<Rightarrow> string" where
  "hexEncode bs = concat (map (\<lambda>b. [hexDigit (of_char b div 16), hexDigit (of_char b mod 16)]) bs)"

definition HashKey :: "(bytes \<Rightarrow> bytes) \<Rightarrow> providers \<Rightarrow> string \<Rightarrow> string" where
  "HashKey sha256 p key = take 16 (hexEncode (sha256 (pv_keySalt p @ key)))"

text \<open>What the span of a command may show of its key.\<close>

definition keyCapture :: "(bytes \<Rightarrow> bytes) \<Rightarrow> providers \<Rightarrow> (string \<Rightarrow> string) option" where
  "keyCapture sha256 p = (if pv_CaptureKeys p then Some (HashKey sha256 p) else None)"

section \<open>slog.go\<close>

text \<open>\<open>enabled\<close> and \<open>handle\<close> are the methods of the wrapped handlers, over a state that holds what they have written; a record has a level.\<close>

datatype 'h slogHandler = Direct 'h | Fanout "'h list"

definition NewSlogHandler :: "'h \<Rightarrow> 'h \<Rightarrow> providers option \<Rightarrow> 'h slogHandler" where
  "NewSlogHandler base otel p =
     (case p of None \<Rightarrow> Direct base | Some p \<Rightarrow> if \<not> pv_Enabled p then Direct base else Fanout [base, otel])"

definition slogEnabled :: "('h \<Rightarrow> int \<Rightarrow> bool) \<Rightarrow> 'h slogHandler \<Rightarrow> int \<Rightarrow> bool" where
  "slogEnabled enabled h level = (case h of Direct b \<Rightarrow> enabled b level | Fanout hs \<Rightarrow> list_ex (\<lambda>b. enabled b level) hs)"

definition slogHandle :: "('h \<Rightarrow> int \<Rightarrow> bool) \<Rightarrow> ('h \<Rightarrow> int \<times> 'r \<Rightarrow> 'w \<Rightarrow> 'w) \<Rightarrow> 'h slogHandler \<Rightarrow> int \<times> 'r \<Rightarrow> 'w \<Rightarrow> 'w" where
  "slogHandle enabled handle h r w =
     (case h of
        Direct b \<Rightarrow> handle b r w
      | Fanout hs \<Rightarrow> fold (\<lambda>b w. if enabled b (fst r) then handle b r w else w) hs w)"

definition slogWith :: "('h \<Rightarrow> 'h) \<Rightarrow> 'h slogHandler \<Rightarrow> 'h slogHandler" where
  "slogWith f h = (case h of Direct b \<Rightarrow> Direct (f b) | Fanout hs \<Rightarrow> Fanout (map f hs))"

text \<open>\<^verbatim>\<open>slog.Logger\<close>: a record goes to the handler when its level is enabled.\<close>

definition slogEmit :: "('h \<Rightarrow> int \<Rightarrow> bool) \<Rightarrow> ('h \<Rightarrow> int \<times> 'r \<Rightarrow> 'w \<Rightarrow> 'w) \<Rightarrow> 'h slogHandler \<Rightarrow> int \<times> 'r \<Rightarrow> 'w \<Rightarrow> 'w" where
  "slogEmit enabled handle h r w = (if slogEnabled enabled h (fst r) then slogHandle enabled handle h r w else w)"

section \<open>Properties\<close>

lemma builder_fold:
  "fold (builder_add meter) its (mx, errs) = (mx @ its, errs @ List.map_filter meter its)"
  by (induction its arbitrary: mx errs) (auto simp: builder_add_def List.map_filter_simps split: option.splits)

lemma newMetrics_eq: "newMetrics meter = (metricsTable, List.map_filter meter metricsTable)"
  by (simp add: newMetrics_def builder_fold)

lemma map_filter_Nil: "List.map_filter f xs = [] \<longleftrightarrow> (\<forall>x \<in> set xs. f x = None)"
  by (induction xs) (auto simp: List.map_filter_simps split: option.splits)

text \<open>No two instruments share a name, and every histogram is in seconds.\<close>

lemma metric_names_distinct: "distinct (map it_Name metricsTable)"
  by (simp add: metricsTable_def instr_def)

lemma histograms_in_seconds: "\<forall>it \<in> set metricsTable. it_Unit it = (if it_Kind it = KHistogram then ''s'' else [])"
  by (simp add: metricsTable_def instr_def)

lemma shutdownLoop_first: "shutdownLoop stop fns e = (if e \<noteq> None then e else case find (\<lambda>fn. stop fn \<noteq> None) fns of None \<Rightarrow> None | Some fn \<Rightarrow> stop fn)"
  by (induction fns arbitrary: e) auto

text \<open>
  Starting telemetry: without an endpoint it cannot fail and installs no-ops only; with one it succeeds
  exactly when the protocol is known and the library accepts everything, then with three
  providers to shut down; an unknown protocol is refused before any exporter is made.
\<close>

definition known_protocol :: "string \<Rightarrow> bool" where
  "known_protocol p \<longleftrightarrow> normalizeProtocol p \<in> {''grpc'', ''http''}"

definition transportOf :: "string \<Rightarrow> transport" where
  "transportOf p = (if normalizeProtocol p = ''http'' then Http else Grpc)"

lemma newExporter_known:
  "known_protocol (tc_Protocol cfg) \<Longrightarrow> newExporter lib sg cfg =
     (map_option ExpFailed (ol_exporter lib sg (transportOf (tc_Protocol cfg)) (hostPort (tc_Endpoint cfg))),
      [CallExporter sg (transportOf (tc_Protocol cfg)) (hostPort (tc_Endpoint cfg))])"
  by (auto simp: newExporter_def known_protocol_def transportOf_def Let_def)

lemma newExporter_unknown: "\<not> known_protocol (tc_Protocol cfg) \<Longrightarrow> newExporter lib sg cfg = (Some (ExpUnknownProtocol (tc_Protocol cfg)), [])"
  by (simp add: newExporter_def known_protocol_def Let_def)

lemmas exporter_defs = newTraceExporter_def newMetricExporter_def newLogExporter_def

lemma telemetry_off: "tc_Endpoint cfg = [] \<Longrightarrow> Init lib salt cfg = apfst Inr (newDisabled salt cfg)"
  by (simp add: Init_def)

lemma telemetry_refused:
  assumes "tc_Endpoint cfg \<noteq> []" and "\<not> known_protocol (tc_Protocol cfg)"
  shows "\<exists>e. Init lib salt cfg = (Inl e, [CallErrorHandler])"
  using assms by (auto simp: Init_def initEnabled_def exporter_defs newExporter_unknown Let_def split: option.split)

lemma telemetry_on:
  assumes "tc_Endpoint cfg \<noteq> []" and "known_protocol (tc_Protocol cfg)"
  shows "(\<exists>p c. Init lib salt cfg = (Inr p, c)) \<longleftrightarrow>
    ol_resource lib (tc_ServiceName cfg) (tc_Version cfg) = None \<and>
    (\<forall>sg. ol_exporter lib sg (transportOf (tc_Protocol cfg)) (hostPort (tc_Endpoint cfg)) = None) \<and>
    ol_runtime lib = None \<and> (\<forall>it \<in> set metricsTable. ol_meter lib it = None)"
proof -
  let ?x = "\<lambda>sg. ol_exporter lib sg (transportOf (tc_Protocol cfg)) (hostPort (tc_Endpoint cfg))"
  have sg: "(\<forall>sg. ?x sg = None) \<longleftrightarrow> ?x Traces = None \<and> ?x Metrics = None \<and> ?x Logs = None" by (metis signal.exhaust)
  show ?thesis unfolding sg map_filter_Nil [symmetric] using assms
    by (cases "ol_resource lib (tc_ServiceName cfg) (tc_Version cfg)"; cases "?x Traces"; cases "?x Metrics"; cases "?x Logs"; cases "ol_runtime lib")
      (simp_all add: Init_def initEnabled_def exporter_defs newExporter_known newMetrics_eq Let_def)
qed

lemma initEnabled_ok:
  "fst (initEnabled lib salt cfg) = Inr p \<Longrightarrow>
     p = \<lparr>pv_Enabled = True, pv_Metrics = metricsTable, pv_CaptureKeys = tc_CaptureKeys cfg, pv_keySalt = salt, pv_shutdownFns = [Traces, Metrics, Logs]\<rparr>"
  unfolding initEnabled_def newMetrics_eq Let_def by (simp split: option.splits prod.splits if_splits)

lemma telemetry_providers:
  assumes "Init lib salt cfg = (Inr p, c)"
  shows "pv_Metrics p = metricsTable" and "pv_Enabled p \<longleftrightarrow> tc_Endpoint cfg \<noteq> []" and "pv_CaptureKeys p = tc_CaptureKeys cfg"
    and "pv_shutdownFns p = (if tc_Endpoint cfg = [] then [] else [Traces, Metrics, Logs])"
  using assms initEnabled_ok [of lib salt cfg p] by (auto simp: Init_def newDisabled_def newMetrics_eq split: if_splits)

text \<open>What is installed is what is shut down.\<close>

lemma init_installs: "fst (Init lib salt cfg) = Inr p \<Longrightarrow> [sg. CallSetProvider sg True \<leftarrow> snd (Init lib salt cfg)] = pv_shutdownFns p"
  by (auto simp: Init_def newDisabled_def initEnabled_def exporter_defs newExporter_def Let_def split: if_splits option.splits prod.splits)

text \<open>The console output is the same with and without telemetry (\<open>console\<close> reads it off the state), as long as the collector's handler does not write to it.\<close>

lemma console_unchanged:
  assumes "\<And>r w. console (handle otel r w) = console w"
  shows "console (slogEmit enabled handle (NewSlogHandler base otel p) r w) = console (slogEmit enabled handle (Direct base) r w)"
  using assms by (auto simp: NewSlogHandler_def slogEmit_def slogEnabled_def slogHandle_def split: option.split)

lemma hexEncode_length: "length (hexEncode bs) = 2 * length bs"
  by (induction bs) (simp_all add: hexEncode_def)

lemma HashKey_length: "(\<And>b. length (sha256 b) = 32) \<Longrightarrow> length (HashKey sha256 p key) = 16"
  by (simp add: HashKey_def hexEncode_length)

text \<open>What telemetry sees of a reply: its kind, whether it is null, and the text of an error.\<close>

definition shownReply :: "resp_value \<Rightarrow> string \<times> bool \<times> string option" where
  "shownReply v = (replyKindName v, v \<in> {RNullBulk, RNull}, case v of RError t \<Rightarrow> Some t | _ \<Rightarrow> None)"

lemma shownReply_eq:
  assumes "shownReply v' = shownReply v"
  shows "finishStoreSpan ci v' = finishStoreSpan ci v" and "replyKindName v' = replyKindName v"
    and "(case v' of RError t \<Rightarrow> f t | _ \<Rightarrow> d) = (case v of RError t \<Rightarrow> f t | _ \<Rightarrow> d)"
  using assms by (cases v; cases v'; auto simp: shownReply_def finishStoreSpan_def replyKindName_def)+

text \<open>
  The calls \<^verbatim>\<open>observeCommand\<close> itself makes around \<^verbatim>\<open>dispatch\<close> do not depend on the data: two runs of commands with the same label,
  the same number of arguments, the same handshake state and replies of the same kind (of the same text, for errors) make the same
  calls, whatever the keys and values in the arguments and the replies are; only
  when key capture was configured may they differ, and then because of different sixteen digit digests of the keys. Nothing
  is said of the calls made inside \<^verbatim>\<open>dispatch\<close>: the \<^verbatim>\<open>aof.append\<close> span and the counter of appended bytes show the length of the record,
  and with it that of keys and values.\<close>

lemma telemetry_hides_data:
  assumes "\<And>b. length (sha256 b) = 32" and "Init lib salt cfg = (Inr p, c)"
    and "observeCommand (keyCapture sha256 p) pr ev cs argv s = Observed reply cs1 s1 calls"
    and "observeCommand (keyCapture sha256 p) pr' ev' cs' argv' s' = Observed reply' cs2 s2 calls'"
    and "commandLabel argv' = commandLabel argv" and "length argv' = length argv" and "shownReply reply' = shownReply reply"
    and "cs_proto cs2 = cs_proto cs1" and "cs_authenticated cs2 = cs_authenticated cs1"
  shows "calls' = calls \<or>
    tc_CaptureKeys cfg \<and> 2 \<le> length argv \<and> HashKey sha256 p (argv ! 1) \<noteq> HashKey sha256 p (argv' ! 1) \<and>
    length (HashKey sha256 p (argv ! 1)) = 16 \<and> length (HashKey sha256 p (argv' ! 1)) = 16"
proof -
  note d = shownReply_eq [OF assms(7)]
  have k: "pv_CaptureKeys p = tc_CaptureKeys cfg" by (rule telemetry_providers(3) [OF assms(2)])
  obtain ci where ci: "map_of newCmdInstruments (commandLabel argv) = Some ci" using instr_found [of argv] by blast
  have "startStoreSpan (keyCapture sha256 p) ci argv' = startStoreSpan (keyCapture sha256 p) ci argv \<or>
      tc_CaptureKeys cfg \<and> 2 \<le> length argv \<and> HashKey sha256 p (argv ! 1) \<noteq> HashKey sha256 p (argv' ! 1)"
    using assms(6) k by (auto simp: startStoreSpan_def keyCapture_def)
  moreover have "calls' = calls" if "startStoreSpan (keyCapture sha256 p) ci argv' = startStoreSpan (keyCapture sha256 p) ci argv"
    using assms(3-6,8,9) ci that d(1,2) d(3) [where f = "\<lambda>t. [MErrors (ci_command ci) (errorKind t), SAttr ''command'' ''error.kind'' (errorKind t),
        SStatus ''command'' t, MCommands (ci_command ci) ''error'']" and d = "[MCommands (ci_command ci) ''ok'']"]
    by (simp add: observeCommand_def split: option.splits prod.splits)
  moreover have "length (HashKey sha256 p k) = 16" for k by (rule HashKey_length) (rule assms(1))
  ultimately show ?thesis by blast
qed


end
