(* ===== verification/Lifecycle.thy ===== *)
theory Lifecycle
  imports Serving
begin

text \<open>
  The life of a server process (\<^verbatim>\<open>New\<close> and \<^verbatim>\<open>Close\<close> of \<^verbatim>\<open>internal/server/server.go\<close>): it refuses an unsafe
  configuration, replays the log, opens it for appending and builds the cluster node; it then
  serves requests, sweeps and rewrites in any order, and is stopped and started again.
\<close>

section \<open>server.go\<close>

text \<open>The configuration, without logger, telemetry, sweeper and election options; \<open>cf_TLS\<close> says whether TLS is on.\<close>

record config =
  cf_Addr :: string
  cf_Store :: "store option"
  cf_Dir :: string
  cf_FsyncPolicy :: fsyncPolicy
  cf_RequirePass :: string
  cf_TLS :: bool
  cf_ProtectedMode :: string
  cf_Replicate :: bool
  cf_NodeID :: string
  cf_Peers :: "peer list"
  cf_RaftAddr :: string
  cf_RaftDir :: string
  cf_RaftInsecure :: bool

datatype new_err = NewNoAddr | NewNoStore | NewGuard guard_err | NewReplay "string replay_err" | NewOpen aof_err
  | NewRaftGuard guard_err | NewCluster node_err

text \<open>The log file a process finds, as it reads it.\<close>

definition logContent :: "world \<Rightarrow> bytes option" where
  "logContent w = map_option (\<lambda>i. in_data (dk_files (wd_disk w) ! i)) (dk_canon (wd_disk w))"

text \<open>
  Replay, then open. \<open>envs n\<close> is what the \<open>n\<close>-th replayed record reads from outside, \<open>bytes\<close> the count of the
  reader. The store's server part is not logging yet, so replay leaves the disk alone.
\<close>

definition openLog ::
  "floatlib \<Rightarrow> propose \<Rightarrow> (nat \<Rightarrow> env) \<Rightarrow> int \<Rightarrow> config \<Rightarrow> server \<Rightarrow> world \<Rightarrow> (new_err + server) \<times> world" where
  "openLog F pr envs bytes cfg s w =
     (case Replay F (replayHandler pr envs) (logContent w) (s, 0) of
        (Some e, n, _) \<Rightarrow> (Inl (NewReplay e), w)
      | (None, n, s1, _) \<Rightarrow>
          (case aofOpen (cf_FsyncPolicy cfg) w of
             (Inl e, w') \<Rightarrow> (Inl (NewOpen e), w')
           | (Inr aw, w') \<Rightarrow>
               (Inr (s1\<lparr>sv_replayRecords := n, sv_replayBytes := bytes, sv_aof := Some aw, sv_world := w'\<rparr>), w')))"

definition raftBind :: "config \<Rightarrow> string \<Rightarrow> string" where
  "raftBind cfg nodeID =
     (if cf_RaftAddr cfg \<noteq> [] then cf_RaftAddr cfg
      else case find (\<lambda>p. pe_ID p = nodeID) (cf_Peers cfg) of None \<Rightarrow> [] | Some p \<Rightarrow> pe_Addr p)"

definition buildCluster :: "(string \<Rightarrow> nat list list option) \<Rightarrow> raftLib \<Rightarrow> config \<Rightarrow> server \<Rightarrow> new_err + server" where
  "buildCluster rslv lib cfg s =
     (let nodeID = (if cf_NodeID cfg = [] then ''n1'' else cf_NodeID cfg)
      in case (if length (cf_Peers cfg) > 1 then checkRaftBind rslv (raftBind cfg nodeID) (cf_RaftInsecure cfg) else None) of
           Some e \<Rightarrow> Inl (NewRaftGuard e)
         | None \<Rightarrow>
             (case snd (NewNode lib \<lparr>nc_NodeID = nodeID, nc_Peers = cf_Peers cfg, nc_RaftAddr = cf_RaftAddr cfg, nc_RaftDir = cf_RaftDir cfg\<rparr>) of
                Inl e \<Rightarrow> Inl (NewCluster e)
              | Inr nd \<Rightarrow> Inr (s\<lparr>sv_replicated := True, sv_nodeID := nd_nodeID nd, sv_peers := cf_Peers cfg\<rparr>)))"

definition initialServer :: "config \<Rightarrow> store \<Rightarrow> time \<Rightarrow> world \<Rightarrow> server" where
  "initialServer cfg st now w =
     \<lparr>sv_store = st, sv_aof = None, sv_world = w, sv_requirePass = cf_RequirePass cfg, sv_fsyncPolicy = cf_FsyncPolicy cfg,
      sv_addr = cf_Addr cfg, sv_startTime = now, sv_clientCount = 0, sv_replayRecords = 0, sv_replayBytes = 0,
      sv_rewriteInFlight = False, sv_replicated = False, sv_nodeID = [], sv_cfgNodeID = cf_NodeID cfg, sv_peers = []\<rparr>"

definition NewServer ::
  "floatlib \<Rightarrow> (string \<Rightarrow> nat list list option) \<Rightarrow> raftLib \<Rightarrow> propose \<Rightarrow> (nat \<Rightarrow> env) \<Rightarrow> time \<Rightarrow> int \<Rightarrow> config \<Rightarrow> world \<Rightarrow> (new_err + server) \<times> world" where
  "NewServer F rslv lib pr envs now bytes cfg w =
     (if cf_Addr cfg = [] then (Inl NewNoAddr, w)
      else case cf_Store cfg of
             None \<Rightarrow> (Inl NewNoStore, w)
           | Some st \<Rightarrow>
               (case checkProtectedMode rslv (cf_Addr cfg) (cf_RequirePass cfg) (cf_TLS cfg) (cf_ProtectedMode cfg) of
                  Some e \<Rightarrow> (Inl (NewGuard e), w)
                | None \<Rightarrow>
                    (case (if cf_Dir cfg = [] then (Inr (initialServer cfg st now w), w)
                           else openLog F pr envs bytes cfg (initialServer cfg st now w) w) of
                       (Inl e, w') \<Rightarrow> (Inl e, w')
                     | (Inr s, w') \<Rightarrow>
                         if cf_Replicate cfg then (buildCluster rslv lib cfg s, w') else (Inr s, w'))))"

text \<open>
  \<open>Close\<close> with the flag that makes it idempotent: stop the cluster node (whose error is only
  logged), detach the log and close it. The first component is whether it returned nil.
\<close>

definition ServerClose :: "bool \<Rightarrow> server \<Rightarrow> bool \<times> bool \<times> server" where
  "ServerClose closed s =
     (if closed then (True, True, s)
      else case sv_aof s of
             None \<Rightarrow> (True, True, s)
           | Some aw \<Rightarrow> (let (ok, aw', w') = aofClose aw (sv_world s) in (ok, True, s\<lparr>sv_aof := None, sv_world := w'\<rparr>)))"

section \<open>Restarts\<close>

text \<open>Opening an undamaged log changes nothing.\<close>

lemma aofOpen_current:
  assumes "wd_env w = []" and "dk_canon (wd_disk w) = Some i" and "i < length (dk_files (wd_disk w))"
    and "in_data (dk_files (wd_disk w) ! i) = headerBytes @ body"
  shows "\<exists>w'. aofOpen policy w = (Inr (newWriter i policy), w') \<and> wd_env w' = [] \<and> dk_canon (wd_disk w') = Some i \<and>
     dk_tmp (wd_disk w') = None \<and> dk_files (wd_disk w') = dk_files (wd_disk w)"
proof -
  have h: "readHeader (headerBytes @ body) = Inr (CurrentVersion, body)" by (simp add: readHeader_fresh)
  have ne: "headerBytes \<noteq> []" by (simp add: headerBytes_def)
  show ?thesis using assms ne
    by (simp add: aofOpen_def aofOpenFile_def aofOpenHeader_def h ioPlain_def ioRemoveTmp_def Let_def)
qed

text \<open>A configuration of a standalone server with a log that starts.\<close>

definition startable :: "(string \<Rightarrow> nat list list option) \<Rightarrow> config \<Rightarrow> bool" where
  "startable rslv cfg \<longleftrightarrow>
     cf_Addr cfg \<noteq> [] \<and> cf_Store cfg = Some NewStore \<and> cf_Dir cfg \<noteq> [] \<and> \<not> cf_Replicate cfg \<and>
     checkProtectedMode rslv (cf_Addr cfg) (cf_RequirePass cfg) (cf_TLS cfg) (cf_ProtectedMode cfg) = None"

lemma new_fresh:
  assumes "startable rslv cfg" and "wd_env w = []" and "dk_canon (wd_disk w) = None"
  shows "\<exists>s w'. NewServer F rslv lib pr envs now bytes cfg w = (Inr s, w') \<and> tracks (length (dk_files (wd_disk w))) T [] Map.empty s"
proof -
  let ?i = "length (dk_files (wd_disk w))" and ?p = "cf_FsyncPolicy cfg"
  obtain w' where w': "aofOpen ?p w = (Inr (newWriter ?i ?p), w')" "wd_env w' = []" "dk_canon (wd_disk w') = Some ?i"
    "?i < length (dk_files (wd_disk w'))" "in_data (dk_files (wd_disk w') ! ?i) = headerBytes"
    using aofOpen_fresh [OF assms(2,3)] by blast
  have t: "dk_tmp (wd_disk w') = None"
    using w'(1) assms(2,3) by (auto simp: aofOpen_def aofOpenFile_def aofOpenHeader_def aofWriteHeader_def ioPlain_def ioRemoveTmp_def
      ioWrite_def ioSync_def Let_def setDisk_def setFile_def nth_append)
  define s where "s = (initialServer cfg NewStore now w)\<lparr>sv_replayRecords := 0, sv_replayBytes := bytes,
      sv_aof := Some (newWriter ?i ?p), sv_world := w'\<rparr>"
  have "NewServer F rslv lib pr envs now bytes cfg w = (Inr s, w')"
    using assms w'(1) by (simp add: NewServer_def startable_def openLog_def logContent_def Replay_def s_def)
  moreover have "tracks ?i T [] Map.empty s"
    using w' t by (simp add: tracks_def logging_def rebuilds_Nil represents_def store_ok_New noTTL_def s_def newWriter_def initialServer_def)
  ultimately show ?thesis by blast
qed

lemma new_again:
  assumes "startable rslv cfg" and "tracks i T cmds db s" and "\<forall>m. ev_storeNow (envs m) \<le> ev_storeNow (envs (Suc m))"
    and "\<forall>m. ev_storeNow (envs m) \<le> U"
  shows "\<exists>s' w'. NewServer F rslv lib pr envs now bytes cfg (sv_world s) = (Inr s', w') \<and> tracks i U cmds db s'"
proof -
  let ?p = "cf_FsyncPolicy cfg" and ?s = "initialServer cfg NewStore now (sv_world s)"
  have lg: "wd_env (sv_world s) = []" "dk_canon (wd_disk (sv_world s)) = Some i" "i < length (dk_files (wd_disk (sv_world s)))"
    "in_data (dk_files (wd_disk (sv_world s)) ! i) = headerBytes @ recs cmds"
    using assms(2) by (simp_all add: tracks_def logging_def)
  obtain w' where w': "aofOpen ?p (sv_world s) = (Inr (newWriter i ?p), w')" "wd_env w' = []" "dk_canon (wd_disk w') = Some i"
    "dk_tmp (wd_disk w') = None" "dk_files (wd_disk w') = dk_files (wd_disk (sv_world s))"
    using aofOpen_current [OF lg] by blast
  obtain s1 where s1: "Replay F (replayHandler pr envs) (Some (in_data (dk_files (wd_disk (sv_world s)) ! i))) (?s, 0) =
      (None, length cmds, s1, length cmds)" "represents (ev_storeNow (envs (length cmds))) db (sv_store s1)" "\<not> sv_replicated s1"
    using tracks_replay [OF assms(2) _ _ _ assms(3), of ?s F pr] by (auto simp: initialServer_def)
  define s' where "s' = s1\<lparr>sv_replayRecords := length cmds, sv_replayBytes := bytes, sv_aof := Some (newWriter i ?p), sv_world := w'\<rparr>"
  have "NewServer F rslv lib pr envs now bytes cfg (sv_world s) = (Inr s', w')"
    using assms(1) lg(2) w'(1) s1(1) by (simp add: NewServer_def startable_def openLog_def logContent_def s'_def)
  moreover have "tracks i U cmds db s'"
    using w' lg s1(2,3) assms(2,4) represents_later by (simp add: tracks_def logging_def s'_def newWriter_def)
  ultimately show ?thesis by blast
qed

section \<open>The life of a server\<close>

text \<open>
  What can happen to the data of a server with a log: it starts on an empty directory; it runs a
  request of some connection; the sweeper ticks; a background rewrite runs to its end; the
  process ends and a new one starts on what it left on disk. Requests set no deadline and copy
  no hash, and clocks do not run backwards (the time is the first argument).
\<close>

inductive lived :: "floatlib \<Rightarrow> 'f float64 \<Rightarrow> (string \<Rightarrow> nat list list option) \<Rightarrow> raftLib \<Rightarrow> propose \<Rightarrow> config \<Rightarrow> time \<Rightarrow> server \<Rightarrow> bool"
  for F fl rslv lib pr cfg where
  lived_start: "NewServer F rslv lib pr envs now bytes cfg w = (Inr s, w') \<Longrightarrow> wd_env w = [] \<Longrightarrow> dk_canon (wd_disk w) = None \<Longrightarrow>
    lived F fl rslv lib pr cfg T s"
| lived_request: "lived F fl rslv lib pr cfg T s \<Longrightarrow> T \<le> ev_storeNow ev \<Longrightarrow> tame_request ev argv (view (sv_store s) (ev_storeNow ev)) \<Longrightarrow>
    dispatch pr ev cs argv s = Some (r, cs', s') \<Longrightarrow> lived F fl rslv lib pr cfg (ev_storeNow ev) s'"
| lived_sweep: "lived F fl rslv lib pr cfg T s \<Longrightarrow> T \<le> now \<Longrightarrow> fair ord \<Longrightarrow>
    lived F fl rslv lib pr cfg now (setStore (snd (snd (tick fl ord sw now (sv_store s)))) s)"
| lived_rewrite: "lived F fl rslv lib pr cfg T s \<Longrightarrow> T \<le> ev_storeNow ev \<Longrightarrow> visits (ev_order ev (st_data (sv_store s))) (sv_store s) \<Longrightarrow>
    \<forall>c \<in> set (fst (snapshotForRewrite ev (sv_store s))). command_ok c \<Longrightarrow> lived F fl rslv lib pr cfg (ev_storeNow ev) (runRewrite ev s)"
| lived_restart: "lived F fl rslv lib pr cfg T s \<Longrightarrow> \<forall>m. ev_storeNow (envs m) \<le> ev_storeNow (envs (Suc m)) \<Longrightarrow> \<forall>m. ev_storeNow (envs m) \<le> U \<Longrightarrow>
    NewServer F rslv lib pr envs now bytes cfg (sv_world s) = (Inr s', w') \<Longrightarrow> lived F fl rslv lib pr cfg U s'"

lemma lived_tracks:
  assumes "lived F fl rslv lib pr cfg T s" and "startable rslv cfg"
  shows "\<exists>i cmds db. tracks i T cmds db s"
  using assms(1)
proof induction
  case (lived_start envs now bytes w s w' T)
  then show ?case using new_fresh [OF assms(2), of w F lib pr envs now bytes T] by auto
next
  case (lived_request T s ev argv cs r cs' s')
  then obtain i cmds db where tr: "tracks i T cmds db s" by blast
  have "view (sv_store s) (ev_storeNow ev) = db" using tr lived_request.hyps(2) by (auto simp: tracks_def represents_def)
  then show ?case using tracks_step [OF tr lived_request.hyps(2) _ lived_request.hyps(4)] lived_request.hyps(3) by blast
next
  case (lived_sweep T s now ord sw)
  then obtain i cmds db where tr: "tracks i T cmds db s" by blast
  obtain S E u where t: "tick fl ord sw now (sv_store s) = (S, E, u)" by (metis prod.collapse)
  have rep: "represents T db (sv_store s)" and ok: "store_ok (sv_store s)" and nt: "noTTL db" using tr by (simp_all add: tracks_def represents_def)
  note k = tick_spec(1,2) [OF ok lived_sweep.hyps(3) t]
  have vn: "view u now = db" using k(2) rep lived_sweep.hyps(2) by (simp add: represents_def)
  have "view u n = db" if "now \<le> n" for n using view_later [OF that, of u] vn live_noTTL [OF nt] by simp
  then have "represents now db u" using k(1) nt by (simp add: represents_def)
  then have "tracks i now cmds db (setStore u s)" using tr by (simp add: tracks_def logging_def)
  then show ?case using t by auto
next
  case (lived_rewrite T s ev)
  then show ?case using tracks_rewrite by blast
next
  case (lived_restart T s envs U now bytes s' w')
  then obtain i cmds db where tr: "tracks i T cmds db s" by blast
  show ?case using new_again [OF assms(2) tr lived_restart.hyps(2,3), of F lib pr now bytes] lived_restart.hyps(4) by auto
qed

text \<open>
  Claim C4. Restarts lose nothing that has no deadline: whatever a standalone server with a log has been
  through since it was first started on an empty directory (requests of any connections, one at a time, sweeps,
  background rewrites, earlier restarts), a new process started with the same
  configuration on the files it left replays and opens them without error and holds the same
  keyspace. The conditions: system calls succeed, clocks do not run backwards, no request sets a deadline or copies
  a hash, and a rewrite runs without concurrent writes and writes commands within the limits of the reader.\<close>

theorem restart_restores:
  assumes "lived F fl rslv lib pr cfg T s" and "startable rslv cfg"
    and "\<forall>m. ev_storeNow (envs m) \<le> ev_storeNow (envs (Suc m))" and "\<forall>m. ev_storeNow (envs m) \<le> t" and "T \<le> t"
  shows "\<exists>s' w'. NewServer F rslv lib pr envs now bytes cfg (sv_world s) = (Inr s', w') \<and> view (sv_store s') t = view (sv_store s) t"
proof -
  obtain i cmds db where tr: "tracks i T cmds db s" using lived_tracks [OF assms(1,2)] by blast
  obtain s' w' where n: "NewServer F rslv lib pr envs now bytes cfg (sv_world s) = (Inr s', w')" "tracks i t cmds db s'"
    using new_again [OF assms(2) tr assms(3,4)] by blast
  have "view (sv_store s) t = db" "view (sv_store s') t = db" using tr n(2) assms(5) by (auto simp: tracks_def represents_def)
  with n(1) show ?thesis by auto
qed

text \<open>A loopback configuration with a data directory, and a Raft library whose constructors all succeed.\<close>

definition demoConfig :: config where
  "demoConfig =
     \<lparr>cf_Addr = ''127.0.0.1:6390'', cf_Store = Some NewStore, cf_Dir = ''data'', cf_FsyncPolicy = FsyncAlways, cf_RequirePass = [],
      cf_TLS = False, cf_ProtectedMode = ''yes'', cf_Replicate = False, cf_NodeID = [], cf_Peers = [], cf_RaftAddr = [],
      cf_RaftDir = [], cf_RaftInsecure = False\<rparr>"

definition demoRaftLib :: raftLib where
  "demoRaftLib = \<lparr>rl_storage = (\<lambda>_. True), rl_transport = (\<lambda>_ _. True), rl_raft = (\<lambda>_. True)\<rparr>"

lemma demoConfig_startable: "startable (\<lambda>_. None) demoConfig"
  by code_simp

lemma demo_set:
  assumes "\<not> sv_replicated s"
  shows "tame_request (demoEnv 1) [''set'', ''k'', ''5'', ''NX''] db"
    and "\<exists>r s'. dispatch noPropose (demoEnv 1) (newConnState 1 True) [''set'', ''k'', ''5'', ''NX''] s = Some (r, newConnState 1 True, s')"
proof -
  have c: "command_ok [''set'', ''k'', ''5'', ''NX'']" by (rule small_command; simp)
  have o: "mutOp t [''set'', ''k'', ''5'', ''NX''] = Inr (OSet ''k'' ''5'' SetNX zeroTime)" for t by (simp add: mutOp_def parseSetOptions_def)
  show "tame_request (demoEnv 1) [''set'', ''k'', ''5'', ''NX''] db" using c o by (simp add: tame_request_def plainOp_def)
  have "legal [''set'', ''k'', ''5'', ''NX'']" using c by (simp add: legal_def commands_def mkHandler_def arity_ok_def)
  moreover have "local_run (newConnState 1 True) s" using assms by (simp add: local_run_def newConnState_def)
  ultimately show "\<exists>r s'. dispatch noPropose (demoEnv 1) (newConnState 1 True) [''set'', ''k'', ''5'', ''NX''] s = Some (r, newConnState 1 True, s')"
    by (simp add: legal_dispatch split: prod.splits)
qed

theorem restart_restores_witness:
  "\<exists>s r s1 s2 w w2.
     NewServer noFloat (\<lambda>_. None) demoRaftLib noPropose (\<lambda>_. demoEnv 1) 1 0 demoConfig demoWorld = (Inr s, w) \<and>
     dispatch noPropose (demoEnv 1) (newConnState 1 True) [''set'', ''k'', ''5'', ''NX''] s = Some (r, newConnState 1 True, s1) \<and>
     NewServer noFloat (\<lambda>_. None) demoRaftLib noPropose (\<lambda>_. demoEnv 2) 2 0 demoConfig (sv_world s1) = (Inr s2, w2) \<and>
     view (sv_store s2) 2 = view (sv_store s1) 2"
proof -
  obtain s w where s: "NewServer noFloat (\<lambda>_. None) demoRaftLib noPropose (\<lambda>_. demoEnv 1) 1 0 demoConfig demoWorld = (Inr s, w)"
    "tracks 0 1 [] Map.empty s"
    using new_fresh [OF demoConfig_startable, of demoWorld noFloat demoRaftLib noPropose "\<lambda>_. demoEnv 1" 1 0 1]
    by (auto simp: demoWorld_def)
  have nr: "\<not> sv_replicated s" using s(2) by (simp add: tracks_def)
  obtain r s1 where d: "dispatch noPropose (demoEnv 1) (newConnState 1 True) [''set'', ''k'', ''5'', ''NX''] s = Some (r, newConnState 1 True, s1)"
    using demo_set(2) [OF nr] by blast
  have "lived noFloat fracFloat (\<lambda>_. None) demoRaftLib noPropose demoConfig 1 s"
    by (rule lived_start [OF s(1)]) (simp_all add: demoWorld_def)
  then have l: "lived noFloat fracFloat (\<lambda>_. None) demoRaftLib noPropose demoConfig (ev_storeNow (demoEnv 1)) s1"
    by (rule lived_request [OF _ _ demo_set(1) [OF nr] d]) (simp add: demoEnv_def)
  show ?thesis
    using s(1) d restart_restores [OF l demoConfig_startable, of "\<lambda>_. demoEnv 2" 2 2 0] by (simp add: demoEnv_def)
qed

section \<open>Exposure\<close>

lemma replayLoop_keeps:
  assumes "\<And>argv st. P st \<Longrightarrow> P (snd (ap argv st))" and "P st"
  shows "P (snd (snd (replayLoop F ap inp n st)))"
  using assms(2)
proof (induction "length inp" arbitrary: inp n st rule: less_induct)
  case less
  show ?case
  proof (cases "ReadCommand F inp")
    case (Inl e)
    then show ?thesis using less.prems by (subst replayLoop.simps) (simp split: resp_err.splits)
  next
    case (Inr x)
    obtain argv rest where x: "x = (argv, rest)" by (cases x)
    obtain e st' where a: "ap argv st = (e, st')" by (cases "ap argv st")
    have "P st'" using assms(1) [OF less.prems, of argv] a by simp
    moreover have "length rest < length inp" using Inr x by (auto dest!: ReadCommand_spec(2) eats_shorter)
    ultimately show ?thesis using Inr x a less.hyps by (subst replayLoop.simps) (simp split: option.splits)
  qed
qed

lemma Replay_config:
  assumes "Replay F (replayHandler pr envs) content (s, 0) = (e, n, s', k)"
  shows "sv_requirePass s' = sv_requirePass s"
proof -
  have h: "sv_requirePass (fst (snd (replayHandler pr envs c (u, m)))) = sv_requirePass u" for c u m
    using replayHandler_config [of pr envs c u m] by (metis prod.collapse fst_conv snd_conv)
  have "sv_requirePass (fst (snd (snd (replayLoop F (replayHandler pr envs) inp 0 (s, 0))))) = sv_requirePass s" for inp
    by (rule replayLoop_keeps [where P = "\<lambda>st. sv_requirePass (fst st) = sv_requirePass s"]) (auto simp: h)
  then show ?thesis using assms by (auto simp: Replay_def split: option.splits sum.splits dest!: spec) (metis fst_conv snd_conv)+
qed

lemma new_inv:
  assumes "NewServer F rslv lib pr envs now bytes cfg w = (Inr s, w')"
  shows "checkProtectedMode rslv (cf_Addr cfg) (cf_RequirePass cfg) (cf_TLS cfg) (cf_ProtectedMode cfg) = None"
    and "cf_Replicate cfg \<Longrightarrow> length (cf_Peers cfg) > 1 \<Longrightarrow>
      checkRaftBind rslv (raftBind cfg (if cf_NodeID cfg = [] then ''n1'' else cf_NodeID cfg)) (cf_RaftInsecure cfg) = None"
    and "sv_requirePass s = cf_RequirePass cfg"
proof -
  show "sv_requirePass s = cf_RequirePass cfg"
    using assms Replay_config [of F pr envs _ "initialServer cfg _ now w"]
    by (auto simp: NewServer_def buildCluster_def openLog_def initialServer_def Let_def split: if_splits option.splits prod.splits sum.splits)
qed (use assms in \<open>auto simp: NewServer_def buildCluster_def Let_def split: if_splits option.splits prod.splits sum.splits\<close>)

text \<open>
  Claim C26. A server that other machines can reach asks for a password: when one starts with protected mode
  on, without TLS and on an address that is not loopback, then whatever log it replayed, a new
  connection gets NOAUTH for every command but AUTH, HELLO and PING, at no effect; and the
  plaintext Raft listener of a cluster is on a loopback address unless exposing it was acknowledged.\<close>

theorem exposed_start_protected:
  assumes "NewServer F rslv lib pr envs now bytes cfg w = (Inr s, w')" and "ParseProtectedMode (cf_ProtectedMode cfg) = Some True"
    and "\<not> cf_TLS cfg" and "\<not> bindIsLoopback rslv (cf_Addr cfg)"
  shows "(argv \<noteq> [] \<and> upperASCII (argv ! 0) \<notin> {''AUTH'', ''HELLO'', ''PING''} \<longrightarrow>
      dispatch pr' ev (newConnState n (sv_requirePass s = [])) argv s =
        Some (RError ''NOAUTH Authentication required.'', newConnState n False, s)) \<and>
    (cf_Replicate cfg \<and> length (cf_Peers cfg) > 1 \<and> \<not> cf_RaftInsecure cfg \<longrightarrow>
      bindIsLoopback rslv (raftBind cfg (if cf_NodeID cfg = [] then ''n1'' else cf_NodeID cfg)))"
proof -
  note i = new_inv [OF assms(1)]
  have "sv_requirePass s \<noteq> []" using i(1,3) assms(2-4) by (auto simp: checkProtectedMode_def split: if_splits)
  then show ?thesis using i(2) by (auto simp: dispatch_def newConnState_def checkRaftBind_def Let_def split: if_splits)
qed

theorem exposed_start_protected_witness:
  "\<exists>s w'. NewServer noFloat (\<lambda>_. None) demoRaftLib noPropose (\<lambda>_. demoEnv 1) 1 0
       (demoConfig\<lparr>cf_Addr := '':6390'', cf_RequirePass := ''pw'', cf_Dir := []\<rparr>) demoWorld = (Inr s, w') \<and>
     dispatch noPropose (demoEnv 2) (newConnState 1 (sv_requirePass s = [])) [''GET'', ''k''] s =
       Some (RError ''NOAUTH Authentication required.'', newConnState 1 False, s)"
proof -
  let ?cfg = "demoConfig\<lparr>cf_Addr := '':6390'', cf_RequirePass := ''pw'', cf_Dir := []\<rparr>"
  have g: "checkProtectedMode (\<lambda>_. None) '':6390'' ''pw'' False ''yes'' = None" "ParseProtectedMode ''yes'' = Some True"
    "\<not> bindIsLoopback (\<lambda>_. None) '':6390''" by code_simp+
  have "NewServer noFloat (\<lambda>_. None) demoRaftLib noPropose (\<lambda>_. demoEnv 1) 1 0 ?cfg demoWorld =
      (Inr (initialServer ?cfg NewStore 1 demoWorld), demoWorld)"
    using g(1) by (simp add: NewServer_def demoConfig_def)
  note s = this
  show ?thesis
    using s exposed_start_protected [OF s, of "[''GET'', ''k'']" noPropose "demoEnv 2" 1] g(2,3) by (simp add: demoConfig_def)
qed

section \<open>Serving\<close>

text \<open>
  \<open>Run\<close>: listen, bring the cluster node up and wait for a leader, accept. \<open>listens\<close> and \<open>starts\<close> are the
  outcomes of \<^verbatim>\<open>net.Listen\<close> and of starting the Raft node, \<open>sts\<close> the statuses seen until the five seconds are
  over, \<open>es\<close> what \<^verbatim>\<open>Accept\<close> returns. The result is how it ended (\<^const>\<open>None\<close>: still serving), the number of
  connections started and the delays slept. The sweeper and the connections it starts are
  modelled by \<^const>\<open>tick\<close> and \<^const>\<open>handleConn\<close>.
\<close>

datatype runEnd = RunListen | RunStart | RunNoLeader | RunAccept | RunClean

definition ServerRun :: "bool \<Rightarrow> bool \<Rightarrow> (bool \<times> string) list \<Rightarrow> acceptEvent list \<Rightarrow> server \<Rightarrow> runEnd option \<times> nat \<times> int list" where
  "ServerRun listens starts sts es s =
     (if \<not> listens then (Some RunListen, 0, [])
      else if sv_replicated s \<and> \<not> starts then (Some RunStart, 0, [])
      else if sv_replicated s \<and> \<not> WaitLeader sts then (Some RunNoLeader, 0, [])
      else case acceptLoop es 0 0 [] of
             (None, n, ds) \<Rightarrow> (None, n, ds)
           | (Some EndClean, n, ds) \<Rightarrow> (Some RunClean, n, ds)
           | (Some EndError, n, ds) \<Rightarrow> (Some RunAccept, n, ds))"

lemma WaitLeader_iff: "WaitLeader sts \<longleftrightarrow> (\<exists>(leader, hint) \<in> set sts. leader \<or> hint \<noteq> [])"
  by (induction sts rule: WaitLeader.induct) auto

text \<open>
  What the accept loop promises: whatever \<^verbatim>\<open>Accept\<close> returns, each pause for want of file
  descriptors is between 5 ms and 1 s, an accepted connection resets the next pause to 5 ms, and a
  replicated server accepts no connection before it saw a leader.\<close>

lemma run_accepts:
  assumes "ServerRun listens starts sts es s = (r, n, ds)"
  shows "(\<forall>d \<in> set ds. 5 * Millisecond \<le> d \<and> d \<le> Second) \<and>
    (sv_replicated s \<and> 0 < n \<longrightarrow> (\<exists>(leader, hint) \<in> set sts. leader \<or> hint \<noteq> [])) \<and>
    snd (snd (ServerRun listens starts sts (es @ [AcConn, AcTooManyFiles]) s)) \<in> {ds, ds @ [5 * Millisecond]}"
proof (intro conjI)
  show "\<forall>d \<in> set ds. 5 * Millisecond \<le> d \<and> d \<le> Second"
    using assms acceptLoop_delays [of es 0 0 "[]"] by (auto simp: ServerRun_def split: if_splits prod.splits option.splits acceptEnd.splits)
  show "sv_replicated s \<and> 0 < n \<longrightarrow> (\<exists>(leader, hint) \<in> set sts. leader \<or> hint \<noteq> [])"
    using assms WaitLeader_iff [of sts] by (auto simp: ServerRun_def split: if_splits)
  have "snd (snd (acceptLoop (es @ [AcConn, AcTooManyFiles]) b k xs)) \<in>
      {snd (snd (acceptLoop es b k xs)), snd (snd (acceptLoop es b k xs)) @ [5 * Millisecond]}" for b k xs
    by (induction es b k xs rule: acceptLoop.induct) (simp_all add: nextBackoff_def)
  from this [of 0 0 "[]"] show "snd (snd (ServerRun listens starts sts (es @ [AcConn, AcTooManyFiles]) s)) \<in> {ds, ds @ [5 * Millisecond]}"
    using assms by (auto simp: ServerRun_def split: if_splits prod.splits option.splits acceptEnd.splits)
qed

end
