(* ===== verification/Respfmt.thy ===== *)
theory Respfmt
  imports Resp Net
begin

text \<open>
  Rendering of replies for people and for scripts (\<^verbatim>\<open>internal/respfmt\<close>). The quoting functions of
  \<^verbatim>\<open>strconv\<close> and \<^verbatim>\<open>fmt\<close> are parameters.
\<close>

section \<open>respfmt.go\<close>

record quoting =
  q_Quote :: "bytes \<Rightarrow> string"
  q_kind :: "char \<Rightarrow> string"

abbreviation nl :: string where "nl \<equiv> [CHR 0x0A]"

definition fmtDouble :: "floatlib \<Rightarrow> float64 \<Rightarrow> string" where
  "fmtDouble F f =
     (if f = posInf then ''inf'' else if f = negInf then ''-inf'' else if isNaN f then ''nan'' else fl_format F f)"

definition isNonEmptyAggregate :: "resp_value \<Rightarrow> bool" where
  "isNonEmptyAggregate v =
     (case v of RArray vs \<Rightarrow> vs \<noteq> [] | RSet vs \<Rightarrow> vs \<noteq> [] | RPush vs \<Rightarrow> vs \<noteq> [] | RMap vs \<Rightarrow> vs \<noteq> [] | _ \<Rightarrow> False)"

text \<open>\<^verbatim>\<open>%c\<close> of a byte prints the code point with that number.\<close>

definition runeOfByte :: "char \<Rightarrow> string" where
  "runeOfByte c =
     (let n = (of_char c :: nat) in if n < 128 then [c] else [char_of (192 + n div 64), char_of (128 + n mod 64)])"

definition leafString :: "quoting \<Rightarrow> floatlib \<Rightarrow> resp_value \<Rightarrow> string" where
  "leafString q F v =
     (case v of
        RString s \<Rightarrow> s
      | RInt n \<Rightarrow> ''(integer) '' @ formatInt n
      | RBulk b \<Rightarrow> q_Quote q b
      | RNullBulk \<Rightarrow> ''(nil)''
      | RDouble f \<Rightarrow> ''(double) '' @ fmtDouble F f
      | RBoolean b \<Rightarrow> if b then ''(true)'' else ''(false)''
      | RNull \<Rightarrow> ''(nil)''
      | RVerbatim t b \<Rightarrow> q_Quote q b
      | RError s \<Rightarrow> ''(-)''
      | RArray vs \<Rightarrow> ''(*)''
      | RNullArray \<Rightarrow> ''(*)''
      | RMap vs \<Rightarrow> ''(%)''
      | RSet vs \<Rightarrow> ''(~)''
      | RPush vs \<Rightarrow> ''(>)''
      | RUnknown c \<Rightarrow> ''('' @ runeOfByte c @ '')'')"

definition padLeft :: "nat \<Rightarrow> string \<Rightarrow> string" where
  "padLeft w s = replicate (w - length s) (CHR '' '') @ s"

definition elemPrefix :: "string \<Rightarrow> nat \<Rightarrow> nat \<Rightarrow> string \<Rightarrow> string" where
  "elemPrefix indent width i sep = indent @ padLeft width (formatNat i) @ sep @ '' ''"

text \<open>\<open>printElems\<close> and \<open>printPairs\<close> are the loops of \<^verbatim>\<open>printAggregate\<close> and \<^verbatim>\<open>printMap\<close>; the last key of a map of odd length is dropped.\<close>

fun printPretty :: "quoting \<Rightarrow> floatlib \<Rightarrow> string \<Rightarrow> resp_value \<Rightarrow> string"
  and printElems :: "quoting \<Rightarrow> floatlib \<Rightarrow> string \<Rightarrow> nat \<Rightarrow> nat \<Rightarrow> resp_value list \<Rightarrow> string"
  and printPairs :: "quoting \<Rightarrow> floatlib \<Rightarrow> string \<Rightarrow> nat \<Rightarrow> nat \<Rightarrow> resp_value list \<Rightarrow> string" where
  "printPretty q F indent (RString s) = s @ nl"
| "printPretty q F indent (RInt n) = ''(integer) '' @ formatInt n @ nl"
| "printPretty q F indent (RBulk b) = q_Quote q b @ nl"
| "printPretty q F indent RNullBulk = ''(nil)'' @ nl"
| "printPretty q F indent (RArray vs) =
     (if vs = [] then ''(empty array)'' @ nl else printElems q F indent (length (formatNat (length vs))) 1 vs)"
| "printPretty q F indent (RSet vs) =
     (if vs = [] then ''(empty array)'' @ nl else printElems q F indent (length (formatNat (length vs))) 1 vs)"
| "printPretty q F indent (RPush vs) =
     (if vs = [] then ''(empty array)'' @ nl else printElems q F indent (length (formatNat (length vs))) 1 vs)"
| "printPretty q F indent RNullArray = ''(nil)'' @ nl"
| "printPretty q F indent (RMap vs) =
     (if vs = [] then ''(empty map)'' @ nl else printPairs q F indent (length (formatNat (length vs div 2))) 1 vs)"
| "printPretty q F indent (RDouble f) = ''(double) '' @ fmtDouble F f @ nl"
| "printPretty q F indent (RBoolean b) = (if b then ''(true)'' else ''(false)'') @ nl"
| "printPretty q F indent RNull = ''(nil)'' @ nl"
| "printPretty q F indent (RVerbatim t b) = b @ nl"
| "printPretty q F indent (RError s) = ''(unknown kind '' @ q_kind q (CHR ''-'') @ '')'' @ nl"
| "printPretty q F indent (RUnknown c) = ''(unknown kind '' @ q_kind q c @ '')'' @ nl"
| "printElems q F indent width i [] = []"
| "printElems q F indent width i (v # vs) =
     elemPrefix indent width i '')'' @
     (if isNonEmptyAggregate v
      then nl @ printPretty q F (indent @ replicate (length (elemPrefix indent width i '')'')) (CHR '' '')) v
      else printPretty q F [] v) @
     printElems q F indent width (i + 1) vs"
| "printPairs q F indent width i (k # v # vs) =
     elemPrefix indent width i ''#'' @ leafString q F k @ '' => '' @
     (if isNonEmptyAggregate v
      then nl @ printPretty q F (indent @ replicate (length (elemPrefix indent width i ''#'')) (CHR '' '')) v
      else printPretty q F [] v) @
     printPairs q F indent width (i + 1) vs"
| "printPairs q F indent width i _ = []"

fun printRaw :: "floatlib \<Rightarrow> resp_value \<Rightarrow> string" where
  "printRaw F (RString s) = s @ nl"
| "printRaw F (RInt n) = formatInt n @ nl"
| "printRaw F (RBulk b) = b @ nl"
| "printRaw F RNullBulk = nl"
| "printRaw F (RVerbatim t b) = b @ nl"
| "printRaw F (RArray vs) = concat (map (printRaw F) vs)"
| "printRaw F (RSet vs) = concat (map (printRaw F) vs)"
| "printRaw F (RPush vs) = concat (map (printRaw F) vs)"
| "printRaw F (RMap vs) = concat (map (printRaw F) vs)"
| "printRaw F RNullArray = nl"
| "printRaw F (RDouble f) = fmtDouble F f @ nl"
| "printRaw F (RBoolean b) = (if b then ''true'' else ''false'') @ nl"
| "printRaw F RNull = nl"
| "printRaw F (RError s) = []"
| "printRaw F (RUnknown c) = []"

text \<open>What goes to \<^verbatim>\<open>Out\<close> and to \<^verbatim>\<open>Err\<close>.\<close>

definition Print :: "quoting \<Rightarrow> floatlib \<Rightarrow> bool \<Rightarrow> resp_value \<Rightarrow> string \<times> string" where
  "Print q F raw v =
     (case v of
        RError s \<Rightarrow> ([], ''(error) '' @ s @ nl)
      | _ \<Rightarrow> (if raw then printRaw F v else printPretty q F [] v, []))"

definition trimNL :: "string \<Rightarrow> string" where
  "trimNL s = rev (dropWhile (\<lambda>c. c = CHR 0x0A) (rev s))"

text \<open>One buffer takes both streams; only one of them is written.\<close>

definition PrettyString :: "quoting \<Rightarrow> floatlib \<Rightarrow> resp_value \<Rightarrow> string" where
  "PrettyString q F v = trimNL (snd (Print q F False v) @ fst (Print q F False v))"

definition RawString :: "quoting \<Rightarrow> floatlib \<Rightarrow> resp_value \<Rightarrow> string" where
  "RawString q F v = trimNL (snd (Print q F True v) @ fst (Print q F True v))"

section \<open>Raw output can be split again\<close>

lemma splitOn_line: "c \<notin> set s \<Longrightarrow> splitOn c (s @ c # rest) = s # splitOn c rest"
  by (induction s) auto

lemma splitOn_lines: "\<forall>b \<in> set bs. c \<notin> set b \<Longrightarrow> splitOn c (concat (map (\<lambda>b. b @ [c]) bs) @ rest) = bs @ splitOn c rest"
  by (induction bs) (auto simp: splitOn_line)

text \<open>The leaves of a reply as raw output shows them.\<close>

fun rawLeaves :: "floatlib \<Rightarrow> resp_value \<Rightarrow> string list" where
  "rawLeaves F (RString s) = [s]"
| "rawLeaves F (RInt n) = [formatInt n]"
| "rawLeaves F (RBulk b) = [b]"
| "rawLeaves F (RVerbatim t b) = [b]"
| "rawLeaves F (RArray vs) = concat (map (rawLeaves F) vs)"
| "rawLeaves F (RSet vs) = concat (map (rawLeaves F) vs)"
| "rawLeaves F (RPush vs) = concat (map (rawLeaves F) vs)"
| "rawLeaves F (RMap vs) = concat (map (rawLeaves F) vs)"
| "rawLeaves F (RDouble f) = [formatDouble F f]"
| "rawLeaves F (RBoolean b) = [if b then ''true'' else ''false'']"
| "rawLeaves F (RError s) = []"
| "rawLeaves F (RUnknown c) = []"
| "rawLeaves F v = [[]]"

lemma concat_lines:
  "(\<And>v. v \<in> set vs \<Longrightarrow> f v = concat (map g (h v))) \<Longrightarrow> concat (map f vs) = concat (map g (concat (map h vs)))"
  by (induction vs) auto

lemma printRaw_leaves: "printRaw F v = concat (map (\<lambda>l. l @ nl) (rawLeaves F v))"
proof (induction F v rule: printRaw.induct)
  case (6 F vs)
  then show ?case by (simp add: concat_lines)
next
  case (7 F vs)
  then show ?case by (simp add: concat_lines)
next
  case (8 F vs)
  then show ?case by (simp add: concat_lines)
next
  case (9 F vs)
  then show ?case by (simp add: concat_lines)
qed (simp_all add: fmtDouble_def formatDouble_def)

text \<open>
  Raw output is made for scripts: a reply that is no error goes to the standard output only, as the leaves
  of the reply in order, one line each, so that splitting the output at line ends gives back exactly the
  elements (when none contains a line end); an error goes to the error output only.\<close>

lemma raw_output_splits:
  assumes "\<forall>l \<in> set (rawLeaves F v). CHR 0x0A \<notin> set l"
  shows "(\<not> (\<exists>e. v = RError e) \<longrightarrow> splitOn (CHR 0x0A) (fst (Print q F True v)) = rawLeaves F v @ [[]] \<and> snd (Print q F True v) = []) \<and>
    (\<forall>e. v = RError e \<longrightarrow> Print q F True v = ([], ''(error) '' @ e @ nl))"
  using splitOn_lines [OF assms, of "[]"] printRaw_leaves [of F v]
  by (auto simp: Print_def split: resp_value.splits)

end
