(* ===== verification/Cmdparse.thy ===== *)
theory Cmdparse
  imports Golib
begin

text \<open>
  The command line of the command-line client and of the terminal UI (\<^verbatim>\<open>internal/cmdparse\<close>). A line is a list
  of code points, as \<^verbatim>\<open>Tokenise\<close> converts it first; its tokens are lists of code points too.
\<close>

section \<open>cmdparse.go\<close>

type_synonym rune = nat

definition IsSpace :: "rune \<Rightarrow> bool" where
  "IsSpace c \<longleftrightarrow> c \<in> {9, 10, 11, 12, 13, 32, 133, 160, 5760, 8232, 8233, 8239, 8287, 12288} \<or> 8192 \<le> c \<and> c \<le> 8202"

abbreviation dquote :: rune where "dquote \<equiv> 34"
abbreviation squote :: rune where "squote \<equiv> 39"
abbreviation backslash :: rune where "backslash \<equiv> 92"

definition decodeEscape :: "rune \<Rightarrow> rune" where
  "decodeEscape c =
     (if c = 110 then 10 else if c = 116 then 9 else if c = 114 then 13 else if c = 48 then 0 else if c = 97 then 7
      else if c = 98 then 8 else if c = 102 then 12 else if c = 118 then 11 else c)"

datatype token_err = UnterminatedDouble | UnterminatedSingle

text \<open>The two inner loops: the text up to the closing quote and what follows it.\<close>

fun doubleLoop :: "rune list \<Rightarrow> rune list \<Rightarrow> (rune list \<times> rune list) option" where
  "doubleLoop [] cur = None"
| "doubleLoop (c # cs) cur =
     (if c = dquote then Some (cur, cs)
      else case cs of
             e # rest \<Rightarrow> if c = backslash then doubleLoop rest (cur @ [decodeEscape e]) else doubleLoop cs (cur @ [c])
           | [] \<Rightarrow> doubleLoop cs (cur @ [c]))"

fun singleLoop :: "rune list \<Rightarrow> rune list \<Rightarrow> (rune list \<times> rune list) option" where
  "singleLoop [] cur = None"
| "singleLoop (c # cs) cur = (if c = squote then Some (cur, cs) else singleLoop cs (cur @ [c]))"

lemma doubleLoop_shorter: "doubleLoop xs cur = Some (cur', rest) \<Longrightarrow> length rest < length xs"
proof (induction xs cur rule: doubleLoop.induct)
  case (2 c cs cur)
  then show ?case by (cases cs) (auto split: if_splits)
qed simp

lemma singleLoop_shorter: "singleLoop xs cur = Some (cur', rest) \<Longrightarrow> length rest < length xs"
proof (induction xs cur rule: singleLoop.induct)
  case (2 c cs cur)
  then show ?case by (auto split: if_splits)
qed simp

function tokenLoop :: "rune list \<Rightarrow> rune list list \<Rightarrow> rune list \<Rightarrow> bool \<Rightarrow> token_err + rune list list" where
  "tokenLoop [] out cur opn = Inr (if opn then out @ [cur] else out)"
| "tokenLoop (c # cs) out cur opn =
     (if IsSpace c then (if opn then tokenLoop cs (out @ [cur]) [] False else tokenLoop cs out cur opn)
      else if c = dquote
      then (case doubleLoop cs cur of None \<Rightarrow> Inl UnterminatedDouble | Some (cur', rest) \<Rightarrow> tokenLoop rest out cur' True)
      else if c = squote
      then (case singleLoop cs cur of None \<Rightarrow> Inl UnterminatedSingle | Some (cur', rest) \<Rightarrow> tokenLoop rest out cur' True)
      else tokenLoop cs out (cur @ [c]) True)"
  by pat_completeness auto

termination tokenLoop
  by (relation "measure (\<lambda>(xs, out, cur, opn). length xs)") (auto dest: doubleLoop_shorter singleLoop_shorter)

definition Tokenise :: "rune list \<Rightarrow> token_err + rune list list" where
  "Tokenise line = tokenLoop line [] [] False"

section \<open>Every argument vector can be typed\<close>

text \<open>The spellings of an argument: a bare word, a literal in single quotes, or double quotes with escapes.\<close>

definition escaped :: "rune list \<Rightarrow> rune list" where
  "escaped arg = concat (map (\<lambda>c. if c = dquote \<or> c = backslash then [backslash, c] else [c]) arg)"

inductive spells :: "rune list \<Rightarrow> rune list \<Rightarrow> bool" where
  bare: "arg \<noteq> [] \<Longrightarrow> \<forall>c \<in> set arg. \<not> IsSpace c \<and> c \<noteq> dquote \<and> c \<noteq> squote \<Longrightarrow> spells arg arg"
| single: "squote \<notin> set arg \<Longrightarrow> spells (squote # arg @ [squote]) arg"
| double: "spells (dquote # escaped arg @ [dquote]) arg"

lemma doubleLoop_escaped: "doubleLoop (escaped arg @ dquote # rest) cur = Some (cur @ arg, rest)"
proof (induction arg arbitrary: cur)
  case (Cons c arg)
  show ?case
  proof (cases "c = dquote \<or> c = backslash")
    case True
    then show ?thesis using Cons by (auto simp: escaped_def decodeEscape_def)
  next
    case False
    obtain x xs where x: "escaped arg @ dquote # rest = x # xs" by (cases "escaped arg @ dquote # rest") auto
    have "escaped (c # arg) @ dquote # rest = c # x # xs" using False x by (simp add: escaped_def)
    then show ?thesis using False Cons [of "cur @ [c]"] x by simp
  qed
qed (simp add: escaped_def)

lemma singleLoop_literal: "squote \<notin> set arg \<Longrightarrow> singleLoop (arg @ squote # rest) cur = Some (cur @ arg, rest)"
  by (induction arg arbitrary: cur) auto

lemma tokenLoop_bare:
  "\<forall>c \<in> set arg. \<not> IsSpace c \<and> c \<noteq> dquote \<and> c \<noteq> squote \<Longrightarrow>
   tokenLoop (arg @ rest) out cur opn = tokenLoop rest out (cur @ arg) (opn \<or> arg \<noteq> [])"
  by (induction arg arbitrary: cur opn) auto

lemma quotes_no_space [simp]: "\<not> IsSpace dquote" "\<not> IsSpace squote"
  by (simp_all add: IsSpace_def)

lemma tokenLoop_spelling:
  assumes "spells w arg"
  shows "tokenLoop (w @ rest) out [] False = tokenLoop rest out arg True"
  using assms
proof cases
  case bare
  then show ?thesis using tokenLoop_bare [of arg rest out "[]" False] by simp
next
  case single
  then show ?thesis using singleLoop_literal [of arg rest "[]"] by simp
next
  case double
  then show ?thesis using doubleLoop_escaped [of arg rest "[]"] by simp
qed

lemma tokenLoop_spaces:
  "\<forall>c \<in> set ws. IsSpace c \<Longrightarrow> tokenLoop (ws @ rest) out cur opn =
     (if ws = [] then tokenLoop rest out cur opn else if opn then tokenLoop rest (out @ [cur]) [] False else tokenLoop rest out cur opn)"
proof (induction ws arbitrary: out cur opn)
  case (Cons w ws)
  then show ?case by (cases ws) auto
qed simp

text \<open>A line: spellings, each with the white space before it.\<close>

definition lineOf :: "(rune list \<times> rune list) list \<Rightarrow> rune list" where
  "lineOf ps = concat (map (\<lambda>(ws, w). ws @ w) ps)"

lemma tokenLoop_line:
  assumes "list_all2 (\<lambda>(ws, w) arg. ws \<noteq> [] \<and> (\<forall>c \<in> set ws. IsSpace c) \<and> spells w arg) ps argv" and "\<forall>c \<in> set trail. IsSpace c"
  shows "tokenLoop (lineOf ps @ trail) out cur True = Inr (out @ [cur] @ argv)"
  using assms(1)
proof (induction ps argv arbitrary: out cur rule: list_all2_induct)
  case Nil
  then show ?case using tokenLoop_spaces [of trail "[]" out cur True] assms(2) by (simp add: lineOf_def)
next
  case (Cons p ps arg argv)
  obtain ws w where p: "p = (ws, w)" by (cases p)
  then have ws: "ws \<noteq> []" "\<forall>c \<in> set ws. IsSpace c" "spells w arg" using Cons.hyps by auto
  have "lineOf (p # ps) @ trail = ws @ w @ lineOf ps @ trail" using p by (simp add: lineOf_def)
  then show ?case using tokenLoop_spaces [OF ws(2), of "w @ lineOf ps @ trail" out cur True] ws(1) tokenLoop_spelling [OF ws(3)] Cons.IH by simp
qed

lemma Tokenise_line:
  assumes "list_all2 (\<lambda>(ws, w) arg. ws \<noteq> [] \<and> (\<forall>c \<in> set ws. IsSpace c) \<and> spells w arg) ps argv" and "spells w0 arg0"
    and "\<forall>c \<in> set lead \<union> set trail. IsSpace c"
  shows "Tokenise (lead @ w0 @ lineOf ps @ trail) = Inr (arg0 # argv)"
proof -
  have "Tokenise (lead @ w0 @ lineOf ps @ trail) = tokenLoop (w0 @ lineOf ps @ trail) [] [] False"
    using assms(3) tokenLoop_spaces [of lead "w0 @ lineOf ps @ trail" "[]" "[]" False] by (simp add: Tokenise_def)
  also have "\<dots> = Inr (arg0 # argv)"
    using tokenLoop_spelling [OF assms(2)] tokenLoop_line [OF assms(1), of trail "[]" arg0] assms(3) by simp
  finally show ?thesis .
qed

section \<open>Text\<close>

text \<open>
  Go's conversion of a string to code points and back: a byte that starts no valid UTF-8 sequence becomes
  U+FFFD, and a number that is no code point is written as U+FFFD.
\<close>

function runesOf :: "string \<Rightarrow> rune list" where
  "runesOf s = (if s = [] then [] else let (r, n) = decodeRune s in r # runesOf (drop n s))"
  by pat_completeness auto

termination runesOf
proof (relation "measure length")
  fix s x and r n :: nat
  assume "s \<noteq> []" "x = decodeRune s" "(r, n) = x"
  then show "(drop n s, s) \<in> measure length" using decodeRune_width [of s] by (cases "decodeRune s") auto
qed simp

declare runesOf.simps [simp del]

definition encodeRune :: "rune \<Rightarrow> string" where
  "encodeRune r = map char_of
     (if r < 128 then [r]
      else if r < 2048 then [192 + r div 64, 128 + r mod 64]
      else if 55296 \<le> r \<and> r \<le> 57343 \<or> 1114111 < r then [239, 191, 189]
      else if r < 65536 then [224 + r div 4096, 128 + r div 64 mod 64, 128 + r mod 64]
      else [240 + r div 262144, 128 + r div 4096 mod 64, 128 + r div 64 mod 64, 128 + r mod 64])"

definition stringOf :: "rune list \<Rightarrow> string" where
  "stringOf rs = concat (map encodeRune rs)"

definition TokeniseLine :: "string \<Rightarrow> token_err + string list" where
  "TokeniseLine line = map_sum id (map stringOf) (Tokenise (runesOf line))"

text \<open>ASCII text is its own list of code points.\<close>

lemma runesOf_ASCII: "\<forall>c \<in> set s. of_char c < (128::nat) \<Longrightarrow> runesOf s = map of_char s"
proof (induction s)
  case (Cons c s)
  then show ?case by (subst runesOf.simps) (simp add: decodeRune.simps)
qed (simp add: runesOf.simps)

lemma stringOf_ASCII: "\<forall>c \<in> set s. of_char c < (128::nat) \<Longrightarrow> stringOf (map of_char s) = s"
  by (induction s) (simp_all add: stringOf_def encodeRune_def)

text \<open>Every code point survives the way through a string.\<close>

lemma base64: "n = n div 64 * 64 + n mod (64::nat)"
  by simp

lemma decode_encode:
  assumes "r \<le> 1114111" and "\<not> (55296 \<le> r \<and> r \<le> 57343)"
  shows "decodeRune (encodeRune r @ rest) = (r, length (encodeRune r))"
proof -
  consider "r < 128" | "128 \<le> r" "r < 2048" | "2048 \<le> r" "r < 65536" | "65536 \<le> r" by linarith
  then show ?thesis
  proof cases
    case 1
    then show ?thesis by (simp add: encodeRune_def decodeRune.simps)
  next
    case 2
    define a b where "a = r div 64" and "b = r mod 64"
    have r: "r = a * 64 + b" unfolding a_def b_def by simp
    have "b < 64" "2 \<le> a" "a \<le> 31" using 2 by (auto simp: a_def b_def)
    moreover have "encodeRune r = map char_of [192 + a, 128 + b]" using 2 by (simp add: encodeRune_def a_def b_def)
    ultimately show ?thesis using r by (simp add: decodeRune.simps contByte_def)
  next
    case 3
    define a b c where "a = r div 4096" and "b = r div 64 mod 64" and "c = r mod 64"
    have "r = r div 64 * 64 + c" "r div 64 = a * 64 + b"
      using base64 [of "r div 64"] by (simp_all add: a_def b_def c_def div_mult2_eq [symmetric])
    then have r: "r = a * 4096 + b * 64 + c" by linarith
    have "b < 64" "c < 64" "a \<le> 15" using 3 by (auto simp: a_def b_def c_def)
    moreover have "a = 0 \<Longrightarrow> 32 \<le> b" "a = 13 \<Longrightarrow> b \<le> 31" using r 3 assms(2) calculation by linarith+
    moreover have "encodeRune r = map char_of [224 + a, 128 + b, 128 + c]" using 3 assms by (auto simp: encodeRune_def a_def b_def c_def)
    ultimately show ?thesis using r by (auto simp: decodeRune.simps contByte_def inRange_def)
  next
    case 4
    define a b c d where "a = r div 262144" and "b = r div 4096 mod 64" and "c = r div 64 mod 64" and "d = r mod 64"
    have "r = r div 64 * 64 + d" "r div 64 = r div 4096 * 64 + c" "r div 4096 = a * 64 + b"
      using base64 [of "r div 64"] base64 [of "r div 4096"] by (simp_all add: a_def b_def c_def d_def div_mult2_eq [symmetric])
    then have r: "r = a * 262144 + b * 4096 + c * 64 + d" by linarith
    have "b < 64" "c < 64" "d < 64" "a \<le> 4" using assms(1) by (auto simp: a_def b_def c_def d_def)
    moreover have "a = 0 \<Longrightarrow> 16 \<le> b" "a = 4 \<Longrightarrow> b \<le> 15" using r 4 assms(1) calculation by linarith+
    moreover have "encodeRune r = map char_of [240 + a, 128 + b, 128 + c, 128 + d]" using 4 assms by (auto simp: encodeRune_def a_def b_def c_def d_def)
    ultimately show ?thesis using r by (auto simp: decodeRune.simps contByte_def inRange_def)
  qed
qed

definition codePoint :: "rune \<Rightarrow> bool" where
  "codePoint r \<longleftrightarrow> r \<le> 1114111 \<and> \<not> (55296 \<le> r \<and> r \<le> 57343)"

lemma runesOf_string: "\<forall>r \<in> set rs. codePoint r \<Longrightarrow> runesOf (stringOf rs) = rs"
proof (induction rs)
  case (Cons r rs)
  have "encodeRune r \<noteq> []" by (simp add: encodeRune_def)
  then show ?case using Cons decode_encode [of r "stringOf rs"]
    by (subst runesOf.simps) (simp add: stringOf_def codePoint_def)
qed (simp add: runesOf.simps stringOf_def)

text \<open>
  Claim C31. Every text argument can be typed and is read back exactly: words written bare, in single quotes or
  in double quotes with escapes, whatever code points and however many (also none) they contain,
  separated by any white space, make a line that is tokenised to exactly the UTF-8 strings they spell.\<close>

theorem tokenise_roundtrip:
  assumes "list_all2 (\<lambda>(ws, w) arg. ws \<noteq> [] \<and> (\<forall>c \<in> set ws. IsSpace c) \<and> spells w arg) ps argv" and "spells w0 arg0"
    and "\<forall>c \<in> set lead \<union> set trail. IsSpace c" and "\<forall>c \<in> set (lead @ w0 @ lineOf ps @ trail). codePoint c"
  shows "TokeniseLine (stringOf (lead @ w0 @ lineOf ps @ trail)) = Inr (map stringOf (arg0 # argv))"
  using runesOf_string [OF assms(4)] Tokenise_line [OF assms(1-3)] by (simp add: TokeniseLine_def)

text \<open>The line \<open>set "a\"b"  'c d' ""\<close>.\<close>

theorem tokenise_roundtrip_witness:
  "TokeniseLine (stringOf [115, 101, 116, 32, 34, 97, 92, 34, 98, 34, 32, 32, 39, 99, 32, 100, 39, 32, 34, 34]) =
     Inr (map stringOf [[115, 101, 116], [97, 34, 98], [99, 32, 100], []])"
proof -
  have s: "spells [115, 101, 116] [115, 101, 116]" by (rule bare) (simp_all add: IsSpace_def)
  have d: "spells (dquote # escaped [97, 34, 98] @ [dquote]) [97, 34, 98]" "spells (dquote # escaped [] @ [dquote]) []" by (rule double)+
  have q: "spells (squote # [99, 32, 100] @ [squote]) [99, 32, 100]" by (rule single) simp
  let ?ps = "[([32], dquote # escaped [97, 34, 98] @ [dquote]), ([32, 32], squote # [99, 32, 100] @ [squote]), ([32], dquote # escaped [] @ [dquote])]"
  have "TokeniseLine (stringOf ([] @ [115, 101, 116] @ lineOf ?ps @ [])) = Inr (map stringOf ([115, 101, 116] # [[97, 34, 98], [99, 32, 100], []]))"
    by (rule tokenise_roundtrip [OF _ s]) (use d q in \<open>simp_all add: IsSpace_def codePoint_def lineOf_def escaped_def\<close>)
  then show ?thesis by (simp add: lineOf_def escaped_def)
qed

end
