(* ===== verification/Tui.thy ===== *)
theory Tui
  imports Respfmt Cmdparse
begin

text \<open>
  The terminal UI (\<^verbatim>\<open>internal/tui\<close>): the model, the reducer \<^verbatim>\<open>Update\<close> and the commands it starts. Bubble Tea, which
  runs the commands and feeds their messages back, and its text input are not part of the repository: the effect of a
  key on the text input is an argument, and commands are values. Rendering is left out.
\<close>

section \<open>model.go, messages.go\<close>

datatype mode = ModeNormal | ModeFilter | ModeNewKV | ModeEdit | ModeExpire | ModeRawCmd | ModeConfirm | ModeAuth

datatype confirmAction = ConfirmNone | ConfirmFlushDB | ConfirmDel

datatype focus = FocusLeft | FocusRight

datatype layoutKind = LayoutWide | LayoutMid | LayoutNarrow | LayoutStack | LayoutTiny

record keyInfo =
  ki_Name :: string
  ki_TTL :: int
  ki_Size :: int
  ki_Kind :: string

record replPeer =
  rp_addr :: string
  rp_state :: string
  rp_off :: int
  rp_lag :: int

record replStatus =
  rs_role :: string
  rs_off :: int
  rs_peers :: "replPeer list"

record infoStatus =
  is_dbsize :: int
  is_fsync :: string
  is_uptime :: int
  is_clients :: int
  is_repl :: replStatus

record statusLine =
  sl_Addr :: string
  sl_DBSize :: int
  sl_FsyncLabel :: string
  sl_FsyncOverride :: string
  sl_Uptime :: int
  sl_Clients :: int
  sl_Latency :: int

text \<open>\<open>m_masked\<close> is the echo mode of the text input, whose value is \<open>m_input\<close>.\<close>

record model =
  m_keys :: "keyInfo list"
  m_cursor :: int
  m_filter :: string
  m_focused :: string
  m_value :: resp_value
  m_hasVal :: bool
  m_pageCursor :: "64 word"
  m_nextCursor :: "64 word"
  m_cursorStack :: "64 word list"
  m_pageCount :: int
  m_mode :: mode
  m_input :: string
  m_masked :: bool
  m_confirm :: confirmAction
  m_prompt :: string
  m_status :: statusLine
  m_repl :: replStatus
  m_err :: string
  m_width :: int
  m_height :: int
  m_focus :: focus
  m_showHelp :: bool
  m_valueScroll :: int
  m_tickN :: "64 word"
  m_fetchGen :: "64 word"

definition noRepl :: replStatus where
  "noRepl = \<lparr>rs_role = [], rs_off = 0, rs_peers = []\<rparr>"

definition noInfo :: infoStatus where
  "noInfo = \<lparr>is_dbsize = 0, is_fsync = [], is_uptime = 0, is_clients = 0, is_repl = noRepl\<rparr>"

definition defaultPageCount :: int where "defaultPageCount = 50"

definition NewModel :: "string \<Rightarrow> string \<Rightarrow> model" where
  "NewModel addr fsyncOverride =
     \<lparr>m_keys = [], m_cursor = 0, m_filter = [], m_focused = [], m_value = RUnknown (CHR 0x00), m_hasVal = False,
      m_pageCursor = 0, m_nextCursor = 0, m_cursorStack = [], m_pageCount = defaultPageCount, m_mode = ModeNormal,
      m_input = [], m_masked = False, m_confirm = ConfirmNone, m_prompt = [],
      m_status = \<lparr>sl_Addr = addr, sl_DBSize = 0, sl_FsyncLabel = [], sl_FsyncOverride = fsyncOverride, sl_Uptime = 0,
                  sl_Clients = 0, sl_Latency = 0\<rparr>,
      m_repl = noRepl, m_err = [], m_width = 0, m_height = 0, m_focus = FocusLeft, m_showHelp = False,
      m_valueScroll = 0, m_tickN = 0, m_fetchGen = 1\<rparr>"

definition breakpoint :: "model \<Rightarrow> layoutKind" where
  "breakpoint m =
     (if m_width m < 60 \<or> m_height m < 16 then LayoutTiny
      else if m_width m \<ge> 120 then LayoutWide
      else if m_width m \<ge> 100 then LayoutMid
      else if m_width m \<ge> 80 then LayoutNarrow
      else LayoutStack)"

definition colWidths :: "int \<Rightarrow> model \<Rightarrow> int \<times> int \<times> int" where
  "colWidths leftWidth m =
     (let ttl = 7;
          size = (case breakpoint m of LayoutWide \<Rightarrow> 7 | LayoutMid \<Rightarrow> 7 | LayoutStack \<Rightarrow> 7 | _ \<Rightarrow> 0);
          cols = 2 + (if size > 0 then 1 else 0);
          name = leftWidth - 2 - ttl - size - 2 * (cols - 1)
      in (if name < 8 then 8 else name, size, ttl))"

record refreshMsg =
  rf_keys :: "keyInfo list"
  rf_nextCursor :: "64 word"
  rf_value :: resp_value
  rf_hasVal :: bool
  rf_info :: infoStatus
  rf_latency :: int
  rf_err :: string
  rf_gen :: "64 word"

record replyMsg =
  ry_value :: resp_value
  ry_latency :: int
  ry_err :: string
  ry_refresh :: bool

datatype msg = WindowSizeMsg int int | TickMsg "64 word" | RefreshMsg refreshMsg | ReplyMsg replyMsg | KeyMsg string | OtherMsg

text \<open>
  Commands: nothing, leaving the program, a timer, a refresh (pattern, cursor, count, focused key, generation), a
  command for the server, and the text input's own.
\<close>

datatype cmd = CNone | CQuit | CTick "64 word" | CFetch string "64 word" int string "64 word" | CRun "string list" | CInput

section \<open>update.go\<close>

definition fetchOf :: "model \<Rightarrow> cmd" where
  "fetchOf m = CFetch (m_filter m) (m_pageCursor m) (m_pageCount m) (m_focused m) (m_fetchGen m)"

definition tuiInit :: "model \<Rightarrow> cmd list" where
  "tuiInit m = [fetchOf m, CTick (m_tickN m + 1)]"

definition scheduleFetch :: "model \<Rightarrow> model \<times> cmd" where
  "scheduleFetch m = (let m' = m\<lparr>m_fetchGen := m_fetchGen m + 1\<rparr> in (m', fetchOf m'))"

definition resetPaging :: "model \<Rightarrow> model" where
  "resetPaging m = m\<lparr>m_pageCursor := 0, m_nextCursor := 0, m_cursorStack := [], m_cursor := 0\<rparr>"

definition enterAuthPrompt :: "model \<Rightarrow> model" where
  "enterAuthPrompt m =
     (if m_mode m = ModeAuth then m
      else m\<lparr>m_mode := ModeAuth, m_prompt := ''password: '', m_masked := True, m_input := []\<rparr>)"

definition isNoAuth :: "string \<Rightarrow> bool" where
  "isNoAuth e = (take 6 e = ''NOAUTH'')"

text \<open>Indexing the key list; \<^const>\<open>None\<close> is the panic of an index out of range.\<close>

definition nameAt :: "model \<Rightarrow> int \<Rightarrow> string option" where
  "nameAt m i = (if 0 \<le> i \<and> i < int (length (m_keys m)) then Some (ki_Name (m_keys m ! nat i)) else None)"

definition focusAt :: "int \<Rightarrow> model \<Rightarrow> model option" where
  "focusAt i m = map_option (\<lambda>n. m\<lparr>m_cursor := i, m_focused := n, m_hasVal := False\<rparr>) (nameAt m i)"

definition enterInput :: "mode \<Rightarrow> string \<Rightarrow> string \<Rightarrow> model \<Rightarrow> model" where
  "enterInput md prompt initial m = m\<lparr>m_mode := md, m_prompt := prompt, m_input := initial\<rparr>"

definition turnPage :: "64 word \<Rightarrow> 64 word list \<Rightarrow> model \<Rightarrow> model \<times> cmd" where
  "turnPage cur stack m =
     scheduleFetch (m\<lparr>m_cursorStack := stack, m_pageCursor := cur, m_cursor := 0, m_focused := [], m_hasVal := False, m_valueScroll := 0\<rparr>)"

definition handleNormalKey :: "string \<Rightarrow> model \<Rightarrow> (model \<times> cmd) option" where
  "handleNormalKey k m =
     (if m_showHelp m
      then (if k \<in> {''q'', ''ctrl+c''} then Some (m, CQuit)
            else if k \<in> {''?'', ''esc''} then Some (m\<lparr>m_showHelp := False\<rparr>, CNone)
            else Some (m, CNone))
      else if k \<in> {''q'', ''ctrl+c''} then Some (m, CQuit)
      else if k = ''?'' then Some (m\<lparr>m_showHelp := True\<rparr>, CNone)
      else if k = ''tab''
      then Some (if breakpoint m = LayoutStack
                 then m\<lparr>m_focus := (if m_focus m = FocusLeft then FocusRight else FocusLeft)\<rparr> else m, CNone)
      else if k = ''g''
      then (if m_keys m \<noteq> [] then map_option scheduleFetch (focusAt 0 m) else Some (m, CNone))
      else if k = ''G''
      then (if m_keys m \<noteq> [] then map_option scheduleFetch (focusAt (int (length (m_keys m)) - 1) m) else Some (m, CNone))
      else if k \<in> {''j'', ''down''}
      then (if breakpoint m = LayoutStack \<and> m_focus m = FocusRight then Some (m\<lparr>m_valueScroll := m_valueScroll m + 1\<rparr>, CNone)
            else if m_cursor m < int (length (m_keys m)) - 1
            then map_option (\<lambda>m'. scheduleFetch (m'\<lparr>m_valueScroll := 0\<rparr>)) (focusAt (m_cursor m + 1) m)
            else Some (m, CNone))
      else if k \<in> {''k'', ''up''}
      then (if breakpoint m = LayoutStack \<and> m_focus m = FocusRight
            then Some (if m_valueScroll m > 0 then m\<lparr>m_valueScroll := m_valueScroll m - 1\<rparr> else m, CNone)
            else if m_cursor m > 0
            then map_option (\<lambda>m'. scheduleFetch (m'\<lparr>m_valueScroll := 0\<rparr>)) (focusAt (m_cursor m - 1) m)
            else Some (m, CNone))
      else if k = ''r'' then Some (scheduleFetch m)
      else if k \<in> {'']'', ''pgdown''}
      then Some (if m_nextCursor m \<noteq> 0 then turnPage (m_nextCursor m) (m_cursorStack m @ [m_pageCursor m]) m else (m, CNone))
      else if k \<in> {''['', ''pgup''}
      then Some (if m_cursorStack m \<noteq> [] then turnPage (last (m_cursorStack m)) (butlast (m_cursorStack m)) m else (m, CNone))
      else if k = ''/'' then Some (enterInput ModeFilter ''match (glob): '' (m_filter m) m, CNone)
      else if k = ''n'' then Some (enterInput ModeNewKV ''SET key value: '' [] m, CNone)
      else if k = ''e''
      then Some (if m_focused m = [] then m else enterInput ModeEdit (''new value for '' @ m_focused m @ '': '') [] m, CNone)
      else if k = ''t''
      then Some (if m_focused m = [] then m else enterInput ModeExpire (''EXPIRE '' @ m_focused m @ '' seconds: '') [] m, CNone)
      else if k = ''d''
      then Some (if m_focused m = [] then m
                 else m\<lparr>m_mode := ModeConfirm, m_confirm := ConfirmDel, m_prompt := ''DEL '' @ m_focused m @ '' ? (y/N)''\<rparr>, CNone)
      else if k = ''F'' then Some (m\<lparr>m_mode := ModeConfirm, m_confirm := ConfirmFlushDB, m_prompt := ''FLUSHDB ? (y/N)''\<rparr>, CNone)
      else if k = ''i'' then Some (m, if m_focused m = [] then CNone else CRun [''INCR'', m_focused m])
      else if k = ''D'' then Some (m, if m_focused m = [] then CNone else CRun [''DECR'', m_focused m])
      else if k = '':'' then Some (enterInput ModeRawCmd '': '' [] m, CNone)
      else Some (m, CNone))"

definition handleConfirmKey :: "string \<Rightarrow> model \<Rightarrow> model \<times> cmd" where
  "handleConfirmKey k m =
     (let back = m\<lparr>m_mode := ModeNormal, m_confirm := ConfirmNone, m_prompt := []\<rparr>
      in if k \<in> {''y'', ''Y''}
         then (case m_confirm m of
                 ConfirmFlushDB \<Rightarrow> ((resetPaging back)\<lparr>m_focused := []\<rparr>, CRun [''FLUSHDB''])
               | ConfirmDel \<Rightarrow> (back, CRun [''DEL'', m_focused m])
               | ConfirmNone \<Rightarrow> (back, CNone))
         else if k \<in> {''n'', ''N'', ''esc'', ''q''} then (back, CNone)
         else (m, CNone))"

definition closeInput :: "model \<Rightarrow> model" where
  "closeInput m = m\<lparr>m_mode := ModeNormal, m_prompt := [], m_input := [], m_masked := False\<rparr>"

definition tokenErrText :: "token_err \<Rightarrow> string" where
  "tokenErrText e = (case e of UnterminatedDouble \<Rightarrow> ''unterminated double-quoted string'' | UnterminatedSingle \<Rightarrow> ''unterminated single-quoted string'')"

definition submitInput :: "model \<Rightarrow> model \<times> cmd" where
  "submitInput m0 =
     (let val = trimSpace (m_input m0); m = closeInput m0
      in case m_mode m0 of
           ModeAuth \<Rightarrow> (m, if val = [] then CNone else CRun [''AUTH'', val])
         | ModeFilter \<Rightarrow> scheduleFetch ((resetPaging (m\<lparr>m_filter := val\<rparr>))\<lparr>m_focused := [], m_hasVal := False\<rparr>)
         | ModeNewKV \<Rightarrow>
             (case TokeniseLine val of
                Inl e \<Rightarrow> (m\<lparr>m_err := ''SET needs key and value''\<rparr>, CNone)
              | Inr argv \<Rightarrow>
                  if length argv < 2 then (m\<lparr>m_err := ''SET needs key and value''\<rparr>, CNone) else (m, CRun (''SET'' # argv)))
         | ModeEdit \<Rightarrow> (m, if m_focused m0 = [] then CNone else CRun [''SET'', m_focused m0, val])
         | ModeExpire \<Rightarrow>
             (if m_focused m0 = [] then (m, CNone)
              else if parseInt val = None then (m\<lparr>m_err := ''EXPIRE: seconds must be integer''\<rparr>, CNone)
              else (m, CRun [''EXPIRE'', m_focused m0, val]))
         | ModeRawCmd \<Rightarrow>
             (case TokeniseLine val of
                Inl e \<Rightarrow> (m\<lparr>m_err := ''parse: '' @ tokenErrText e\<rparr>, CNone)
              | Inr argv \<Rightarrow> (m, if argv = [] then CNone else CRun argv))
         | _ \<Rightarrow> (m, CNone))"

text \<open>\<open>typed v k\<close> is the value of the text input after key \<open>k\<close>.\<close>

definition handleInputKey :: "(string \<Rightarrow> string \<Rightarrow> string) \<Rightarrow> string \<Rightarrow> model \<Rightarrow> model \<times> cmd" where
  "handleInputKey typed k m =
     (if k = ''esc'' then (closeInput m, CNone)
      else if k = ''enter'' then submitInput m
      else (m\<lparr>m_input := typed (m_input m) k\<rparr>, CInput))"

definition handleKey :: "(string \<Rightarrow> string \<Rightarrow> string) \<Rightarrow> string \<Rightarrow> model \<Rightarrow> (model \<times> cmd) option" where
  "handleKey typed k m =
     (case m_mode m of
        ModeNormal \<Rightarrow> handleNormalKey k m
      | ModeConfirm \<Rightarrow> Some (handleConfirmKey k m)
      | _ \<Rightarrow> Some (handleInputKey typed k m))"

text \<open>The successful branch of a refresh.\<close>

definition applyRefresh :: "refreshMsg \<Rightarrow> model \<Rightarrow> model option" where
  "applyRefresh rf m0 =
     (let m1 = m0\<lparr>m_err := [], m_keys := rf_keys rf, m_nextCursor := rf_nextCursor rf,
                  m_status := (m_status m0)\<lparr>sl_DBSize := is_dbsize (rf_info rf), sl_Uptime := is_uptime (rf_info rf),
                    sl_Clients := is_clients (rf_info rf), sl_FsyncLabel := is_fsync (rf_info rf)\<rparr>,
                  m_repl := is_repl (rf_info rf)\<rparr>;
          n = int (length (rf_keys rf));
          m2 = (if m_cursor m1 \<ge> n then m1\<lparr>m_cursor := (if n - 1 < 0 then 0 else n - 1)\<rparr> else m1)
      in map_option (\<lambda>m3. if rf_hasVal rf then m3\<lparr>m_value := rf_value rf, m_hasVal := True\<rparr> else m3)
           (if rf_keys rf = [] then Some (m2\<lparr>m_focused := [], m_hasVal := False\<rparr>)
            else map_option (\<lambda>name. m2\<lparr>m_focused := name\<rparr>) (nameAt m2 (m_cursor m2))))"

definition setLatency :: "int \<Rightarrow> model \<Rightarrow> model" where
  "setLatency d m = m\<lparr>m_status := (m_status m)\<lparr>sl_Latency := d\<rparr>\<rparr>"

fun tuiUpdate :: "(string \<Rightarrow> string \<Rightarrow> string) \<Rightarrow> msg \<Rightarrow> model \<Rightarrow> (model \<times> cmd) option" where
  "tuiUpdate typed (WindowSizeMsg w h) m = Some (m\<lparr>m_width := w, m_height := h\<rparr>, CNone)"
| "tuiUpdate typed (TickMsg n) m =
     (if n \<noteq> m_tickN m + 1 then Some (m, CNone)
      else let m1 = m\<lparr>m_tickN := n\<rparr>
           in Some (if m_mode m1 = ModeAuth then (m1, CTick (m_tickN m1 + 1)) else scheduleFetch m1))"
| "tuiUpdate typed (RefreshMsg rf) m =
     (if rf_gen rf \<noteq> 0 \<and> rf_gen rf \<noteq> m_fetchGen m then Some (m, CNone)
      else map_option (\<lambda>m1. let m2 = setLatency (rf_latency rf) m1 in (m2, CTick (m_tickN m2 + 1)))
             (if rf_err rf \<noteq> []
              then Some (let m1 = m\<lparr>m_hasVal := False\<rparr>
                         in if isNoAuth (rf_err rf) then enterAuthPrompt m1 else m1\<lparr>m_err := ''refresh: '' @ rf_err rf\<rparr>)
              else applyRefresh rf m))"
| "tuiUpdate typed (ReplyMsg ry) m =
     (if ry_err ry \<noteq> [] \<and> isNoAuth (ry_err ry) then Some (enterAuthPrompt (setLatency (ry_latency ry) m), CNone)
      else let m1 = setLatency (ry_latency ry) (m\<lparr>m_err := ry_err ry\<rparr>)
           in Some (if ry_refresh ry then scheduleFetch m1 else (m1, CNone)))"
| "tuiUpdate typed (KeyMsg k) m = handleKey typed k m"
| "tuiUpdate typed OtherMsg m = Some (m, CNone)"

section \<open>The model stays consistent\<close>

text \<open>
  The cursor is inside the key list (or 0), the focused key is the one under the cursor, the text input is masked exactly
  while it takes a password, and a confirmation prompt always has an action.
\<close>

definition tui_ok :: "model \<Rightarrow> bool" where
  "tui_ok m \<longleftrightarrow>
     0 \<le> m_cursor m \<and> (m_cursor m = 0 \<or> m_cursor m < int (length (m_keys m))) \<and>
     (m_focused m \<noteq> [] \<longrightarrow> nameAt m (m_cursor m) = Some (m_focused m)) \<and>
     (m_masked m \<longleftrightarrow> m_mode m = ModeAuth) \<and> (m_mode m = ModeConfirm \<longrightarrow> m_confirm m \<noteq> ConfirmNone) \<and> 0 \<le> m_valueScroll m"

lemma nameAt_upd [simp]:
  "nameAt (m\<lparr>m_cursor := c\<rparr>) i = nameAt m i" "nameAt (m\<lparr>m_focused := f\<rparr>) i = nameAt m i" "nameAt (m\<lparr>m_hasVal := b\<rparr>) i = nameAt m i"
  "nameAt (m\<lparr>m_mode := md\<rparr>) i = nameAt m i" "nameAt (m\<lparr>m_prompt := s\<rparr>) i = nameAt m i" "nameAt (m\<lparr>m_input := s\<rparr>) i = nameAt m i"
  "nameAt (m\<lparr>m_masked := b\<rparr>) i = nameAt m i" "nameAt (m\<lparr>m_confirm := a\<rparr>) i = nameAt m i" "nameAt (m\<lparr>m_valueScroll := n\<rparr>) i = nameAt m i"
  "nameAt (m\<lparr>m_fetchGen := g\<rparr>) i = nameAt m i" "nameAt (m\<lparr>m_tickN := g\<rparr>) i = nameAt m i" "nameAt (m\<lparr>m_pageCursor := g\<rparr>) i = nameAt m i"
  "nameAt (m\<lparr>m_nextCursor := g\<rparr>) i = nameAt m i" "nameAt (m\<lparr>m_cursorStack := gs\<rparr>) i = nameAt m i" "nameAt (m\<lparr>m_err := s\<rparr>) i = nameAt m i"
  "nameAt (m\<lparr>m_status := sl\<rparr>) i = nameAt m i" "nameAt (m\<lparr>m_repl := rs\<rparr>) i = nameAt m i" "nameAt (m\<lparr>m_value := v\<rparr>) i = nameAt m i"
  "nameAt (m\<lparr>m_filter := s\<rparr>) i = nameAt m i" "nameAt (m\<lparr>m_focus := fo\<rparr>) i = nameAt m i" "nameAt (m\<lparr>m_showHelp := b\<rparr>) i = nameAt m i"
  "nameAt (m\<lparr>m_width := n\<rparr>) i = nameAt m i" "nameAt (m\<lparr>m_height := n\<rparr>) i = nameAt m i"
  by (simp_all add: nameAt_def)

text \<open>Fields the invariant does not mention.\<close>

lemma ok_upd [simp]:
  "tui_ok (m\<lparr>m_hasVal := b\<rparr>) = tui_ok m" "tui_ok (m\<lparr>m_prompt := s\<rparr>) = tui_ok m" "tui_ok (m\<lparr>m_input := s\<rparr>) = tui_ok m"
  "tui_ok (m\<lparr>m_fetchGen := g\<rparr>) = tui_ok m" "tui_ok (m\<lparr>m_tickN := g\<rparr>) = tui_ok m" "tui_ok (m\<lparr>m_pageCursor := g\<rparr>) = tui_ok m"
  "tui_ok (m\<lparr>m_nextCursor := g\<rparr>) = tui_ok m" "tui_ok (m\<lparr>m_cursorStack := gs\<rparr>) = tui_ok m" "tui_ok (m\<lparr>m_err := s\<rparr>) = tui_ok m"
  "tui_ok (m\<lparr>m_status := sl\<rparr>) = tui_ok m" "tui_ok (m\<lparr>m_repl := rs\<rparr>) = tui_ok m" "tui_ok (m\<lparr>m_value := v\<rparr>) = tui_ok m"
  "tui_ok (m\<lparr>m_filter := s\<rparr>) = tui_ok m" "tui_ok (m\<lparr>m_focus := fo\<rparr>) = tui_ok m" "tui_ok (m\<lparr>m_showHelp := b\<rparr>) = tui_ok m"
  "tui_ok (m\<lparr>m_width := n\<rparr>) = tui_ok m" "tui_ok (m\<lparr>m_height := n\<rparr>) = tui_ok m"
  by (simp_all add: tui_ok_def)

lemma new_ok: "tui_ok (NewModel addr fs)"
  by (simp add: tui_ok_def NewModel_def)

lemma fetch_ok [simp]: "tui_ok (fst (scheduleFetch m)) = tui_ok m"
  by (simp add: scheduleFetch_def Let_def)

text \<open>A step that does not panic and keeps the invariant.\<close>

definition safe :: "(model \<times> cmd) option \<Rightarrow> bool" where
  "safe r \<longleftrightarrow> (\<exists>m c. r = Some (m, c) \<and> tui_ok m)"

lemma safe_Some [simp]: "safe (Some p) = tui_ok (fst p)"
  by (cases p) (simp add: safe_def)

lemma safe_if: "(P \<Longrightarrow> safe a) \<Longrightarrow> (\<not> P \<Longrightarrow> safe b) \<Longrightarrow> safe (if P then a else b)"
  by simp

lemma focus_safe:
  assumes "tui_ok m" and "0 \<le> i" and "i < int (length (m_keys m))"
  shows "safe (map_option scheduleFetch (focusAt i m))" and "safe (map_option (\<lambda>x. scheduleFetch (x\<lparr>m_valueScroll := 0\<rparr>)) (focusAt i m))"
proof -
  obtain n where n: "nameAt m i = Some n" using assms(2,3) by (simp add: nameAt_def)
  let ?m = "m\<lparr>m_cursor := i, m_focused := n\<rparr>"
  have "tui_ok (?m\<lparr>m_hasVal := False\<rparr>)" "tui_ok (?m\<lparr>m_hasVal := False, m_valueScroll := 0\<rparr>)" using assms n by (simp_all add: tui_ok_def)
  moreover have "focusAt i m = Some (?m\<lparr>m_hasVal := False\<rparr>)" using n by (simp add: focusAt_def)
  ultimately show "safe (map_option scheduleFetch (focusAt i m))" "safe (map_option (\<lambda>x. scheduleFetch (x\<lparr>m_valueScroll := 0\<rparr>)) (focusAt i m))"
    by simp_all
qed

lemma page_ok: "tui_ok m \<Longrightarrow> tui_ok (fst (turnPage cur st m))"
  unfolding turnPage_def fetch_ok by (simp add: tui_ok_def)

lemma prompt_ok:
  "tui_ok m \<Longrightarrow> m_mode m = ModeNormal \<Longrightarrow> md \<noteq> ModeAuth \<Longrightarrow> md \<noteq> ModeConfirm \<Longrightarrow> tui_ok (enterInput md p s m)"
  "tui_ok m \<Longrightarrow> m_mode m = ModeNormal \<Longrightarrow> a \<noteq> ConfirmNone \<Longrightarrow> tui_ok (m\<lparr>m_mode := ModeConfirm, m_confirm := a, m_prompt := p\<rparr>)"
  "tui_ok m \<Longrightarrow> tui_ok (closeInput m)" "tui_ok m \<Longrightarrow> tui_ok (enterAuthPrompt m)"
  "tui_ok m \<Longrightarrow> m_mode m \<noteq> ModeAuth \<Longrightarrow> tui_ok (m\<lparr>m_mode := ModeNormal, m_confirm := a, m_prompt := p\<rparr>)"
  by (auto simp: tui_ok_def enterInput_def closeInput_def enterAuthPrompt_def)

lemma scroll_ok: "tui_ok m \<Longrightarrow> 0 \<le> n \<Longrightarrow> tui_ok (m\<lparr>m_valueScroll := n\<rparr>)"
  by (simp add: tui_ok_def)

lemma okD: "tui_ok m \<Longrightarrow> 0 \<le> m_cursor m" "tui_ok m \<Longrightarrow> m_cursor m \<noteq> 0 \<Longrightarrow> m_cursor m < int (length (m_keys m))" "tui_ok m \<Longrightarrow> 0 \<le> m_valueScroll m"
  by (auto simp: tui_ok_def)

lemma normal_ok:
  assumes ok: "tui_ok m" and md: "m_mode m = ModeNormal"
  shows "safe (handleNormalKey k m)"
proof -
  note d = okD [OF ok]
  have stay: "safe (Some (m, c))" for c using ok by simp
  have toggle: "safe (Some (m\<lparr>m_showHelp := b\<rparr>, c))" for b c using ok by simp
  have pane: "safe (Some (if P then m\<lparr>m_focus := f\<rparr> else m, c))" for P f c using ok by simp
  have ends: "m_keys m \<noteq> [] \<Longrightarrow> safe (map_option scheduleFetch (focusAt 0 m))"
    "m_keys m \<noteq> [] \<Longrightarrow> safe (map_option scheduleFetch (focusAt (int (length (m_keys m)) - 1) m))"
    using focus_safe(1) [OF ok] by (simp_all add: Suc_le_eq)
  have down: "m_cursor m < int (length (m_keys m)) - 1 \<Longrightarrow> safe (map_option (\<lambda>x. scheduleFetch (x\<lparr>m_valueScroll := 0\<rparr>)) (focusAt (m_cursor m + 1) m))"
    using focus_safe(2) [OF ok] d(1) by simp
  have up: "m_cursor m > 0 \<Longrightarrow> safe (map_option (\<lambda>x. scheduleFetch (x\<lparr>m_valueScroll := 0\<rparr>)) (focusAt (m_cursor m - 1) m))"
    using focus_safe(2) [OF ok, of "m_cursor m - 1"] d(2) by simp
  have scroll: "safe (Some (m\<lparr>m_valueScroll := m_valueScroll m + 1\<rparr>, c))"
    "safe (Some (if m_valueScroll m > 0 then m\<lparr>m_valueScroll := m_valueScroll m - 1\<rparr> else m, c))" for c
    using ok d(3) scroll_ok [OF ok] by simp_all
  have fetch: "safe (Some (scheduleFetch m))" using ok by simp
  have page: "safe (Some (if P then turnPage cur st m else (m, c)))" for P cur st c using ok page_ok [OF ok] by simp
  have prompt: "safe (Some (enterInput ModeFilter p i m, c))" "safe (Some (enterInput ModeNewKV p i m, c))" "safe (Some (enterInput ModeRawCmd p i m, c))"
    "safe (Some (if P then m else enterInput ModeEdit p i m, c))" "safe (Some (if P then m else enterInput ModeExpire p i m, c))" for P p i c
    using ok prompt_ok(1) [OF ok md] by simp_all
  have confirm: "safe (Some (if P then m else m\<lparr>m_mode := ModeConfirm, m_confirm := ConfirmDel, m_prompt := p\<rparr>, c))"
    "safe (Some (m\<lparr>m_mode := ModeConfirm, m_confirm := ConfirmFlushDB, m_prompt := p\<rparr>, c))" for P p c
    using ok prompt_ok(2) [OF ok md] by simp_all
  show ?thesis
    unfolding handleNormalKey_def
    by (intro safe_if; (rule stay toggle pane scroll fetch page prompt confirm | (rule ends down up, assumption)))
qed

lemma confirm_ok:
  assumes "tui_ok m" and "m_mode m = ModeConfirm"
  shows "tui_ok (fst (handleConfirmKey k m))"
  using assms by (auto simp: handleConfirmKey_def resetPaging_def tui_ok_def Let_def split: confirmAction.splits)

lemma submit_ok: "tui_ok m \<Longrightarrow> tui_ok (fst (submitInput m))"
proof -
  assume "tui_ok m"
  then have c: "tui_ok (closeInput m)" by (rule prompt_ok)
  then have "tui_ok ((resetPaging ((closeInput m)\<lparr>m_filter := v\<rparr>))\<lparr>m_focused := [], m_hasVal := False\<rparr>)" for v
    by (simp add: resetPaging_def tui_ok_def)
  with c show "tui_ok (fst (submitInput m))" by (auto simp: submitInput_def Let_def split: mode.split sum.split)
qed

lemma input_ok: "tui_ok m \<Longrightarrow> tui_ok (fst (handleInputKey typed k m))"
  by (simp add: handleInputKey_def prompt_ok submit_ok)

lemma key_ok: "tui_ok m \<Longrightarrow> safe (handleKey typed k m)"
  using normal_ok [of m k] confirm_ok [of m k] input_ok [of m typed k] by (auto simp: handleKey_def split: mode.split)

lemma refresh_ok:
  assumes "tui_ok m"
  shows "\<exists>m'. applyRefresh rf m = Some m' \<and> tui_ok m'"
proof (cases "rf_keys rf = []")
  case True
  then show ?thesis using assms by (simp add: applyRefresh_def tui_ok_def Let_def)
next
  case False
  then have "0 < int (length (rf_keys rf))" by simp
  then show ?thesis using False assms by (auto simp: applyRefresh_def tui_ok_def nameAt_def Let_def)
qed

lemma update_ok: "tui_ok m \<Longrightarrow> safe (tuiUpdate typed msg m)"
proof (cases msg)
  case (RefreshMsg rf)
  assume ok: "tui_ok m"
  obtain m' where "applyRefresh rf m = Some m'" "tui_ok m'" using refresh_ok [OF ok] by blast
  then show ?thesis using ok RefreshMsg prompt_ok(4) by (simp add: setLatency_def Let_def)
qed (auto simp: key_ok prompt_ok setLatency_def Let_def)

section \<open>The program and its commands\<close>

text \<open>
  A run of the program: commands in flight finish in any order and at any time, each with a message of its kind and
  whatever content, while keys are pressed and the window changes. \<open>m\<close> is the model and \<open>cs\<close> the commands in flight.
\<close>

inductive tuiRun :: "(string \<Rightarrow> string \<Rightarrow> string) \<Rightarrow> model \<Rightarrow> cmd list \<Rightarrow> bool" for typed where
  tui_start: "m = NewModel addr fs \<Longrightarrow> tuiRun typed m (tuiInit m)"
| tui_user: "tuiRun typed m cs \<Longrightarrow> (\<exists>k. msg = KeyMsg k) \<or> (\<exists>w h. msg = WindowSizeMsg w h) \<or> msg = OtherMsg \<Longrightarrow>
    tuiUpdate typed msg m = Some (m', c) \<Longrightarrow> tuiRun typed m' (cs @ [c])"
| tui_tick: "tuiRun typed m cs \<Longrightarrow> CTick n \<in> set cs \<Longrightarrow> tuiUpdate typed (TickMsg n) m = Some (m', c) \<Longrightarrow>
    tuiRun typed m' (remove1 (CTick n) cs @ [c])"
| tui_fetch: "tuiRun typed m cs \<Longrightarrow> CFetch p cur cnt f g \<in> set cs \<Longrightarrow> rf_gen rf = g \<Longrightarrow>
    tuiUpdate typed (RefreshMsg rf) m = Some (m', c) \<Longrightarrow> tuiRun typed m' (remove1 (CFetch p cur cnt f g) cs @ [c])"
| tui_reply: "tuiRun typed m cs \<Longrightarrow> CRun argv \<in> set cs \<Longrightarrow> ry_refresh ry \<Longrightarrow>
    tuiUpdate typed (ReplyMsg ry) m = Some (m', c) \<Longrightarrow> tuiRun typed m' (remove1 (CRun argv) cs @ [c])"

lemma run_ok: "tuiRun typed m cs \<Longrightarrow> tui_ok m"
proof (induction rule: tuiRun.induct)
  case (tui_start m addr fs)
  then show ?case by (simp add: new_ok)
qed (metis safe_Some fst_conv update_ok)+

text \<open>
  Claim C28. The terminal UI never runs into an index out of range, whatever the user types and whatever the server answers
  or fails to answer, in any order: every message is handled, the cursor stays inside the list, the focused key is the
  one under the cursor, and the text input hides what is typed exactly while it asks for the password.\<close>

theorem tui_never_panics:
  assumes "tuiRun typed m cs"
  shows "tui_ok m \<and> (\<exists>m' c. tuiUpdate typed msg m = Some (m', c))"
  using run_ok [OF assms] update_ok [of m typed msg] by (auto simp: safe_def)

text \<open>The next refresh is on its way: a current timer or a current fetch is in flight.\<close>

definition ticking :: "model \<Rightarrow> cmd list \<Rightarrow> bool" where
  "ticking m cs \<longleftrightarrow> CTick (m_tickN m + 1) \<in> set cs \<or> (\<exists>p cur cnt f. CFetch p cur cnt f (m_fetchGen m) \<in> set cs)"

text \<open>A step that leaves the timer alone, and the fetch generation too unless it starts the fetch of a new one.\<close>

definition paced :: "model \<Rightarrow> (model \<times> cmd) option \<Rightarrow> bool" where
  "paced m r \<longleftrightarrow> (\<forall>m' c. r = Some (m', c) \<longrightarrow> m_tickN m' = m_tickN m \<and>
     (m_fetchGen m' = m_fetchGen m \<or> (\<exists>p cur cnt f. c = CFetch p cur cnt f (m_fetchGen m'))))"

lemma paced_if: "paced m a \<Longrightarrow> paced m b \<Longrightarrow> paced m (if P then a else b)"
  by simp

lemma paced_upd: "m_tickN x = m_tickN m \<Longrightarrow> m_fetchGen x = m_fetchGen m \<Longrightarrow> paced m (Some (x, c))"
  by (simp add: paced_def)

lemma paced_fetch: "m_tickN x = m_tickN m \<Longrightarrow> paced m (Some (scheduleFetch x))"
  by (simp add: paced_def scheduleFetch_def fetchOf_def Let_def)

lemma paced_focus:
  "paced m (map_option scheduleFetch (focusAt i m))" "paced m (map_option (\<lambda>x. scheduleFetch (x\<lparr>m_valueScroll := n\<rparr>)) (focusAt i m))"
  by (auto simp: paced_def scheduleFetch_def fetchOf_def focusAt_def Let_def)

lemma paced_page: "paced m (Some (if P then turnPage cur st m else (m, c)))"
  using paced_fetch [of "m\<lparr>m_cursorStack := st, m_pageCursor := cur, m_cursor := 0, m_focused := [], m_hasVal := False, m_valueScroll := 0\<rparr>" m]
    paced_upd [of m m c] by (simp add: turnPage_def)

lemma paced_normal: "paced m (handleNormalKey k m)"
  unfolding handleNormalKey_def
  by (intro paced_if; (rule paced_focus paced_page | (rule paced_fetch, rule refl) |
      (rule paced_upd; simp (no_asm) add: enterInput_def)))

lemma paced_key: "paced m (handleKey typed k m)"
proof -
  have "paced m (Some (handleConfirmKey k m))"
    by (auto simp: handleConfirmKey_def resetPaging_def paced_def Let_def split: confirmAction.splits)
  moreover have "paced m (Some (submitInput m))"
    using paced_fetch [of "(resetPaging ((closeInput m)\<lparr>m_filter := trimSpace (m_input m)\<rparr>))\<lparr>m_focused := [], m_hasVal := False\<rparr>" m]
    by (auto simp: submitInput_def closeInput_def resetPaging_def paced_def Let_def split: mode.split sum.split)
  then have "paced m (Some (handleInputKey typed k m))"
    by (auto simp: handleInputKey_def closeInput_def paced_def)
  ultimately show ?thesis using paced_normal by (simp add: handleKey_def split: mode.split)
qed

lemma paced_reply: "paced m (tuiUpdate typed (ReplyMsg ry) m)"
  using paced_fetch [of "setLatency (ry_latency ry) (m\<lparr>m_err := ry_err ry\<rparr>)" m]
  by (auto simp: paced_def setLatency_def enterAuthPrompt_def Let_def)

lemma ticking_paced:
  assumes "ticking m cs" and "tuiUpdate typed msg m = Some (m', c)" and "paced m (tuiUpdate typed msg m)"
    and "\<And>x. x \<in> set cs \<Longrightarrow> (\<exists>n. x = CTick n) \<or> (\<exists>p cur cnt f g. x = CFetch p cur cnt f g) \<Longrightarrow> x \<in> set cs'"
  shows "ticking m' (cs' @ [c])"
  using assms unfolding ticking_def paced_def by fastforce

text \<open>
  Claim C29. The refresh of the terminal UI never stops: at every moment of every run, in any mode and
  however many fetches were overtaken, answered late or failed, the timer or the fetch that will bring the next refresh is
  in flight, so that stale replies can be dropped without the screen going stale.\<close>

theorem refresh_never_stalls:
  assumes "tuiRun typed m cs"
  shows "CTick (m_tickN m + 1) \<in> set cs \<or> (\<exists>p cur cnt f. CFetch p cur cnt f (m_fetchGen m) \<in> set cs)"
proof -
  have "ticking m cs"
    using assms
  proof induction
    case (tui_start m addr fs)
    then show ?case by (simp add: ticking_def tuiInit_def fetchOf_def)
  next
    case (tui_user m cs msg m' c)
    have "paced m (tuiUpdate typed msg m)"
      using tui_user.hyps(2) paced_key by (auto intro!: paced_upd)
    then show ?case using ticking_paced [OF tui_user.IH tui_user.hyps(3)] by blast
  next
    case (tui_tick m cs n m' c)
    show ?case
    proof (cases "n = m_tickN m + 1")
      case True
      then have "c = CTick (m_tickN m' + 1) \<or> (\<exists>p cur cnt f. c = CFetch p cur cnt f (m_fetchGen m'))"
        using tui_tick.hyps(3) by (auto simp: scheduleFetch_def fetchOf_def Let_def split: if_splits)
      then show ?thesis by (auto simp: ticking_def)
    next
      case False
      then have "m' = m" using tui_tick.hyps(3) by simp
      then show ?thesis using tui_tick.IH False by (auto simp: ticking_def)
    qed
  next
    case (tui_fetch m cs p cur cnt f g rf m' c)
    show ?case
    proof (cases "g \<noteq> 0 \<and> g \<noteq> m_fetchGen m")
      case True
      then have "m' = m" using tui_fetch.hyps(3,4) by simp
      then show ?thesis using tui_fetch.IH True by (auto simp: ticking_def)
    next
      case False
      then have "c = CTick (m_tickN m' + 1)" using tui_fetch.hyps(3,4) by (auto simp: Let_def)
      then show ?thesis by (simp add: ticking_def)
    qed
  next
    case (tui_reply m cs argv ry m' c)
    have "x \<in> set (remove1 (CRun argv) cs)" if "x \<in> set cs" "x \<noteq> CRun argv" for x using that by simp
    then show ?case using ticking_paced [OF tui_reply.IH tui_reply.hyps(4) paced_reply, of "remove1 (CRun argv) cs"] by blast
  qed
  then show ?thesis by (simp add: ticking_def)
qed

section \<open>A prompt for one key, a command for another\<close>

text \<open>Another client deletes \<open>a\<close> while the prompt for it is open.\<close>

definition demoRow :: "string \<Rightarrow> keyInfo" where
  "demoRow n = \<lparr>ki_Name = n, ki_TTL = - 1, ki_Size = 0, ki_Kind = ''string''\<rparr>"

definition demoRefresh :: "string list \<Rightarrow> 64 word \<Rightarrow> refreshMsg" where
  "demoRefresh ns g = \<lparr>rf_keys = map demoRow ns, rf_nextCursor = 0, rf_value = RNullBulk, rf_hasVal = False, rf_info = noInfo,
     rf_latency = 0, rf_err = [], rf_gen = g\<rparr>"

abbreviation (input) demoTyped :: "string \<Rightarrow> string \<Rightarrow> string" where "demoTyped v k \<equiv> v @ k"

lemma demo_prompt:
  "\<exists>m cs. tuiRun demoTyped m cs \<and> m_mode m = ModeConfirm \<and> m_confirm m = ConfirmDel \<and> m_prompt m = ''DEL a ? (y/N)'' \<and> m_focused m = ''b''"
proof -
  let ?m0 = "NewModel [] []"
  obtain m1 where m1: "tuiUpdate demoTyped (RefreshMsg (demoRefresh [''a'', ''b''] 1)) ?m0 = Some (m1, CTick 1)"
    "m_mode m1 = ModeNormal" "m_focused m1 = ''a''" "\<not> m_showHelp m1" "m_tickN m1 = 0" "m_fetchGen m1 = 1" "m_cursor m1 = 0"
    by (simp add: demoRefresh_def NewModel_def applyRefresh_def nameAt_def setLatency_def demoRow_def Let_def)
  have r1: "tuiRun demoTyped m1 (remove1 (fetchOf ?m0) (tuiInit ?m0) @ [CTick 1])"
    unfolding fetchOf_def
    by (rule tui_fetch [OF tui_start [OF refl] _ _ m1(1)]) (simp_all add: tuiInit_def fetchOf_def demoRefresh_def NewModel_def)
  define m2 where "m2 = m1\<lparr>m_mode := ModeConfirm, m_confirm := ConfirmDel, m_prompt := ''DEL a ? (y/N)''\<rparr>"
  have k: "tuiUpdate demoTyped (KeyMsg ''d'') m1 = Some (m2, CNone)"
    using m1(2-4) by (simp add: handleKey_def handleNormalKey_def m2_def)
  let ?cs2 = "remove1 (fetchOf ?m0) (tuiInit ?m0) @ [CTick 1, CNone]"
  have r2: "tuiRun demoTyped m2 ?cs2" using tui_user [OF r1 _ k] by simp
  define m3 where "m3 = m2\<lparr>m_tickN := 1, m_fetchGen := 2\<rparr>"
  have t: "tuiUpdate demoTyped (TickMsg 1) m2 = Some (m3, fetchOf m3)"
    using m1(5,6) by (simp add: m2_def m3_def scheduleFetch_def Let_def)
  have r3: "tuiRun demoTyped m3 (remove1 (CTick 1) ?cs2 @ [fetchOf m3])" by (rule tui_tick [OF r2 _ t]) simp
  obtain m4 where m4: "tuiUpdate demoTyped (RefreshMsg (demoRefresh [''b''] 2)) m3 = Some (m4, CTick 2)"
    "m_mode m4 = ModeConfirm" "m_confirm m4 = ConfirmDel" "m_prompt m4 = ''DEL a ? (y/N)''" "m_focused m4 = ''b''"
    using m1(7) by (simp add: demoRefresh_def m3_def m2_def applyRefresh_def nameAt_def setLatency_def demoRow_def Let_def)
  have "tuiRun demoTyped m4 (remove1 (fetchOf m3) (remove1 (CTick 1) ?cs2 @ [fetchOf m3]) @ [CTick 2])"
    unfolding fetchOf_def [of m3]
    by (rule tui_fetch [OF r3 [unfolded fetchOf_def [of m3]] _ _ m4(1)]) (simp_all add: demoRefresh_def m3_def)
  then show ?thesis using m4(2-5) by blast
qed

text \<open>
  A confirmation can hit another key than the one it names: the prompt for deleting a key stays up while refreshes
  go on moving the focus, and the answer acts on the key focused then. When another client deletes the key in the
  meantime, confirming \<open>DEL a\<close> sends a DEL of the key that moved up into its row.\<close>

lemma confirm_deletes_other_key:
  "\<exists>m cs m'. tuiRun demoTyped m cs \<and> m_mode m = ModeConfirm \<and> m_prompt m = ''DEL a ? (y/N)'' \<and>
     tuiUpdate demoTyped (KeyMsg ''y'') m = Some (m', CRun [''DEL'', ''b''])"
proof -
  obtain m cs where "tuiRun demoTyped m cs" "m_mode m = ModeConfirm" "m_confirm m = ConfirmDel" "m_prompt m = ''DEL a ? (y/N)''" "m_focused m = ''b''"
    using demo_prompt by blast
  then show ?thesis by (auto simp: handleKey_def handleConfirmKey_def Let_def)
qed

theorem tui_never_panics_witness:
  "\<exists>m cs. tuiRun demoTyped m cs \<and> m_focused m = ''b'' \<and> tui_ok m \<and> (\<exists>m' c. tuiUpdate demoTyped (KeyMsg ''j'') m = Some (m', c))"
  using demo_prompt tui_never_panics by blast

theorem refresh_never_stalls_witness:
  "\<exists>m cs. tuiRun demoTyped m cs \<and> m_focused m = ''b'' \<and>
     (CTick (m_tickN m + 1) \<in> set cs \<or> (\<exists>p cur cnt f. CFetch p cur cnt f (m_fetchGen m) \<in> set cs))"
  using demo_prompt refresh_never_stalls by blast

end
