(* ===== verification/Client.thy ===== *)
theory Client
  imports Lifecycle
begin

text \<open>
  The client library (\<^verbatim>\<open>internal/client\<close>): a connection that sends one command and reads one reply, and
  the cluster client that follows NOTLEADER replies to the leader. The network is a parameter; one
  instance of it is a fleet of the servers of \<^verbatim>\<open>internal/server\<close>, on which client and server are
  proved to agree.
\<close>

section \<open>client.go\<close>

text \<open>
  \<open>nt_exchange c b\<close> sends \<open>b\<close> on connection \<open>c\<close>: \<^const>\<open>None\<close> when that fails, else what the peer then sends before it
  waits for more or closes. Reading past that is the end of the stream; a peer that stays
  silent for ever blocks the call and has no counterpart here.
\<close>

record 'w network =
  nt_dial :: "string \<Rightarrow> 'w \<Rightarrow> nat option \<times> 'w"
  nt_exchange :: "nat \<Rightarrow> bytes \<Rightarrow> 'w \<Rightarrow> bytes option \<times> 'w"
  nt_close :: "nat \<Rightarrow> 'w \<Rightarrow> 'w"

record client =
  cl_conn :: nat
  cl_in :: bytes
  cl_closed :: bool

datatype client_err = ClEmptyArgv | ClClosed | ClDial | ClWrite | ClRead resp_err | ClRedirect string

definition newClient :: "nat \<Rightarrow> client" where
  "newClient conn = \<lparr>cl_conn = conn, cl_in = [], cl_closed = False\<rparr>"

definition DialTimeout :: "'w network \<Rightarrow> string \<Rightarrow> 'w \<Rightarrow> (client_err + client) \<times> 'w" where
  "DialTimeout net addr w =
     (case nt_dial net addr w of
        (None, w') \<Rightarrow> (Inl ClDial, w')
      | (Some conn, w') \<Rightarrow> (Inr (newClient conn), w'))"

definition failLocked :: "'w network \<Rightarrow> client \<Rightarrow> 'w \<Rightarrow> client \<times> 'w" where
  "failLocked net c w = (if cl_closed c then (c, w) else (c\<lparr>cl_closed := True\<rparr>, nt_close net (cl_conn c) w))"

definition Client_DoBytes :: "floatlib \<Rightarrow> 'w network \<Rightarrow> bytes list \<Rightarrow> client \<Rightarrow> 'w \<Rightarrow> (client_err + resp_value) \<times> client \<times> 'w" where
  "Client_DoBytes F net argv c w =
     (if argv = [] then (Inl ClEmptyArgv, c, w)
      else if cl_closed c then (Inl ClClosed, c, w)
      else let (frame, ok) = WriteFrame F (RArray (map RBulk argv))
           in if \<not> ok then (Inl ClWrite, failLocked net c w)
              else case nt_exchange net (cl_conn c) frame w of
                     (None, w') \<Rightarrow> (Inl ClWrite, failLocked net c w')
                   | (Some b, w') \<Rightarrow>
                       (case ReadFrame F (cl_in c @ b) of
                          Inl e \<Rightarrow> (Inl (ClRead e), failLocked net c w')
                        | Inr (v, rest) \<Rightarrow> (Inr v, c\<lparr>cl_in := rest\<rparr>, w')))"

text \<open>\<open>closeOK\<close> is what closing the connection returned; the first component whether the call returned nil.\<close>

definition Client_Close :: "'w network \<Rightarrow> bool \<Rightarrow> client \<Rightarrow> 'w \<Rightarrow> bool \<times> client \<times> 'w" where
  "Client_Close net closeOK c w =
     (if cl_closed c then (True, c, w) else (closeOK, c\<lparr>cl_closed := True\<rparr>, nt_close net (cl_conn c) w))"

section \<open>cluster\_client.go\<close>

definition defaultMaxRedirects :: int where "defaultMaxRedirects = 8"
definition defaultBackoffBase :: int where "defaultBackoffBase = 10 * Millisecond"
definition defaultBackoffMax :: int where "defaultBackoffMax = 500 * Millisecond"

definition notLeaderPrefix :: string where "notLeaderPrefix = ''NOTLEADER ''"

record clusterClient =
  cc_inner :: client
  cc_addr :: string
  cc_maxRedirects :: int
  cc_backoffBase :: int
  cc_backoffMax :: int

definition DialClusterTimeout :: "'w network \<Rightarrow> string \<Rightarrow> 'w \<Rightarrow> (client_err + clusterClient) \<times> 'w" where
  "DialClusterTimeout net addr w =
     (case DialTimeout net addr w of
        (Inl e, w') \<Rightarrow> (Inl e, w')
      | (Inr inner, w') \<Rightarrow>
          (Inr \<lparr>cc_inner = inner, cc_addr = addr, cc_maxRedirects = defaultMaxRedirects,
                cc_backoffBase = defaultBackoffBase, cc_backoffMax = defaultBackoffMax\<rparr>, w'))"

definition isNotLeader :: "resp_value \<Rightarrow> bool" where
  "isNotLeader v = (case v of RError s \<Rightarrow> take (length notLeaderPrefix) s = notLeaderPrefix | _ \<Rightarrow> False)"

definition dialableHint :: "resp_value \<Rightarrow> string option" where
  "dialableHint v =
     (case v of
        RError s \<Rightarrow>
          if \<not> isNotLeader v then None
          else let hint = trimSpace (drop (length notLeaderPrefix) s)
               in if SplitHostPort hint = None then None else Some hint
      | _ \<Rightarrow> None)"

definition redialLocked :: "'w network \<Rightarrow> string \<Rightarrow> clusterClient \<Rightarrow> 'w \<Rightarrow> client_err option \<times> clusterClient \<times> 'w" where
  "redialLocked net addr cc w0 =
     (let (_, inner, w1) = Client_Close net True (cc_inner cc) w0
      in case DialTimeout net addr w1 of
           (Inl e, w2) \<Rightarrow> (Some (ClRedirect addr), cc\<lparr>cc_inner := inner\<rparr>, w2)
         | (Inr next, w2) \<Rightarrow> (None, cc\<lparr>cc_inner := next, cc_addr := addr\<rparr>, w2))"

text \<open>
  The time slept: shifting an int64 left drops the high bits. \<open>jitter k\<close> is what \<^verbatim>\<open>rng.Int63n(k)\<close> returns, a number
  from 0 to \<open>k - 1\<close>.
\<close>

definition sleepBackoff :: "(int \<Rightarrow> int) \<Rightarrow> clusterClient \<Rightarrow> nat \<Rightarrow> int" where
  "sleepBackoff jitter cc attempt =
     (let d0 = wrap64 (cc_backoffBase cc * 2 ^ attempt);
          d = (if d0 > cc_backoffMax cc \<or> d0 \<le> 0 then cc_backoffMax cc else d0)
      in if d \<le> 0 then 0 else d div 2 + jitter (d div 2 + 1))"

text \<open>
  The retry loop; \<open>jitters n\<close> is the generator at the \<open>n\<close>-th attempt. The last component of the result are
  the times slept, one for each retry.
\<close>

function doLoop ::
  "floatlib \<Rightarrow> 'w network \<Rightarrow> (nat \<Rightarrow> int \<Rightarrow> int) \<Rightarrow> bytes list \<Rightarrow> nat \<Rightarrow> clusterClient \<Rightarrow> 'w \<Rightarrow> int list \<Rightarrow>
   (client_err + resp_value) \<times> clusterClient \<times> 'w \<times> int list" where
  "doLoop F net jitters argv attempt cc w slept =
     (case Client_DoBytes F net argv (cc_inner cc) w of
        (Inl e, inner, w1) \<Rightarrow> (Inl e, cc\<lparr>cc_inner := inner\<rparr>, w1, slept)
      | (Inr v, inner, w1) \<Rightarrow>
          let cc1 = cc\<lparr>cc_inner := inner\<rparr>
          in if \<not> isNotLeader v \<or> int attempt \<ge> cc_maxRedirects cc then (Inr v, cc1, w1, slept)
             else let slept1 = slept @ [sleepBackoff (jitters attempt) cc1 attempt]
                  in case dialableHint v of
                       None \<Rightarrow> doLoop F net jitters argv (attempt + 1) cc1 w1 slept1
                     | Some hint \<Rightarrow>
                         (case redialLocked net hint cc1 w1 of
                            (Some e, cc2, w2) \<Rightarrow> (Inl e, cc2, w2, slept1)
                          | (None, cc2, w2) \<Rightarrow> doLoop F net jitters argv (attempt + 1) cc2 w2 slept1))"
  by pat_completeness auto

lemma redial_max:
  assumes "(e, cc2, w2) = redialLocked net hint cc w"
  shows "cc_maxRedirects cc2 = cc_maxRedirects cc"
  using assms by (auto simp: redialLocked_def Client_Close_def Let_def split: prod.splits sum.splits if_splits)

termination doLoop
  by (relation "measure (\<lambda>(F, net, js, argv, attempt, cc, w, slept). nat (cc_maxRedirects cc - int attempt))")
     (auto dest: redial_max)

declare doLoop.simps [simp del]

definition Cluster_DoBytes ::
  "floatlib \<Rightarrow> 'w network \<Rightarrow> (nat \<Rightarrow> int \<Rightarrow> int) \<Rightarrow> bytes list \<Rightarrow> clusterClient \<Rightarrow> 'w \<Rightarrow> (client_err + resp_value) \<times> clusterClient \<times> 'w \<times> int list" where
  "Cluster_DoBytes F net jitters argv cc w = doLoop F net jitters argv 0 cc w []"

section \<open>A client of a server\<close>

text \<open>
  A fleet: servers by address and their connections. What a connection receives is run through the
  loop of its server; \<open>envs a n\<close> is what the \<open>n\<close>-th exchange finds outside at the node \<open>a\<close>, \<open>prs a\<close> its Raft node.
\<close>

record fleet =
  ft_servers :: "(string \<times> server) list"
  ft_conns :: "(nat \<times> string \<times> connState) list"
  ft_next :: nat
  ft_clock :: nat

definition fleetDial :: "string \<Rightarrow> fleet \<Rightarrow> nat option \<times> fleet" where
  "fleetDial addr w =
     (case map_of (ft_servers w) addr of
        None \<Rightarrow> (None, w)
      | Some s \<Rightarrow>
          (Some (ft_next w),
           w\<lparr>ft_conns := (ft_next w, addr, newConnState (ft_next w + 1) (sv_requirePass s = [])) # ft_conns w, ft_next := ft_next w + 1\<rparr>))"

definition fleetExchange ::
  "floatlib \<Rightarrow> (string \<Rightarrow> propose) \<Rightarrow> (string \<Rightarrow> nat \<Rightarrow> env) \<Rightarrow> nat \<Rightarrow> bytes \<Rightarrow> fleet \<Rightarrow> bytes option \<times> fleet" where
  "fleetExchange F prs envs conn b w =
     (case map_of (ft_conns w) conn of
        None \<Rightarrow> (None, w)
      | Some (addr, cs) \<Rightarrow>
          (case map_of (ft_servers w) addr of
             None \<Rightarrow> (None, w)
           | Some s \<Rightarrow>
               (case connLoop F (prs addr) (\<lambda>n. envs addr (ft_clock w + n)) (\<lambda>n. True) b (0, cs, s, []) of
                  None \<Rightarrow> (None, w)
                | Some (out, cs', s') \<Rightarrow>
                    (Some out, w\<lparr>ft_servers := AList.update addr s' (ft_servers w),
                                 ft_conns := AList.update conn (addr, cs') (ft_conns w), ft_clock := ft_clock w + 1\<rparr>))))"

definition fleetNet :: "floatlib \<Rightarrow> (string \<Rightarrow> propose) \<Rightarrow> (string \<Rightarrow> nat \<Rightarrow> env) \<Rightarrow> fleet network" where
  "fleetNet F prs envs =
     \<lparr>nt_dial = fleetDial, nt_exchange = fleetExchange F prs envs,
      nt_close = (\<lambda>conn w. w\<lparr>ft_conns := AList.delete conn (ft_conns w)\<rparr>)\<rparr>"

text \<open>A reply as the peer of a connection at protocol \<open>p\<close> reads it.\<close>

definition asRead :: "floatlib \<Rightarrow> proto \<Rightarrow> resp_value \<Rightarrow> resp_value" where
  "asRead F p r = (if p = Proto2 then downgrade F r else r)"

lemma read_reply:
  assumes "wire_ok F MaxDepth (asRead F p r)"
  shows "snd (WriteFrameProto F p r)" and "ReadFrame F (fst (WriteFrameProto F p r) @ rest) = Inr (asRead F p r, rest)"
proof -
  have "WriteFrameProto F p r = WriteFrameProto F Proto3 (asRead F p r)"
    by (cases p) (simp_all add: asRead_def write_downgrade(1))
  then show "snd (WriteFrameProto F p r)" "ReadFrame F (fst (WriteFrameProto F p r) @ rest) = Inr (asRead F p r, rest)"
    using read_write(1) [OF refl assms, of rest] by (simp_all add: ReadFrame_def)
qed

lemma connLoop_one:
  assumes "command_ok argv" and "dispatch pr (envs 0) cs argv s = Some (r, cs', s')" and "snd (WriteFrameProto F (cs_proto cs') r)"
  shows "connLoop F pr envs (\<lambda>n. True) (fst (WriteFrame F (RArray (map RBulk argv)))) (0, cs, s, []) =
    Some (fst (WriteFrameProto F (cs_proto cs') r), cs', s')"
proof -
  have "connLoop F pr envs (\<lambda>n. True) [] (1, cs', s', b) = Some (b, cs', s')" for b
    by (subst connLoop_step) (simp add: ReadCommand_def ReadFrame_def MaxDepth_def numeral_eq_Suc readByte_def connEnd_def)
  then show ?thesis
    using WriteFrame_command(2) [OF assms(1), of F "[]"] assms(2,3)
    by (subst connLoop_step) (simp add: connStep_def case_prod_beta)
qed

text \<open>The connection \<open>c\<close> of a client reaches the server \<open>s\<close> at \<open>addr\<close>, which holds the state \<open>cs\<close> for it.\<close>

definition connected :: "fleet \<Rightarrow> client \<Rightarrow> string \<Rightarrow> connState \<Rightarrow> server \<Rightarrow> bool" where
  "connected w c addr cs s \<longleftrightarrow>
     \<not> cl_closed c \<and> cl_in c = [] \<and> map_of (ft_conns w) (cl_conn c) = Some (addr, cs) \<and> map_of (ft_servers w) addr = Some s"

lemma fleet_call:
  assumes "connected w c addr cs s" and "command_ok argv"
    and "dispatch (prs addr) (envs addr (ft_clock w)) cs argv s = Some (r, cs', s')" and "wire_ok F MaxDepth (asRead F (cs_proto cs') r)"
  shows "Client_DoBytes F (fleetNet F prs envs) argv c w = (Inr (asRead F (cs_proto cs') r), c,
      w\<lparr>ft_servers := AList.update addr s' (ft_servers w), ft_conns := AList.update (cl_conn c) (addr, cs') (ft_conns w), ft_clock := ft_clock w + 1\<rparr>)"
proof -
  have "argv \<noteq> []" using assms(2) by (auto simp: command_ok_def)
  moreover have "connLoop F (prs addr) (\<lambda>n. envs addr (ft_clock w + n)) (\<lambda>n. True) (fst (WriteFrame F (RArray (map RBulk argv)))) (0, cs, s, []) =
      Some (fst (WriteFrameProto F (cs_proto cs') r), cs', s')"
    by (rule connLoop_one [OF assms(2)]) (simp_all add: assms(3) read_reply(1) [OF assms(4)])
  ultimately show ?thesis
    using assms(1) WriteFrame_command(1) [OF assms(2), of F] read_reply(2) [OF assms(4), of "[]"]
    by (simp add: Client_DoBytes_def connected_def fleetNet_def fleetExchange_def case_prod_beta)
qed

text \<open>Calls in sequence, up to the first that fails.\<close>

fun session :: "floatlib \<Rightarrow> 'w network \<Rightarrow> bytes list list \<Rightarrow> client \<Rightarrow> 'w \<Rightarrow> (client_err + resp_value list) \<times> client \<times> 'w" where
  "session F net [] c w = (Inr [], c, w)"
| "session F net (argv # cmds) c w =
     (case Client_DoBytes F net argv c w of
        (Inl e, c', w') \<Rightarrow> (Inl e, c', w')
      | (Inr v, c', w') \<Rightarrow>
          (case session F net cmds c' w' of
             (Inl e, c'', w'') \<Rightarrow> (Inl e, c'', w'')
           | (Inr vs, c'', w'') \<Rightarrow> (Inr (v # vs), c'', w'')))"

lemma session_converse:
  assumes "connected w c addr cs s" and "\<forall>argv \<in> set cmds. command_ok argv"
    and "converse (prs addr) (\<lambda>m. envs addr (t + m)) cmds n cs s = Some (rs, cs', s')" and "t + n = ft_clock w"
    and "\<forall>(r, p) \<in> set rs. wire_ok F MaxDepth (asRead F p r)"
  shows "\<exists>w'. session F (fleetNet F prs envs) cmds c w = (Inr (map (\<lambda>(r, p). asRead F p r) rs), c, w') \<and>
    connected w' c addr cs' s' \<and> (\<forall>a. a \<noteq> addr \<longrightarrow> map_of (ft_servers w') a = map_of (ft_servers w) a)"
  using assms
proof (induction cmds arbitrary: w n cs s rs)
  case (Cons argv cmds)
  obtain r cs1 s1 where d: "dispatch (prs addr) (envs addr (t + n)) cs argv s = Some (r, cs1, s1)"
    using Cons.prems(3) by (auto split: option.splits)
  obtain rs1 where rs: "rs = (r, cs_proto cs1) # rs1"
    "converse (prs addr) (\<lambda>m. envs addr (t + m)) cmds (Suc n) cs1 s1 = Some (rs1, cs', s')"
    using Cons.prems(3) d by auto
  let ?w = "w\<lparr>ft_servers := AList.update addr s1 (ft_servers w), ft_conns := AList.update (cl_conn c) (addr, cs1) (ft_conns w),
      ft_clock := ft_clock w + 1\<rparr>"
  have call: "Client_DoBytes F (fleetNet F prs envs) argv c w = (Inr (asRead F (cs_proto cs1) r), c, ?w)"
    using fleet_call [OF Cons.prems(1), of argv prs envs r cs1 s1 F] Cons.prems(2,4,5) d rs(1) by simp
  have "connected ?w c addr cs1 s1" using Cons.prems(1) by (simp add: connected_def)
  from Cons.IH [OF this _ rs(2)] Cons.prems(2,4,5) rs(1)
  obtain w' where "session F (fleetNet F prs envs) cmds c ?w = (Inr (map (\<lambda>(r, p). asRead F p r) rs1), c, w')"
    "connected w' c addr cs' s'" "\<forall>a. a \<noteq> addr \<longrightarrow> map_of (ft_servers w') a = map_of (ft_servers ?w) a" by auto
  then show ?case using call rs(1) by (auto simp: update_conv)
qed auto

text \<open>
  Claim C9. Client and server agree: a client that dials a server of the fleet and sends commands gets, in
  order, exactly the replies the dispatcher gives to these commands, as values (RESP2 downgrades
  before a HELLO 3, the values themselves after it); the server ends in the state the commands
  lead to, and no other server is touched. The conditions: every command is within the limits of
  the server's reader, no command blocks for ever, and every reply is within the limits of
  the client's reader and is one frame on the wire, with no line end inside a simple string or an error
  (the error for an unknown command whose name has one is two frames).\<close>

theorem client_session:
  assumes "map_of (ft_servers w) addr = Some s" and "\<forall>argv \<in> set cmds. command_ok argv"
    and "converse (prs addr) (\<lambda>m. envs addr (ft_clock w + m)) cmds 0 (newConnState (ft_next w + 1) (sv_requirePass s = [])) s = Some (rs, cs', s')"
    and "\<forall>(r, p) \<in> set rs. wire_ok F MaxDepth (asRead F p r)"
  shows "\<exists>c w1 w'. DialTimeout (fleetNet F prs envs) addr w = (Inr c, w1) \<and>
    session F (fleetNet F prs envs) cmds c w1 = (Inr (map (\<lambda>(r, p). asRead F p r) rs), c, w') \<and>
    map_of (ft_servers w') = (map_of (ft_servers w))(addr \<mapsto> s')"
proof -
  let ?c = "newClient (ft_next w)" and ?w = "snd (fleetDial addr w)"
  have d: "DialTimeout (fleetNet F prs envs) addr w = (Inr ?c, ?w)" "ft_clock ?w = ft_clock w" "ft_servers ?w = ft_servers w"
    using assms(1) by (simp_all add: DialTimeout_def fleetNet_def fleetDial_def)
  have "connected ?w ?c addr (newConnState (ft_next w + 1) (sv_requirePass s = [])) s"
    using assms(1) by (simp add: connected_def newClient_def fleetDial_def)
  from session_converse [where prs = prs and envs = envs and t = "ft_clock w" and n = 0, OF this assms(2,3) _ assms(4)] d(2)
  obtain w' where w': "session F (fleetNet F prs envs) cmds ?c ?w = (Inr (map (\<lambda>(r, p). asRead F p r) rs), ?c, w')"
    "connected w' ?c addr cs' s'" "\<forall>a. a \<noteq> addr \<longrightarrow> map_of (ft_servers w') a = map_of (ft_servers ?w) a" by auto
  have "map_of (ft_servers w') = (map_of (ft_servers w))(addr \<mapsto> s')"
    using w'(2,3) d(3) by (auto simp: fun_eq_iff connected_def)
  then show ?thesis using d(1) w'(1) by blast
qed

definition demoFleet :: "(string \<times> server) list \<Rightarrow> fleet" where
  "demoFleet ss = \<lparr>ft_servers = ss, ft_conns = [], ft_next = 0, ft_clock = 0\<rparr>"

theorem client_session_witness:
  "\<exists>c w1 w'. DialTimeout (fleetNet noFloat (\<lambda>a. noPropose) (\<lambda>a n. demoEnv 5)) ''h:1'' (demoFleet [(''h:1'', demoServer None demoWorld)]) = (Inr c, w1) \<and>
     session noFloat (fleetNet noFloat (\<lambda>a. noPropose) (\<lambda>a n. demoEnv 5)) [[''PING''], [''GET'', ''k'']] c w1 =
       (Inr [RString ''PONG'', RError ''NOAUTH Authentication required.''], c, w')"
proof -
  let ?s = "demoServer None demoWorld" and ?w = "demoFleet [(''h:1'', demoServer None demoWorld)]"
  have s: "map_of (ft_servers ?w) ''h:1'' = Some ?s" by (simp add: demoFleet_def)
  have cv: "converse noPropose (\<lambda>m. demoEnv 5) [[''PING''], [''GET'', ''k'']] 0 (newConnState (ft_next ?w + 1) (sv_requirePass ?s = [])) ?s =
      Some ([(RString ''PONG'', Proto2), (RError ''NOAUTH Authentication required.'', Proto2)], newConnState 1 False, ?s)"
    by (simp add: dispatch_def commands_def mkHandler_def onRead_def cmdPing_def newConnState_def demoServer_def demoFleet_def)
  have "\<exists>c w1 w'. DialTimeout (fleetNet noFloat (\<lambda>a. noPropose) (\<lambda>a n. demoEnv 5)) ''h:1'' ?w = (Inr c, w1) \<and>
      session noFloat (fleetNet noFloat (\<lambda>a. noPropose) (\<lambda>a n. demoEnv 5)) [[''PING''], [''GET'', ''k'']] c w1 =
        (Inr (map (\<lambda>(r, p). asRead noFloat p r) [(RString ''PONG'', Proto2), (RError ''NOAUTH Authentication required.'', Proto2)]), c, w') \<and>
      map_of (ft_servers w') = (map_of (ft_servers ?w))(''h:1'' \<mapsto> ?s)"
    by (rule client_session [where prs = "\<lambda>a. noPropose" and envs = "\<lambda>a n. demoEnv 5" and addr = "''h:1''", OF s _ cv]) (simp_all add: small_command asRead_def readerBufSize_def MaxDepth_def numeral_eq_Suc)
  then show ?thesis by (auto simp: asRead_def)
qed

section \<open>Redirects end\<close>

text \<open>A network that records what is asked of it, beside doing it.\<close>

datatype netCall = NDial string | NSend nat bytes | NClose nat

definition traced :: "'w network \<Rightarrow> ('w \<times> netCall list) network" where
  "traced net =
     \<lparr>nt_dial = (\<lambda>a (w, l). case nt_dial net a w of (r, w') \<Rightarrow> (r, w', l @ [NDial a])),
      nt_exchange = (\<lambda>c b (w, l). case nt_exchange net c b w of (r, w') \<Rightarrow> (r, w', l @ [NSend c b])),
      nt_close = (\<lambda>c (w, l). (nt_close net c w, l @ [NClose c]))\<rparr>"

fun sends :: "netCall list \<Rightarrow> bytes list" where
  "sends [] = []"
| "sends (NSend c b # l) = b # sends l"
| "sends (_ # l) = sends l"

fun dials :: "netCall list \<Rightarrow> string list" where
  "dials [] = []"
| "dials (NDial a # l) = a # dials l"
| "dials (_ # l) = dials l"

lemma sends_append [simp]: "sends (l @ m) = sends l @ sends m"
  by (induction l rule: sends.induct) simp_all

lemma dials_append [simp]: "dials (l @ m) = dials l @ dials m"
  by (induction l rule: dials.induct) simp_all

lemma traced_call:
  assumes "Client_DoBytes F net argv c w = (r, c', w')"
  shows "\<exists>new k. Client_DoBytes F (traced net) argv c (w, l) = (r, c', w', l @ new) \<and> dials new = [] \<and>
    sends new = replicate k (fst (WriteFrame F (RArray (map RBulk argv)))) \<and> k \<le> 1 \<and> (\<forall>v. r = Inr v \<longrightarrow> k = 1)"
proof (cases "argv = [] \<or> cl_closed c \<or> \<not> snd (WriteFrame F (RArray (map RBulk argv)))")
  case True
  then show ?thesis using assms
    by (intro exI [of _ "if argv \<noteq> [] \<and> \<not> cl_closed c then [NClose (cl_conn c)] else []"] exI [of _ 0])
      (auto simp: Client_DoBytes_def failLocked_def traced_def Let_def case_prod_beta split: if_splits)
next
  case False
  let ?b = "fst (WriteFrame F (RArray (map RBulk argv)))"
  obtain a w1 where x: "nt_exchange net (cl_conn c) ?b w = (a, w1)" by fastforce
  define fails where "fails \<longleftrightarrow> (case a of None \<Rightarrow> True | Some b \<Rightarrow> (\<exists>e. ReadFrame F (cl_in c @ b) = Inl e))"
  show ?thesis using assms False x
    by (intro exI [of _ "NSend (cl_conn c) ?b # (if fails then [NClose (cl_conn c)] else [])"] exI [of _ 1])
      (auto simp: fails_def Client_DoBytes_def failLocked_def traced_def Let_def case_prod_beta split: option.splits sum.splits)
qed

lemma traced_redial:
  assumes "redialLocked net hint cc w = (e, cc', w')"
  shows "\<exists>new. redialLocked (traced net) hint cc (w, l) = (e, cc', w', l @ new) \<and> dials new = [hint] \<and> sends new = []"
  using assms
  by (intro exI [of _ "(if cl_closed (cc_inner cc) then [] else [NClose (cl_conn (cc_inner cc))]) @ [NDial hint]"])
    (auto simp: redialLocked_def Client_Close_def DialTimeout_def traced_def Let_def case_prod_beta split: option.splits if_splits prod.splits)

text \<open>The limits of a client that was dialled, which it keeps for life.\<close>

definition dialled :: "clusterClient \<Rightarrow> bool" where
  "dialled cc \<longleftrightarrow> cc_maxRedirects cc = 8 \<and> cc_backoffBase cc = 10 * Millisecond \<and> cc_backoffMax cc = 500 * Millisecond"

lemma DialClusterTimeout_dialled: "DialClusterTimeout net addr w = (Inr cc, w') \<Longrightarrow> dialled cc"
  by (auto simp: DialClusterTimeout_def dialled_def defaultMaxRedirects_def defaultBackoffBase_def defaultBackoffMax_def
      split: prod.splits sum.splits)

lemma redial_keeps: "redialLocked net hint cc w = (e, cc2, w2) \<Longrightarrow> dialled cc \<Longrightarrow> dialled cc2"
  by (auto simp: dialled_def redialLocked_def Client_Close_def Let_def split: prod.splits sum.splits if_splits)

definition pause :: "nat \<Rightarrow> int" where
  "pause n = min (10 * 2 ^ n) 500 * Millisecond"

lemma sleepBackoff_pause:
  assumes "\<And>k. 0 < k \<Longrightarrow> 0 \<le> jitter k \<and> jitter k < k" and "dialled cc" and "n < 8"
  shows "pause n div 2 \<le> sleepBackoff jitter cc n \<and> sleepBackoff jitter cc n \<le> pause n"
proof -
  have "n = 0 \<or> n = 1 \<or> n = 2 \<or> n = 3 \<or> n = 4 \<or> n = 5 \<or> n = 6 \<or> n = 7" using assms(3) by linarith
  then have "wrap64 (cc_backoffBase cc * 2 ^ n) = 10 * 2 ^ n * Millisecond"
    using assms(2) by (elim disjE) (simp_all add: dialled_def Millisecond_def wrap64_def)
  then have "sleepBackoff jitter cc n = pause n div 2 + jitter (pause n div 2 + 1)"
    using assms(2) by (auto simp: sleepBackoff_def dialled_def pause_def Let_def Millisecond_def min_def)
  moreover have "0 < pause n" by (simp add: pause_def Millisecond_def)
  ultimately show ?thesis using assms(1) [of "pause n div 2 + 1"] by linarith
qed

text \<open>What the attempts from the \<open>n\<close>-th on may do: the calls they make and the pauses between them.\<close>

definition bounded_calls :: "bytes \<Rightarrow> nat \<Rightarrow> client_err + resp_value \<Rightarrow> netCall list \<Rightarrow> int list \<Rightarrow> bool" where
  "bounded_calls frame n res calls ps \<longleftrightarrow>
     n + length ps \<le> 8 \<and> (\<forall>i < length ps. pause (n + i) div 2 \<le> ps ! i \<and> ps ! i \<le> pause (n + i)) \<and>
     length (dials calls) \<le> length ps \<and>
     (\<exists>k. sends calls = replicate k frame \<and> k \<le> length ps + 1 \<and> (\<forall>v. res = Inr v \<longrightarrow> k = length ps + 1)) \<and>
     (\<forall>v. res = Inr v \<and> isNotLeader v \<longrightarrow> n + length ps = 8)"

lemma bounded_retry:
  assumes "bounded_calls frame (n + 1) res calls ps" and "pause n div 2 \<le> d" and "d \<le> pause n"
    and "sends pre = [frame]" and "length (dials pre) \<le> 1"
  shows "bounded_calls frame n res (pre @ calls) (d # ps)"
proof -
  have "pause (n + i) div 2 \<le> (d # ps) ! i \<and> (d # ps) ! i \<le> pause (n + i)" if "i < length (d # ps)" for i
    using assms(1-3) that by (cases i) (auto simp: bounded_calls_def)
  moreover obtain k where "sends calls = replicate k frame" "k \<le> length ps + 1" "\<forall>v. res = Inr v \<longrightarrow> k = length ps + 1"
    using assms(1) by (auto simp: bounded_calls_def)
  then have "\<exists>k. sends (pre @ calls) = replicate k frame \<and> k \<le> length (d # ps) + 1 \<and> (\<forall>v. res = Inr v \<longrightarrow> k = length (d # ps) + 1)"
    using assms(4) by (intro exI [of _ "Suc k"]) auto
  ultimately show ?thesis using assms(1,5) by (auto simp: bounded_calls_def)
qed

lemma doLoop_bounded:
  assumes "doLoop F net js argv n cc w slept = (res, cc', w', slept')" and "\<And>n k. 0 < k \<Longrightarrow> 0 \<le> js n k \<and> js n k < k"
    and "dialled cc" and "n \<le> 8"
  shows "\<exists>calls ps. doLoop F (traced net) js argv n cc (w, l) slept = (res, cc', (w', l @ calls), slept') \<and> slept' = slept @ ps \<and>
    dialled cc' \<and> bounded_calls (fst (WriteFrame F (RArray (map RBulk argv)))) n res calls ps"
  using assms(1,3,4)
proof (induction "8 - n" arbitrary: n cc w slept l rule: less_induct)
  case less
  let ?b = "fst (WriteFrame F (RArray (map RBulk argv)))"
  obtain r inner w1 where c: "Client_DoBytes F net argv (cc_inner cc) w = (r, inner, w1)" by (metis prod.collapse)
  obtain pre k where t: "Client_DoBytes F (traced net) argv (cc_inner cc) (w, l) = (r, inner, w1, l @ pre)" "dials pre = []"
    "sends pre = replicate k ?b" "k \<le> 1" "\<forall>v. r = Inr v \<longrightarrow> k = 1" using traced_call [OF c, of l] by blast
  let ?cc = "cc\<lparr>cc_inner := inner\<rparr>" and ?d = "sleepBackoff (js n) (cc\<lparr>cc_inner := inner\<rparr>) n"
  have dl: "dialled ?cc" "cc_maxRedirects cc = 8" using less.prems(2) by (simp_all add: dialled_def)
  note run = less.prems(1) [unfolded doLoop.simps [of F net js argv n] c]
  note trun = doLoop.simps [of F "traced net" js argv n cc "(w, l)" slept, unfolded t(1)]
  show ?case
  proof (cases "\<exists>v. r = Inr v \<and> isNotLeader v \<and> n < 8")
    case False
    then show ?thesis using run trun t dl less.prems(3)
      by (intro exI [of _ pre] exI [of _ "[]"]) (cases r; auto simp: Let_def bounded_calls_def split: if_splits)
  next
    case True
    then obtain v where v: "r = Inr v" "isNotLeader v" "n < 8" by blast
    have d: "pause n div 2 \<le> ?d" "?d \<le> pause n" using sleepBackoff_pause [of "js n" ?cc n] assms(2) dl(1) v(3) by simp_all
    have again: "\<exists>calls ps. doLoop F (traced net) js argv (n + 1) cc2 (w2, l @ p) (slept @ [?d]) = (res, cc', (w', l @ calls), slept') \<and>
        slept' = slept @ ps \<and> dialled cc' \<and> bounded_calls ?b n res calls ps"
      if go: "doLoop F net js argv (n + 1) cc2 w2 (slept @ [?d]) = (res, cc', w', slept')" and k: "dialled cc2"
        and p: "sends p = [?b]" "length (dials p) \<le> 1" for cc2 w2 p
    proof -
      have "8 - (n + 1) < 8 - n" "n + 1 \<le> 8" using v(3) by simp_all
      from less.hyps [OF this(1) go k this(2), of "l @ p"] obtain calls ps where
        "doLoop F (traced net) js argv (n + 1) cc2 (w2, l @ p) (slept @ [?d]) = (res, cc', (w', (l @ p) @ calls), slept')"
        "slept' = (slept @ [?d]) @ ps" "dialled cc'" "bounded_calls ?b (n + 1) res calls ps" by blast
      then show ?thesis using bounded_retry [OF _ d p] by (intro exI [of _ "p @ calls"] exI [of _ "?d # ps"]) simp
    qed
    show ?thesis
    proof (cases "dialableHint v")
      case None
      then show ?thesis using run trun v dl t again [of ?cc w1 pre] by (simp add: Let_def)
    next
      case (Some hint)
      obtain e cc2 w2 where r: "redialLocked net hint ?cc w1 = (e, cc2, w2)" by (metis prod.collapse)
      obtain q where q: "redialLocked (traced net) hint ?cc (w1, l @ pre) = (e, cc2, w2, (l @ pre) @ q)" "dials q = [hint]" "sends q = []"
        using traced_redial [OF r, of "l @ pre"] by blast
      note k = redial_keeps [OF r dl(1)]
      show ?thesis
      proof (cases e)
        case None
        then show ?thesis using run trun v dl Some r q t again [of cc2 w2 "pre @ q"] k by (simp add: Let_def)
      next
        case (Some err)
        then show ?thesis using run trun v dl \<open>dialableHint v = Some hint\<close> r q t k d
          by (intro exI [of _ "pre @ q"] exI [of _ "[?d]"]) (auto simp: Let_def bounded_calls_def intro!: exI [of _ "Suc 0"])
      qed
    qed
  qed
qed

text \<open>
  Claim C10. A call of a dialled cluster client ends, whatever the network and the nodes do: it retries at
  most 8 times and pauses before each retry, before the one after attempt \<open>n\<close> at least half of and at
  most \<open>min (10 * 2 ^ n) 500\<close> milliseconds; it sends the encoded command at most once for each attempt, exactly
  once if it returns a reply, so never more than 9 times, sends nothing else, and dials at most once for each retry; it hands a NOTLEADER reply
  to its caller only after all 8 retries. The client keeps its limits for the next call.\<close>

theorem cluster_call_bounded:
  assumes "Cluster_DoBytes F net js argv cc w = (res, cc', w', slept)" and "dialled cc" and "\<And>n k. 0 < k \<Longrightarrow> 0 \<le> js n k \<and> js n k < k"
  shows "\<exists>calls k. Cluster_DoBytes F (traced net) js argv cc (w, []) = (res, cc', (w', calls), slept) \<and> dialled cc' \<and>
    length slept \<le> 8 \<and> (\<forall>i < length slept. pause i div 2 \<le> slept ! i \<and> slept ! i \<le> pause i) \<and>
    sends calls = replicate k (fst (WriteFrame F (RArray (map RBulk argv)))) \<and> k \<le> length slept + 1 \<and>
    length (dials calls) \<le> length slept \<and>
    (\<forall>v. res = Inr v \<longrightarrow> k = length slept + 1 \<and> (isNotLeader v \<longrightarrow> length slept = 8))"
proof -
  obtain calls ps where "doLoop F (traced net) js argv 0 cc (w, []) [] = (res, cc', (w', [] @ calls), slept)" "slept = [] @ ps" "dialled cc'"
    "bounded_calls (fst (WriteFrame F (RArray (map RBulk argv)))) 0 res calls ps"
    using doLoop_bounded [OF assms(1) [unfolded Cluster_DoBytes_def] assms(3,2), of "[]"] by auto
  then show ?thesis by (intro exI [of _ calls]) (auto simp: Cluster_DoBytes_def bounded_calls_def)
qed

section \<open>Server and client agree on redirects\<close>

lemma clientAddrMap_lookup:
  assumes "distinct (map pe_ID peers)" and "p \<in> set peers" and "length peers > 1" and "pe_ClientAddr p \<noteq> []"
  shows "map_of (clientAddrMap peers) (pe_ID p) = Some (pe_ClientAddr p)"
proof -
  let ?f = "\<lambda>m p. if pe_ClientAddr p \<noteq> [] then AList.update (pe_ID p) (pe_ClientAddr p) m else m"
  have other: "pe_ID p \<notin> set (map pe_ID qs) \<Longrightarrow> map_of (foldl ?f m qs) (pe_ID p) = map_of m (pe_ID p)" for qs m
    by (induction qs arbitrary: m) auto
  have "distinct (map pe_ID qs) \<Longrightarrow> p \<in> set qs \<Longrightarrow> map_of (foldl ?f m qs) (pe_ID p) = Some (pe_ClientAddr p)" for qs m
  proof (induction qs arbitrary: m)
    case (Cons q qs)
    show ?case
    proof (cases "q = p")
      case True
      then show ?thesis using Cons.prems(1) assms(4) other [of qs] by simp
    next
      case False
      then show ?thesis using Cons by simp
    qed
  qed simp
  then show ?thesis using assms by (simp add: clientAddrMap_def)
qed

lemma clientAddrMap_inv: "map_of (clientAddrMap peers) i = Some a \<Longrightarrow> \<exists>q \<in> set peers. pe_ID q = i \<and> pe_ClientAddr q = a \<and> a \<noteq> []"
proof -
  have "map_of (foldl (\<lambda>m p. if pe_ClientAddr p \<noteq> [] then AList.update (pe_ID p) (pe_ClientAddr p) m else m) m peers) i = Some a \<Longrightarrow>
      map_of m i = Some a \<or> (\<exists>q \<in> set peers. pe_ID q = i \<and> pe_ClientAddr q = a \<and> a \<noteq> [])" for m
    by (induction peers arbitrary: m) (fastforce simp: update_conv' split: if_splits)+
  from this [of "[]"] show "map_of (clientAddrMap peers) i = Some a \<Longrightarrow> \<exists>q \<in> set peers. pe_ID q = i \<and> pe_ClientAddr q = a \<and> a \<noteq> []"
    by (simp add: clientAddrMap_def split: if_splits)
qed

lemma colon_needed: "CHR '':'' \<notin> set s \<Longrightarrow> SplitHostPort s = None"
proof -
  have "CHR '':'' \<notin> set t \<Longrightarrow> cutAt (CHR '':'') t = None" for t by (induction t) auto
  then show "CHR '':'' \<notin> set s \<Longrightarrow> SplitHostPort s = None" by (simp add: SplitHostPort_def cutLast_def)
qed

lemma set_stripLeft: "set (stripLeft encs s) \<subseteq> set s"
  using stripLeft_suffix [of s encs] by (metis set_append Un_upper2)

lemma set_trimSpace: "set (trimSpace s) \<subseteq> set s"
  using set_stripLeft [of spaceEncs s] set_stripLeft [of "map rev spaceEncs" "rev (stripLeft spaceEncs s)"] by (auto simp: trimSpace_def)

text \<open>
  Server and client agree on redirects: in a cluster whose membership the \<^verbatim>\<open>-peers\<close> grammar accepted, when the
  leader advertised a client address, every NOTLEADER reply makes the client dial exactly this address; when it
  did not, or no leader is known, the client takes the reply for undialable and asks again, provided
  the id of the leader has no colon in it.\<close>

lemma redirect_agrees:
  assumes "ParsePeers sp = Inr (nc_Peers cfg)" and "NewNode lib cfg = (closed, Inr nd)" and "length (nc_Peers cfg) > 1"
    and "p \<in> set (nc_Peers cfg)" and "cst_addr (ev_cluster ev) = LeaderClientAddr (pe_ID p) nd"
  shows "isNotLeader (notLeaderReply ev (pe_ID p)) \<and>
    (pe_ClientAddr p \<noteq> [] \<longrightarrow> dialableHint (notLeaderReply ev (pe_ID p)) = Some (pe_ClientAddr p)) \<and>
    (pe_ClientAddr p = [] \<and> CHR '':'' \<notin> set (pe_ID p) \<longrightarrow> dialableHint (notLeaderReply ev (pe_ID p)) = None)"
proof -
  note ok = ParsePeers_ok [OF assms(1)]
  have p: "peer_ok p" using ok(1) assms(4) by (simp add: list_all_iff)
  have nd: "nd_clientAddrs nd = clientAddrMap (nc_Peers cfg)"
    using assms(2) by (auto simp: NewNode_def split: prod.splits sum.splits)
  show ?thesis
  proof (cases "pe_ClientAddr p = []")
    case False
    then have "cst_addr (ev_cluster ev) = pe_ClientAddr p"
      using assms(5) clientAddrMap_lookup [OF ok(2) assms(4,3)] nd p by (simp add: LeaderClientAddr_def peer_ok_def)
    then show ?thesis using False p
      by (simp add: notLeaderReply_def isNotLeader_def dialableHint_def notLeaderPrefix_def peer_ok_def Let_def)
  next
    case True
    have "map_of (clientAddrMap (nc_Peers cfg)) (pe_ID p) = None"
      using True ok(2) assms(4) clientAddrMap_inv [of "nc_Peers cfg" "pe_ID p"] by (metis distinct_map inj_onD not_None_eq)
    then have "cst_addr (ev_cluster ev) = []" using assms(5) nd by (simp add: LeaderClientAddr_def)
    moreover have "SplitHostPort (trimSpace (''leader is '' @ pe_ID p @ '' (no client address advertised)'')) = None" if "CHR '':'' \<notin> set (pe_ID p)"
      by (rule colon_needed) (use that set_trimSpace in fastforce)
    ultimately show ?thesis using True p
      by (simp add: notLeaderReply_def isNotLeader_def dialableHint_def notLeaderPrefix_def peer_ok_def Let_def)
  qed
qed

section \<open>Following a redirect\<close>

text \<open>
  Claim C11. A follower's redirect is followed: when the node a cluster client is connected to answers a command with the
  address of the leader, the client dials it and its caller gets the leader's reply to the same command; only
  the leader's state changes. The leader runs it on a fresh connection: the client's AUTH, HELLO and
  READONLY are not repeated, so a command sent after AUTH is answered NOAUTH when passwords are set.\<close>

theorem redirect_followed:
  assumes "connected w (cc_inner cc) a1 cs1 s1" and "command_ok argv"
    and "dispatch (prs a1) (envs a1 (ft_clock w)) cs1 argv s1 = Some (RError (''NOTLEADER '' @ a2), cs1, s1)"
    and "SplitHostPort a2 \<noteq> None" and "trimSpace a2 = a2" and "LF \<notin> set a2" and "length a2 < 1000" and "0 < cc_maxRedirects cc"
    and "a1 \<noteq> a2" and "map_of (ft_servers w) a2 = Some s2"
    and "dispatch (prs a2) (envs a2 (ft_clock w + 1)) (newConnState (ft_next w + 1) (sv_requirePass s2 = [])) argv s2 = Some (r, cs2, s2')"
    and "\<not> isNotLeader (asRead F (cs_proto cs2) r)" and "wire_ok F MaxDepth (asRead F (cs_proto cs2) r)"
  shows "\<exists>cc' w' d. Cluster_DoBytes F (fleetNet F prs envs) js argv cc w = (Inr (asRead F (cs_proto cs2) r), cc', w', [d]) \<and>
    cc_addr cc' = a2 \<and> map_of (ft_servers w') = (map_of (ft_servers w))(a2 \<mapsto> s2') \<and>
    (sv_requirePass s2 \<noteq> [] \<and> upperASCII (argv ! 0) \<notin> {''AUTH'', ''HELLO'', ''PING''} \<longrightarrow> r = RError ''NOAUTH Authentication required.'')"
proof -
  let ?net = "fleetNet F prs envs" and ?nl = "RError (''NOTLEADER '' @ a2)" and ?c1 = "cc_inner cc"
  let ?cs = "newConnState (ft_next w + 1) (sv_requirePass s2 = [])"
  have rd: "asRead F (cs_proto cs1) ?nl = ?nl" by (simp add: asRead_def)
  have "wire_ok F MaxDepth ?nl" using assms(6,7) by (simp add: readerBufSize_def)
  then have one: "Client_DoBytes F ?net argv ?c1 w = (Inr ?nl, ?c1,
      w\<lparr>ft_servers := AList.update a1 s1 (ft_servers w), ft_conns := AList.update (cl_conn ?c1) (a1, cs1) (ft_conns w), ft_clock := ft_clock w + 1\<rparr>)"
    (is "_ = (_, _, ?w1)")
    using fleet_call [where prs = prs and envs = envs and F = F, OF assms(1,2,3)] rd by simp
  define w2 where "w2 = ?w1\<lparr>ft_conns := AList.delete (cl_conn ?c1) (ft_conns ?w1)\<rparr>"
  define w3 where "w3 = w2\<lparr>ft_conns := (ft_next w, a2, ?cs) # ft_conns w2, ft_next := ft_next w + 1\<rparr>"
  have hint: "isNotLeader ?nl" "dialableHint ?nl = Some a2"
    using assms(4,5) by (simp_all add: isNotLeader_def dialableHint_def notLeaderPrefix_def Let_def)
  have open1: "\<not> cl_closed ?c1" using assms(1) by (simp add: connected_def)
  have s2: "map_of (ft_servers w2) a2 = Some s2" using assms(9,10) by (simp add: w2_def update_conv')
  let ?cc3 = "cc\<lparr>cc_inner := newClient (ft_next w), cc_addr := a2\<rparr>"
  have dial: "redialLocked ?net a2 cc ?w1 = (None, ?cc3, w3)"
    using open1 s2 by (simp add: redialLocked_def Client_Close_def fleetNet_def DialTimeout_def fleetDial_def w2_def w3_def)
  have "connected w3 (newClient (ft_next w)) a2 ?cs s2" using s2 by (simp add: connected_def newClient_def w3_def)
  then have two: "Client_DoBytes F ?net argv (newClient (ft_next w)) w3 = (Inr (asRead F (cs_proto cs2) r), newClient (ft_next w),
      w3\<lparr>ft_servers := AList.update a2 s2' (ft_servers w3), ft_conns := AList.update (ft_next w) (a2, cs2) (ft_conns w3), ft_clock := ft_clock w3 + 1\<rparr>)"
    (is "_ = (_, _, ?w4)")
    using fleet_call [where prs = prs and envs = envs and F = F and w = w3, OF _ assms(2) _ assms(13), of _ a2 ?cs s2] assms(11)
    by (simp add: newClient_def w3_def w2_def)
  have "Cluster_DoBytes F ?net js argv cc w = (Inr (asRead F (cs_proto cs2) r), ?cc3, ?w4, [sleepBackoff (js 0) cc 0])"
    unfolding Cluster_DoBytes_def
    apply (subst doLoop.simps)
    using one hint dial assms(8)
    apply (simp add: Let_def)
    apply (subst doLoop.simps)
    using two assms(12) by (simp add: Let_def)
  moreover have "map_of (ft_servers ?w4) = (map_of (ft_servers w))(a2 \<mapsto> s2')"
    using assms(1) by (auto simp: w3_def w2_def fun_eq_iff connected_def update_conv')
  moreover have "r = RError ''NOAUTH Authentication required.''" if "sv_requirePass s2 \<noteq> []" "upperASCII (argv ! 0) \<notin> {''AUTH'', ''HELLO'', ''PING''}"
    using assms(2,11) that by (auto simp: dispatch_def newConnState_def Let_def command_ok_def)
  ultimately show ?thesis by fastforce
qed

text \<open>A client that has logged in at a follower, whose leader at \<open>l:2\<close> has the same password.\<close>

definition demoPair :: fleet where
  "demoPair = \<lparr>ft_servers = [(''f:1'', (demoServer None demoWorld)\<lparr>sv_replicated := True\<rparr>), (''l:2'', (demoServer None demoWorld)\<lparr>sv_replicated := True\<rparr>)],
     ft_conns = [(0, ''f:1'', newConnState 1 True)], ft_next = 1, ft_clock = 0\<rparr>"

definition demoCluster :: "string \<Rightarrow> nat \<Rightarrow> env" where
  "demoCluster a n = (demoEnv 5)\<lparr>ev_cluster := \<lparr>cst_leader = (a = ''l:2''), cst_hint = ''n2'', cst_addr = ''l:2'', cst_commit = 0, cst_apply = 0, cst_match = []\<rparr>\<rparr>"

definition demoClusterClient :: clusterClient where
  "demoClusterClient = \<lparr>cc_inner = newClient 0, cc_addr = ''f:1'', cc_maxRedirects = defaultMaxRedirects,
     cc_backoffBase = defaultBackoffBase, cc_backoffMax = defaultBackoffMax\<rparr>"

lemma trim_l2: "trimSpace ''l:2'' = ''l:2''" "SplitHostPort ''l:2'' \<noteq> None"
  by code_simp+

theorem redirect_followed_witness:
  "\<exists>cc' w' d. Cluster_DoBytes noFloat (fleetNet noFloat (\<lambda>a. noPropose) demoCluster) (\<lambda>n k. 0) [''GET'', ''k''] demoClusterClient demoPair =
     (Inr (RError ''NOAUTH Authentication required.''), cc', w', [d]) \<and> cc_addr cc' = ''l:2''"
proof -
  let ?s = "(demoServer None demoWorld)\<lparr>sv_replicated := True\<rparr>" and ?cs = "newConnState 1 True"
  have c: "connected demoPair (cc_inner demoClusterClient) ''f:1'' ?cs ?s"
    by (simp add: connected_def demoPair_def demoClusterClient_def newClient_def)
  have k: "command_ok [''GET'', ''k'']" by (simp add: small_command)
  have d: "dispatch noPropose (demoCluster ''f:1'' (ft_clock demoPair)) ?cs [''GET'', ''k''] ?s = Some (RError (''NOTLEADER '' @ ''l:2''), ?cs, ?s)"
    by (simp add: dispatch_def commands_def mkHandler_def newConnState_def demoServer_def demoCluster_def notLeaderReply_def)
  have l: "dispatch noPropose (demoCluster ''l:2'' (ft_clock demoPair + 1)) (newConnState (ft_next demoPair + 1) (sv_requirePass ?s = [])) [''GET'', ''k''] ?s =
      Some (RError ''NOAUTH Authentication required.'', newConnState 2 False, ?s)"
    by (simp add: dispatch_def newConnState_def demoServer_def demoPair_def)
  have "\<exists>cc' w' d. Cluster_DoBytes noFloat (fleetNet noFloat (\<lambda>a. noPropose) demoCluster) (\<lambda>n k. 0) [''GET'', ''k''] demoClusterClient demoPair =
      (Inr (asRead noFloat (cs_proto (newConnState 2 False)) (RError ''NOAUTH Authentication required.'')), cc', w', [d]) \<and>
      cc_addr cc' = ''l:2'' \<and> map_of (ft_servers w') = (map_of (ft_servers demoPair))(''l:2'' \<mapsto> ?s) \<and>
      (sv_requirePass ?s \<noteq> [] \<and> upperASCII ([''GET'', ''k''] ! 0) \<notin> {''AUTH'', ''HELLO'', ''PING''} \<longrightarrow>
         RError ''NOAUTH Authentication required.'' = RError ''NOAUTH Authentication required.'')"
    by (rule redirect_followed [where prs = "\<lambda>a. noPropose" and envs = demoCluster, OF c k d trim_l2(2,1) _ _ _ _ _ l])
      (simp_all add: asRead_def readerBufSize_def MaxDepth_def numeral_eq_Suc demoClusterClient_def defaultMaxRedirects_def demoPair_def
        newConnState_def isNotLeader_def notLeaderPrefix_def)
  then show ?thesis by (auto simp: asRead_def)
qed

theorem cluster_call_bounded_witness:
  "\<exists>res cc' w' calls slept. Cluster_DoBytes noFloat (traced (fleetNet noFloat (\<lambda>a. noPropose) demoCluster)) (\<lambda>n k. 0) [''GET'', ''k''] demoClusterClient
      (demoPair, []) = (res, cc', (w', calls), slept) \<and> length (sends calls) \<le> 9 \<and> length (dials calls) \<le> 8"
proof -
  obtain res cc' w' slept where r: "Cluster_DoBytes noFloat (fleetNet noFloat (\<lambda>a. noPropose) demoCluster) (\<lambda>n k. 0) [''GET'', ''k''] demoClusterClient demoPair =
      (res, cc', w', slept)" by (metis prod.collapse)
  have "dialled demoClusterClient"
    by (simp add: dialled_def demoClusterClient_def defaultMaxRedirects_def defaultBackoffBase_def defaultBackoffMax_def)
  from cluster_call_bounded [OF r this] show ?thesis by fastforce
qed

end
