(* ===== verification/Fetch.thy ===== *)
theory Fetch
  imports Tui Client
begin

text \<open>
  What the terminal UI asks the server (\<^verbatim>\<open>internal/tui/commands.go\<close>) and how it prints numbers
  (\<^verbatim>\<open>format.go\<close>). A \<^verbatim>\<open>Doer\<close> is a function that sends a command and answers with the text of an error or with a
  reply, threading the state of what is behind it. The latencies the messages carry are an argument.
\<close>

type_synonym 'w doer = "string list \<Rightarrow> 'w \<Rightarrow> (string + resp_value) \<times> 'w"

section \<open>commands.go\<close>

text \<open>The fields of a reply; a field the kind does not use is zero.\<close>

definition valBytes :: "resp_value \<Rightarrow> bytes" where
  "valBytes v = (case v of RBulk b \<Rightarrow> b | RVerbatim _ b \<Rightarrow> b | _ \<Rightarrow> [])"

definition valArray :: "resp_value \<Rightarrow> resp_value list" where
  "valArray v = (case v of RArray vs \<Rightarrow> vs | RMap vs \<Rightarrow> vs | RSet vs \<Rightarrow> vs | RPush vs \<Rightarrow> vs | _ \<Rightarrow> [])"

definition valIsNull :: "resp_value \<Rightarrow> bool" where
  "valIsNull v \<longleftrightarrow> v \<in> {RNullBulk, RNullArray}"

text \<open>The call with its two checks: an error of the transport, and an error reply.\<close>

definition doCall :: "'w doer \<Rightarrow> string list \<Rightarrow> 'w \<Rightarrow> (string + resp_value) \<times> 'w" where
  "doCall c argv w =
     (case c argv w of
        (Inl e, w') \<Rightarrow> (Inl e, w')
      | (Inr v, w') \<Rightarrow> (case v of RError msg \<Rightarrow> Inl msg | _ \<Rightarrow> Inr v, w'))"

definition doScanPage :: "'w doer \<Rightarrow> 64 word \<Rightarrow> string \<Rightarrow> int \<Rightarrow> 'w \<Rightarrow> (string + string list \<times> 64 word) \<times> 'w" where
  "doScanPage c cursor pattern cnt w =
     (case doCall c [''SCAN'', formatNat (unat cursor), ''MATCH'', pattern, ''COUNT'', formatInt cnt] w of
        (Inl e, w') \<Rightarrow> (Inl e, w')
      | (Inr v, w') \<Rightarrow>
          (if valIsNull v \<or> length (valArray v) \<noteq> 2 then (Inr ([], 0), w')
           else let nextRaw = valArray v ! 0;
                    next = (case nextRaw of
                              RBulk b \<Rightarrow> (case parseUint b of Some n \<Rightarrow> of_nat n | None \<Rightarrow> 0)
                            | _ \<Rightarrow> 0);
                    out = List.map_filter (\<lambda>el. case el of RBulk b \<Rightarrow> Some b | _ \<Rightarrow> None) (valArray (valArray v ! 1))
                in (Inr (out, next), w')))"

definition doType :: "'w doer \<Rightarrow> string \<Rightarrow> 'w \<Rightarrow> (string + string) \<times> 'w" where
  "doType c key w =
     (case doCall c [''TYPE'', key] w of
        (Inl e, w') \<Rightarrow> (Inl e, w')
      | (Inr v, w') \<Rightarrow> (Inr (case v of RString t \<Rightarrow> t | RBulk b \<Rightarrow> b | _ \<Rightarrow> ''none''), w'))"

definition doValue :: "'w doer \<Rightarrow> string \<Rightarrow> string \<Rightarrow> 'w \<Rightarrow> (string + resp_value \<times> int) \<times> 'w" where
  "doValue c key kind w =
     (if kind = ''list''
      then (case c [''LRANGE'', key, ''0'', ''-1''] w of
              (Inl e, w') \<Rightarrow> (Inl e, w')
            | (Inr v, w') \<Rightarrow> (Inr (v, int (length (valArray v))), w'))
      else if kind = ''hash''
      then (case c [''HGETALL'', key] w of
              (Inl e, w') \<Rightarrow> (Inl e, w')
            | (Inr v, w') \<Rightarrow> (Inr (v, int (length (valArray v) div 2)), w'))
      else (case c [''GET'', key] w of
              (Inl e, w') \<Rightarrow> (Inl e, w')
            | (Inr v, w') \<Rightarrow> (Inr (v, case v of RBulk b \<Rightarrow> int (length b) | _ \<Rightarrow> 0), w')))"

definition doIntCmd :: "'w doer \<Rightarrow> string list \<Rightarrow> 'w \<Rightarrow> (string + int) \<times> 'w" where
  "doIntCmd c argv w =
     (case doCall c argv w of
        (Inl e, w') \<Rightarrow> (Inl e, w')
      | (Inr v, w') \<Rightarrow> (Inr (case v of RInt n \<Rightarrow> n | _ \<Rightarrow> 0), w'))"

text \<open>
  The value \<^verbatim>\<open>strconv.ParseInt\<close> returns beside its error, which \<open>atoi64\<close> ignores: 0 for a syntax error, the
  nearest bound for a number out of range. Digits are read up to the first that leaves 64 bits.
\<close>

fun scanUint :: "nat \<Rightarrow> string \<Rightarrow> nat option" where
  "scanUint n [] = Some n"
| "scanUint n (c # cs) =
     (if \<not> isDigit c then None
      else let n' = 10 * n + digitVal c in if n' > MaxUint64 then Some MaxUint64 else scanUint n' cs)"

definition parseIntValue :: "string \<Rightarrow> int" where
  "parseIntValue s =
     (let neg = (s \<noteq> [] \<and> hd s = CHR ''-'');
          body = (if s \<noteq> [] \<and> (hd s = CHR ''-'' \<or> hd s = CHR ''+'') then tl s else s)
      in if body = [] then 0
         else case scanUint 0 body of
                None \<Rightarrow> 0
              | Some un \<Rightarrow>
                  if \<not> neg \<and> int un > MaxInt64 then MaxInt64
                  else if neg \<and> int un > - MinInt64 then MinInt64
                  else if neg then - int un else int un)"

definition atoi64 :: "string \<Rightarrow> int" where
  "atoi64 s = parseIntValue (trimSpace s)"

definition slaveField :: "replPeer \<times> string \<times> string \<Rightarrow> string \<Rightarrow> replPeer \<times> string \<times> string" where
  "slaveField = (\<lambda>(p, ip, port) kv.
     (case cutAt (CHR ''='') kv of
        None \<Rightarrow> (p, ip, port)
      | Some (k, v) \<Rightarrow>
          if k = ''ip'' then (p, v, port)
          else if k = ''port'' then (p, ip, v)
          else if k = ''state'' then (p\<lparr>rp_state := v\<rparr>, ip, port)
          else if k = ''offset'' then (p\<lparr>rp_off := atoi64 v\<rparr>, ip, port)
          else if k = ''lag'' then (p\<lparr>rp_lag := atoi64 v\<rparr>, ip, port)
          else (p, ip, port)))"

definition noPeer :: replPeer where
  "noPeer = \<lparr>rp_addr = [], rp_state = [], rp_off = 0, rp_lag = 0\<rparr>"

definition parseSlaveLine :: "string \<Rightarrow> replPeer option" where
  "parseSlaveLine line =
     (case cutAt (CHR '':'') line of
        None \<Rightarrow> None
      | Some (_, after) \<Rightarrow>
          (case foldl slaveField (noPeer, [], []) (splitOn (CHR '','') after) of
             (p, ip, port) \<Rightarrow> if ip = [] then None else Some (p\<lparr>rp_addr := ip @ '':'' @ port\<rparr>)))"

definition trimCR :: "string \<Rightarrow> string" where
  "trimCR s = rev (dropWhile (\<lambda>c. c = CHR 0x0D) (rev s))"

definition infoField :: "infoStatus \<Rightarrow> string \<Rightarrow> infoStatus" where
  "infoField s raw =
     (let line = trimCR raw; rest = (\<lambda>p. drop (length p) line); repl = is_repl s
      in if hasPrefix ''appendfsync:'' line then s\<lparr>is_fsync := rest ''appendfsync:''\<rparr>
         else if hasPrefix ''uptime_in_seconds:'' line then s\<lparr>is_uptime := atoi64 (rest ''uptime_in_seconds:'')\<rparr>
         else if hasPrefix ''connected_clients:'' line then s\<lparr>is_clients := atoi64 (rest ''connected_clients:'')\<rparr>
         else if hasPrefix ''db0:keys='' line
         then s\<lparr>is_dbsize := atoi64 (case cutAt (CHR '','') (rest ''db0:keys='') of Some (a, _) \<Rightarrow> a | None \<Rightarrow> rest ''db0:keys='')\<rparr>
         else if hasPrefix ''role:'' line then s\<lparr>is_repl := repl\<lparr>rs_role := rest ''role:''\<rparr>\<rparr>
         else if hasPrefix ''master_repl_offset:'' line
         then s\<lparr>is_repl := repl\<lparr>rs_off := atoi64 (rest ''master_repl_offset:'')\<rparr>\<rparr>
         else if hasPrefix ''slave'' line \<and> (case cutAt (CHR '':'') line of Some (a, _) \<Rightarrow> length a > 5 | None \<Rightarrow> False)
         then (case parseSlaveLine line of
                 Some p \<Rightarrow> s\<lparr>is_repl := repl\<lparr>rs_peers := rs_peers repl @ [p]\<rparr>\<rparr>
               | None \<Rightarrow> s)
         else s)"

definition parseInfo :: "string \<Rightarrow> infoStatus" where
  "parseInfo body = foldl infoField noInfo (splitOn (CHR 0x0A) body)"

definition doInfo :: "'w doer \<Rightarrow> 'w \<Rightarrow> (string + infoStatus) \<times> 'w" where
  "doInfo c w =
     (case doCall c [''INFO''] w of
        (Inl e, w') \<Rightarrow> (Inl e, w')
      | (Inr v, w') \<Rightarrow> (Inr (parseInfo (valBytes v)), w'))"

definition kindOf :: "keyInfo list \<Rightarrow> string \<Rightarrow> string" where
  "kindOf infos name = (case find (\<lambda>k. ki_Name k = name) infos of Some k \<Rightarrow> ki_Kind k | None \<Rightarrow> [])"

text \<open>The rows of a page.\<close>

fun fetchRows :: "'w doer \<Rightarrow> string list \<Rightarrow> 'w \<Rightarrow> (string + keyInfo list) \<times> 'w" where
  "fetchRows c [] w = (Inr [], w)"
| "fetchRows c (k # ks) w =
     (case doType c k w of
        (Inl e, w1) \<Rightarrow> (Inl e, w1)
      | (Inr kind, w1) \<Rightarrow>
          (case doIntCmd c [''TTL'', k] w1 of
             (Inl e, w2) \<Rightarrow> (Inl e, w2)
           | (Inr ttl, w2) \<Rightarrow>
               (case fetchRows c ks w2 of
                  (Inl e, w3) \<Rightarrow> (Inl e, w3)
                | (Inr rows, w3) \<Rightarrow> (Inr (\<lparr>ki_Name = k, ki_TTL = ttl, ki_Size = 0, ki_Kind = kind\<rparr> # rows), w3))))"

text \<open>Setting the size of the first row with a name.\<close>

fun setSize :: "string \<Rightarrow> int \<Rightarrow> keyInfo list \<Rightarrow> keyInfo list" where
  "setSize name n [] = []"
| "setSize name n (k # ks) = (if ki_Name k = name then k\<lparr>ki_Size := n\<rparr> # ks else k # setSize name n ks)"

definition failMsg :: "string \<Rightarrow> int \<Rightarrow> 64 word \<Rightarrow> refreshMsg" where
  "failMsg e lat gen = \<lparr>rf_keys = [], rf_nextCursor = 0, rf_value = RUnknown (CHR 0x00), rf_hasVal = False, rf_info = noInfo,
     rf_latency = lat, rf_err = e, rf_gen = gen\<rparr>"

definition fetchRefresh :: "'w doer \<Rightarrow> string \<Rightarrow> 64 word \<Rightarrow> int \<Rightarrow> string \<Rightarrow> 64 word \<Rightarrow> int \<Rightarrow> 'w \<Rightarrow> refreshMsg \<times> 'w" where
  "fetchRefresh c pattern0 cursor cnt focused gen lat w =
     (let pattern = (if pattern0 = [] then ''*'' else pattern0)
      in case doScanPage c cursor pattern cnt w of
           (Inl e, w1) \<Rightarrow> (failMsg e lat gen, w1)
         | (Inr (names, next), w1) \<Rightarrow>
             (case fetchRows c names w1 of
                (Inl e, w2) \<Rightarrow> (failMsg e lat gen, w2)
              | (Inr infos, w2) \<Rightarrow>
                  (case doInfo c w2 of
                     (Inl e, w3) \<Rightarrow> (failMsg e lat gen, w3)
                   | (Inr info, w3) \<Rightarrow>
                       (let m = \<lparr>rf_keys = infos, rf_nextCursor = next, rf_value = RUnknown (CHR 0x00), rf_hasVal = False,
                                 rf_info = info, rf_latency = lat, rf_err = [], rf_gen = gen\<rparr>
                        in if focused = [] then (m, w3)
                           else case doValue c focused (kindOf infos focused) w3 of
                                  (Inl e, w4) \<Rightarrow> (m\<lparr>rf_err := e\<rparr>, w4)
                                | (Inr (v, sz), w4) \<Rightarrow>
                                    (m\<lparr>rf_value := v, rf_hasVal := True, rf_keys := setSize focused sz infos\<rparr>, w4)))))"

definition runMutating :: "'w doer \<Rightarrow> bool \<Rightarrow> string list \<Rightarrow> int \<Rightarrow> 'w \<Rightarrow> replyMsg \<times> 'w" where
  "runMutating c refresh argv lat w =
     (case c argv w of
        (Inl e, w') \<Rightarrow> (\<lparr>ry_value = RUnknown (CHR 0x00), ry_latency = lat, ry_err = e, ry_refresh = refresh\<rparr>, w')
      | (Inr v, w') \<Rightarrow>
          (\<lparr>ry_value = v, ry_latency = lat, ry_err = (case v of RError msg \<Rightarrow> msg | _ \<Rightarrow> []), ry_refresh = refresh\<rparr>, w'))"

text \<open>The message a command of the reducer ends in.\<close>

definition runCmd :: "'w doer \<Rightarrow> int \<Rightarrow> cmd \<Rightarrow> 'w \<Rightarrow> msg option \<times> 'w" where
  "runCmd c lat cm w =
     (case cm of
        CTick n \<Rightarrow> (Some (TickMsg n), w)
      | CFetch pattern cursor cnt focused gen \<Rightarrow> apfst (Some \<circ> RefreshMsg) (fetchRefresh c pattern cursor cnt focused gen lat w)
      | CRun argv \<Rightarrow> apfst (Some \<circ> ReplyMsg) (runMutating c True argv lat w)
      | _ \<Rightarrow> (None, w))"

section \<open>format.go\<close>

text \<open>The remainder of Go's truncated division.\<close>

definition remGo :: "int \<Rightarrow> int \<Rightarrow> int" where
  "remGo a b = a - b * quotGo a b"

definition pad2 :: "int \<Rightarrow> string" where
  "pad2 n = (let d = formatInt n in if length d < 2 then replicate (2 - length d) (CHR ''0'') @ d else d)"

definition emDash :: string where "emDash = [CHR 0xE2, CHR 0x80, CHR 0x94]"

definition formatTTL :: "int \<Rightarrow> string" where
  "formatTTL ttl =
     (if ttl = -1 then emDash
      else if ttl = -2 then ''gone''
      else let d = durMul ttl Second
           in if d < 60 * Second then formatInt ttl @ ''s''
              else if d < 3600 * Second then formatInt (quotGo ttl 60) @ ''m'' @ pad2 (remGo ttl 60) @ ''s''
              else formatInt (quotGo ttl 3600) @ ''h'' @ pad2 (quotGo (remGo ttl 3600) 60) @ ''m'')"

definition formatUptime :: "int \<Rightarrow> string" where
  "formatUptime secs =
     (if secs < 60 then formatInt secs @ ''s''
      else if secs < 3600 then formatInt (quotGo secs 60) @ ''m''
      else if secs < 86400 then formatInt (quotGo secs 3600) @ ''h''
      else formatInt (quotGo secs 86400) @ ''d'')"

definition formatLatency :: "int \<Rightarrow> string" where
  "formatLatency d =
     (if d = 0 then emDash
      else if d < Microsecond then formatInt d @ ''ns''
      else if d < Millisecond then formatInt (quotGo d Microsecond) @ [CHR 0xC2, CHR 0xB5] @ ''s''
      else formatInt (quotGo d Millisecond) @ ''ms'')"

section \<open>Reading the INFO text back\<close>

lemma digitsVal_ge: "n \<le> digitsVal n s"
proof (induction s arbitrary: n)
  case (Cons c s)
  have "n \<le> n * 10 + digitVal c" by simp
  also have "\<dots> \<le> digitsVal (n * 10 + digitVal c) s" by (rule Cons.IH)
  finally show ?case by simp
qed simp

lemma scanUint_digits: "list_all isDigit s \<Longrightarrow> digitsVal n s \<le> MaxUint64 \<Longrightarrow> scanUint n s = Some (digitsVal n s)"
proof (induction s arbitrary: n)
  case (Cons c s)
  have "n * 10 + digitVal c \<le> digitsVal (n * 10 + digitVal c) s" by (rule digitsVal_ge)
  with Cons show ?case by (simp add: Let_def mult.commute)
qed simp

lemma parseIntValue_eq:
  assumes "parseInt s = Some n"
  shows "parseIntValue s = n"
proof -
  define body where "body = (if s \<noteq> [] \<and> (hd s = CHR ''-'' \<or> hd s = CHR ''+'') then tl s else s)"
  note d = parseInt_def [of s, folded body_def] parseIntValue_def [of s, folded body_def] Let_def
  obtain un where un: "parseUint body = Some un" using assms by (auto simp: d split: option.splits)
  then have "body \<noteq> []" "scanUint 0 body = Some un" by (auto simp: parseUint_def Let_def scanUint_digits split: if_splits)
  then show ?thesis using assms un by (auto simp: d MinInt64_def MaxInt64_def split: if_splits)
qed

lemma spaceLen_none: "s \<noteq> [] \<Longrightarrow> \<forall>e \<in> set encs. e \<noteq> [] \<and> hd e \<noteq> hd s \<Longrightarrow> spaceLen encs s = 0"
proof -
  assume a: "s \<noteq> []" "\<forall>e \<in> set encs. e \<noteq> [] \<and> hd e \<noteq> hd s"
  have "take (length e) s \<noteq> e" if "e \<in> set encs" for e
    using a that by (cases e; cases s) fastforce+
  then have "find (\<lambda>e. take (length e) s = e) encs = None" by (simp add: find_None_iff)
  then show ?thesis by (simp add: spaceLen_def)
qed

lemma space_heads: "\<forall>e \<in> set spaceEncs. e \<noteq> [] \<and> hd e \<notin> set ''-0123456789'' \<and> last e \<notin> set ''0123456789''"
  by code_simp

lemma spaceLen_digit:
  "s \<noteq> [] \<Longrightarrow> isDigit (hd s) \<or> hd s = CHR ''-'' \<Longrightarrow> spaceLen spaceEncs s = 0"
  "s \<noteq> [] \<Longrightarrow> isDigit (hd s) \<Longrightarrow> spaceLen (map rev spaceEncs) s = 0"
proof -
  show "spaceLen spaceEncs s = 0" if "s \<noteq> []" "isDigit (hd s) \<or> hd s = CHR ''-''"
  proof (rule spaceLen_none [OF that(1)], intro ballI)
    fix e assume "e \<in> set spaceEncs"
    then show "e \<noteq> [] \<and> hd e \<noteq> hd s" using bspec [OF space_heads, of e] that(2) by (auto simp: isDigit_def)
  qed
  show "spaceLen (map rev spaceEncs) s = 0" if "s \<noteq> []" "isDigit (hd s)"
  proof (rule spaceLen_none [OF that(1)], intro ballI)
    fix e assume "e \<in> set (map rev spaceEncs)"
    then obtain d where d: "e = rev d" "d \<in> set spaceEncs" by auto
    then show "e \<noteq> [] \<and> hd e \<noteq> hd s" using bspec [OF space_heads, of d] that(2) by (auto simp: isDigit_def hd_rev)
  qed
qed

lemma trimSpace_formatInt: "trimSpace (formatInt n) = formatInt n"
proof -
  obtain c cs where c: "formatNat (nat \<bar>n\<bar>) = c # cs" "isDigit c" by (rule formatNat_head)
  have f: "formatInt n = (if n < 0 then ''-'' else []) @ formatNat (nat \<bar>n\<bar>)" by (simp add: formatInt_def)
  have "isDigit (last (formatNat (nat \<bar>n\<bar>)))" using formatNat_digits [of "nat \<bar>n\<bar>"] by (simp add: list_all_iff)
  then have l: "rev (formatInt n) \<noteq> []" "isDigit (hd (rev (formatInt n)))" by (simp_all add: f hd_rev)
  have h: "formatInt n \<noteq> []" "isDigit (hd (formatInt n)) \<or> hd (formatInt n) = CHR ''-''" using c by (auto simp: f)
  show ?thesis
    using spaceLen_digit(1) [OF h] spaceLen_digit(2) [OF l] by (simp add: trimSpace_def stripLeft.simps)
qed

lemma atoi64_formatInt: "int64 n \<Longrightarrow> atoi64 (formatInt n) = n"
  by (simp add: atoi64_def trimSpace_formatInt parseIntValue_eq parseInt_formatInt)

lemma atoi64_formatNat: "int n \<le> MaxInt64 \<Longrightarrow> atoi64 (formatNat n) = int n"
  using atoi64_formatInt [of "int n"] by (simp add: formatInt_of_nat int64_def MinInt64_def)

text \<open>Walking through a text line by line.\<close>

definition infoWalk :: "infoStatus \<Rightarrow> string \<Rightarrow> infoStatus" where
  "infoWalk s body = foldl infoField s (splitOn (CHR 0x0A) body)"

lemma trimCR_id: "CHR 0x0D \<notin> set l \<Longrightarrow> trimCR l = l" "CHR 0x0D \<notin> set l \<Longrightarrow> trimCR (l @ [CHR 0x0D]) = l"
proof -
  have "dropWhile (\<lambda>c. c = CHR 0x0D) xs = xs" if "CHR 0x0D \<notin> set xs" for xs using that by (cases xs) auto
  then show "CHR 0x0D \<notin> set l \<Longrightarrow> trimCR l = l" "CHR 0x0D \<notin> set l \<Longrightarrow> trimCR (l @ [CHR 0x0D]) = l"
    by (simp_all add: trimCR_def)
qed

definition oneLine :: "string \<Rightarrow> bool" where
  "oneLine l \<longleftrightarrow> CHR 0x0A \<notin> set l \<and> CHR 0x0D \<notin> set l"

lemma oneLine_append [simp]: "oneLine (a @ b) \<longleftrightarrow> oneLine a \<and> oneLine b" "oneLine (c # a) \<longleftrightarrow> c \<noteq> CHR 0x0A \<and> c \<noteq> CHR 0x0D \<and> oneLine a" "oneLine []"
  by (auto simp: oneLine_def)

lemma oneLine_formatInt [simp]: "oneLine (formatInt n)" "oneLine (formatNat m)"
  using formatInt_no_ctrl [of _ n] formatInt_no_ctrl [of _ "int m"] by (auto simp: oneLine_def formatInt_of_nat)

lemma walk_line: "oneLine l \<Longrightarrow> infoWalk s (l @ CRLF @ rest) = infoWalk (infoField s l) rest"
proof -
  assume l: "oneLine l"
  have "infoWalk s ((l @ [CHR 0x0D]) @ CHR 0x0A # rest) = infoWalk (infoField s (l @ [CHR 0x0D])) rest"
    using l splitOn_line [of "CHR 0x0A" "l @ [CHR 0x0D]" rest] by (simp add: infoWalk_def oneLine_def)
  moreover have "infoField s (l @ [CHR 0x0D]) = infoField s l" using l by (simp add: infoField_def trimCR_id oneLine_def)
  ultimately show ?thesis by (simp add: CRLF_def)
qed

lemma walk_infoLine: "oneLine name \<Longrightarrow> oneLine v \<Longrightarrow> infoWalk s (infoLine name v @ rest) = infoWalk (infoField s (name @ '':'' @ v)) rest"
  using walk_line [of "name @ '':'' @ v" s rest] by (simp add: infoLine_def)

lemma infoField_line:
  "oneLine l \<Longrightarrow> infoField s l = (let rest = (\<lambda>p. drop (length p) l); repl = is_repl s
      in if hasPrefix ''appendfsync:'' l then s\<lparr>is_fsync := rest ''appendfsync:''\<rparr>
         else if hasPrefix ''uptime_in_seconds:'' l then s\<lparr>is_uptime := atoi64 (rest ''uptime_in_seconds:'')\<rparr>
         else if hasPrefix ''connected_clients:'' l then s\<lparr>is_clients := atoi64 (rest ''connected_clients:'')\<rparr>
         else if hasPrefix ''db0:keys='' l
         then s\<lparr>is_dbsize := atoi64 (case cutAt (CHR '','') (rest ''db0:keys='') of Some (a, _) \<Rightarrow> a | None \<Rightarrow> rest ''db0:keys='')\<rparr>
         else if hasPrefix ''role:'' l then s\<lparr>is_repl := repl\<lparr>rs_role := rest ''role:''\<rparr>\<rparr>
         else if hasPrefix ''master_repl_offset:'' l
         then s\<lparr>is_repl := repl\<lparr>rs_off := atoi64 (rest ''master_repl_offset:'')\<rparr>\<rparr>
         else if hasPrefix ''slave'' l \<and> (case cutAt (CHR '':'') l of Some (a, _) \<Rightarrow> length a > 5 | None \<Rightarrow> False)
         then (case parseSlaveLine l of
                 Some p \<Rightarrow> s\<lparr>is_repl := repl\<lparr>rs_peers := rs_peers repl @ [p]\<rparr>\<rparr>
               | None \<Rightarrow> s)
         else s)"
  by (simp add: infoField_def trimCR_id oneLine_def Let_def)

text \<open>The lines that are not read.\<close>

lemma infoField_skip:
  "oneLine v \<Longrightarrow> infoField s (''redis_version'' @ '':'' @ v) = s"
  "oneLine v \<Longrightarrow> infoField s (''tcp_port'' @ '':'' @ v) = s"
  "oneLine v \<Longrightarrow> infoField s (''uptime_in_days'' @ '':'' @ v) = s"
  "oneLine v \<Longrightarrow> infoField s (''loading'' @ '':'' @ v) = s"
  "oneLine v \<Longrightarrow> infoField s (''aof_enabled'' @ '':'' @ v) = s"
  "oneLine v \<Longrightarrow> infoField s (''aof_current_size'' @ '':'' @ v) = s"
  "oneLine v \<Longrightarrow> infoField s (''aof_rewrite_in_progress'' @ '':'' @ v) = s"
  "oneLine v \<Longrightarrow> infoField s (''aof_replay_records'' @ '':'' @ v) = s"
  "oneLine v \<Longrightarrow> infoField s (''aof_replay_bytes'' @ '':'' @ v) = s"
  "oneLine v \<Longrightarrow> infoField s (''connected_slaves'' @ '':'' @ v) = s"
  "infoField s ''# Server'' = s" "infoField s ''# Clients'' = s" "infoField s ''# Persistence'' = s" "infoField s ''# Stats'' = s"
  "infoField s ''# Keyspace'' = s" "infoField s ''# Replication'' = s" "infoField s [] = s"
  by (simp_all add: infoField_line hasPrefix_def)

lemma cutAt_first: "c \<notin> set a \<Longrightarrow> cutAt c (a @ c # b) = Some (a, b)" "c \<notin> set a \<Longrightarrow> cutAt c a = None"
  by (induction a) auto

lemma formatNat_no: "\<not> isDigit c \<Longrightarrow> c \<notin> set (formatNat n)"
  using formatNat_digits [of n] by (auto simp: list_all_iff)

lemma infoField_read:
  "oneLine v \<Longrightarrow> infoField s (''appendfsync'' @ '':'' @ v) = s\<lparr>is_fsync := v\<rparr>"
  "oneLine v \<Longrightarrow> infoField s (''uptime_in_seconds'' @ '':'' @ v) = s\<lparr>is_uptime := atoi64 v\<rparr>"
  "oneLine v \<Longrightarrow> infoField s (''connected_clients'' @ '':'' @ v) = s\<lparr>is_clients := atoi64 v\<rparr>"
  "oneLine v \<Longrightarrow> infoField s (''role'' @ '':'' @ v) = s\<lparr>is_repl := (is_repl s)\<lparr>rs_role := v\<rparr>\<rparr>"
  "oneLine v \<Longrightarrow> infoField s (''master_repl_offset'' @ '':'' @ v) = s\<lparr>is_repl := (is_repl s)\<lparr>rs_off := atoi64 v\<rparr>\<rparr>"
  "infoField s (''db0'' @ '':'' @ ''keys='' @ formatNat n) = s\<lparr>is_dbsize := atoi64 (formatNat n)\<rparr>"
  by (simp_all add: infoField_line hasPrefix_def cutAt_first(2) formatNat_no isDigit_def)

lemma splitOn_last: "c \<notin> set s \<Longrightarrow> splitOn c s = [s]"
  by (induction s) auto

definition addPeer :: "replPeer \<Rightarrow> infoStatus \<Rightarrow> infoStatus" where
  "addPeer p s = s\<lparr>is_repl := (is_repl s)\<lparr>rs_peers := rs_peers (is_repl s) @ [p]\<rparr>\<rparr>"

text \<open>A replica as the leader prints it is read back, unless it advertises no client address.\<close>

lemma infoField_slave:
  fixes offset lag :: nat
  assumes "oneLine host" and "oneLine port" and "CHR '','' \<notin> set host" and "CHR '','' \<notin> set port"
    and "int offset \<le> MaxInt64" and "int lag \<le> MaxInt64"
  shows "infoField s ((''slave'' @ formatNat i) @ '':'' @
      ''ip='' @ host @ '',port='' @ port @ '',state=online,offset='' @ formatNat offset @ '',lag='' @ formatNat lag) =
    (if host = [] then s
     else addPeer \<lparr>rp_addr = host @ '':'' @ port, rp_state = ''online'', rp_off = int offset, rp_lag = int lag\<rparr> s)"
proof -
  let ?v = "''ip='' @ host @ '',port='' @ port @ '',state=online,offset='' @ formatNat offset @ '',lag='' @ formatNat lag"
  let ?l = "(''slave'' @ formatNat i) @ '':'' @ ?v"
  have c: "cutAt (CHR '':'') ?l = Some (''slave'' @ formatNat i, ?v)"
    using cutAt_first(1) [of "CHR '':''" "''slave'' @ formatNat i" ?v] formatNat_no [of "CHR '':''" i] by (simp add: isDigit_def)
  have len: "length (''slave'' @ formatNat i) > 5" by simp
  have n: "CHR '','' \<notin> set (formatNat m)" for m by (rule formatNat_no) (simp add: isDigit_def)
  have e: "?v = (''ip='' @ host) @ CHR '','' # (''port='' @ port) @ CHR '','' # ''state=online'' @ CHR '','' # (''offset='' @ formatNat offset) @ CHR '','' # (''lag='' @ formatNat lag)"
    by simp
  have "splitOn (CHR '','') ((''ip='' @ host) @ CHR '','' # (''port='' @ port) @ CHR '','' # ''state=online'' @ CHR '','' # (''offset='' @ formatNat offset) @ CHR '','' # (''lag='' @ formatNat lag)) = [''ip='' @ host, ''port='' @ port, ''state=online'', ''offset='' @ formatNat offset, ''lag='' @ formatNat lag]"
    using assms(3,4) n splitOn_last [of "CHR '',''" "''lag='' @ formatNat lag"] by (subst splitOn_line, simp)+ simp
  then have sp: "splitOn (CHR '','') ?v = [''ip='' @ host, ''port='' @ port, ''state=online'', ''offset='' @ formatNat offset, ''lag='' @ formatNat lag]" by (simp only: e)
  have p: "parseSlaveLine ?l =
      (if host = [] then None else Some \<lparr>rp_addr = host @ '':'' @ port, rp_state = ''online'', rp_off = int offset, rp_lag = int lag\<rparr>)"
    unfolding parseSlaveLine_def c option.case prod.case sp
    using assms(5,6) by (simp add: slaveField_def noPeer_def atoi64_formatNat)
  have o: "oneLine ?l" using assms(1,2) by simp
  have h: "hasPrefix ''slave'' ?l" "\<not> hasPrefix ''appendfsync:'' ?l" "\<not> hasPrefix ''uptime_in_seconds:'' ?l" "\<not> hasPrefix ''connected_clients:'' ?l"
      "\<not> hasPrefix ''db0:keys='' ?l" "\<not> hasPrefix ''role:'' ?l" "\<not> hasPrefix ''master_repl_offset:'' ?l"
    by (simp_all add: hasPrefix_def)
  show ?thesis
    unfolding infoField_line [OF o] Let_def using h c len p by (simp add: addPeer_def del: append_assoc append.simps)
qed

definition shownPeer :: "clusterStatus \<Rightarrow> peer \<Rightarrow> replPeer option" where
  "shownPeer st p =
     (let (host, port) = splitHostPort (pe_ClientAddr p); offset = matchOf st (pe_ID p)
      in if host = [] then None
         else Some \<lparr>rp_addr = host @ '':'' @ port, rp_state = ''online'', rp_off = int offset,
                    rp_lag = max 0 (int (cst_commit st) - int offset)\<rparr>)"

definition shownRepl :: "env \<Rightarrow> server \<Rightarrow> replStatus" where
  "shownRepl ev s =
     (let st = ev_cluster ev
      in if \<not> sv_replicated s then noRepl
         else if cst_leader st
         then \<lparr>rs_role = ''master'', rs_off = int (cst_commit st),
               rs_peers = List.map_filter (shownPeer st) (replicaPeers (sv_peers s) (sv_cfgNodeID s))\<rparr>
         else \<lparr>rs_role = ''slave'', rs_off = int (cst_apply st), rs_peers = []\<rparr>)"

definition shownInfo :: "env \<Rightarrow> server \<Rightarrow> infoStatus" where
  "shownInfo ev s =
     \<lparr>is_dbsize = int (Store_DBSize (sv_store s)), is_fsync = FsyncPolicy_String (sv_fsyncPolicy s),
      is_uptime = max (quotGo (timeSub (ev_now ev) (sv_startTime s)) Second) 0, is_clients = sv_clientCount s, is_repl = shownRepl ev s\<rparr>"

text \<open>The numbers fit the reader's integers, and no address contains a line end or a comma.\<close>

definition addr_ok :: "string \<Rightarrow> bool" where
  "addr_ok a \<longleftrightarrow> (case splitHostPort a of (host, port) \<Rightarrow> oneLine host \<and> oneLine port \<and> CHR '','' \<notin> set host \<and> CHR '','' \<notin> set port)"

definition info_ok :: "env \<Rightarrow> server \<Rightarrow> bool" where
  "info_ok ev s \<longleftrightarrow>
     oneLine (tcpPort s) \<and> int64 (sv_clientCount s) \<and> int (Store_DBSize (sv_store s)) \<le> MaxInt64 \<and>
     int (cst_commit (ev_cluster ev)) \<le> MaxInt64 \<and> int (cst_apply (ev_cluster ev)) \<le> MaxInt64 \<and>
     (\<forall>p \<in> set (sv_peers s). addr_ok (pe_ClientAddr p) \<and> int (matchOf (ev_cluster ev) (pe_ID p)) \<le> MaxInt64)"

lemma addPeer_append: "addPeer p s\<lparr>is_repl := (is_repl (addPeer p s))\<lparr>rs_peers := rs_peers (is_repl (addPeer p s)) @ ps\<rparr>\<rparr> =
    s\<lparr>is_repl := (is_repl s)\<lparr>rs_peers := rs_peers (is_repl s) @ p # ps\<rparr>\<rparr>"
  by (simp add: addPeer_def)

lemma walk_slaves:
  assumes "int (cst_commit st) \<le> MaxInt64" and "\<forall>p \<in> set ps. addr_ok (pe_ClientAddr p) \<and> int (matchOf st (pe_ID p)) \<le> MaxInt64"
  shows "infoWalk s (infoSlaves st i ps @ rest) =
    infoWalk (s\<lparr>is_repl := (is_repl s)\<lparr>rs_peers := rs_peers (is_repl s) @ List.map_filter (shownPeer st) ps\<rparr>\<rparr>) rest"
  using assms(2)
proof (induction ps arbitrary: i s)
  case Nil
  then show ?case by (simp add: List.map_filter_def)
next
  case (Cons p ps)
  obtain host port where hp: "splitHostPort (pe_ClientAddr p) = (host, port)" by force
  define off where "off = matchOf st (pe_ID p)"
  define lag where "lag = (if cst_commit st > off then cst_commit st - off else 0)"
  have ok: "oneLine host" "oneLine port" "CHR '','' \<notin> set host" "CHR '','' \<notin> set port" "int off \<le> MaxInt64" "int lag \<le> MaxInt64"
    using Cons.prems hp assms(1) by (auto simp: addr_ok_def off_def lag_def)
  let ?v = "''ip='' @ host @ '',port='' @ port @ '',state=online,offset='' @ formatNat off @ '',lag='' @ formatNat lag"
  have sl: "infoSlaves st i (p # ps) @ rest = infoLine (''slave'' @ formatNat i) ?v @ infoSlaves st (i + 1) ps @ rest"
    by (simp add: hp off_def [symmetric] lag_def [symmetric])
  have "infoWalk s (infoSlaves st i (p # ps) @ rest) =
      infoWalk (infoField s ((''slave'' @ formatNat i) @ '':'' @ ?v)) (infoSlaves st (i + 1) ps @ rest)"
    unfolding sl by (rule walk_infoLine) (use ok in simp_all)
  also have "infoField s ((''slave'' @ formatNat i) @ '':'' @ ?v) = (case shownPeer st p of None \<Rightarrow> s | Some r \<Rightarrow> addPeer r s)"
    unfolding infoField_slave [OF ok] by (simp add: shownPeer_def hp off_def [symmetric] lag_def max_def)
  finally show ?case
    using Cons.IH Cons.prems by (cases "shownPeer st p") (simp_all add: addPeer_def List.map_filter_simps)
qed

lemmas infoLines = infoServer_def infoPersistence_def infoKeyspace_def infoReplication_def infoWant_def

lemma walk_head: "oneLine l \<Longrightarrow> infoField s l = s' \<Longrightarrow> infoWalk s (l @ CRLF @ rest) = infoWalk s' rest"
  "infoWalk s (CRLF @ rest) = infoWalk s rest"
  using walk_line [of l s rest] walk_line [of "[]" s rest] infoField_skip by simp_all

lemmas walks = walk_infoLine walk_head(2) infoField_skip [simplified] infoField_read [simplified] atoi64_formatInt atoi64_formatNat

lemma uptime_int64: "int64 (max (quotGo (timeSub t u) Second) 0)"
proof -
  define d where "d = timeSub t u"
  have d: "MinInt64 \<le> d" "d \<le> MaxInt64" by (auto simp: d_def timeSub_def MinInt64_def MaxInt64_def)
  have "quotGo d Second \<le> MaxInt64"
  proof (cases "d \<le> 0")
    case True
    have "0 \<le> \<bar>d\<bar> div \<bar>Second\<bar>" by (simp add: Second_def pos_imp_zdiv_nonneg_iff)
    then have "quotGo d Second \<le> 0" using True by (auto simp: quotGo_def sgn_if Second_def)
    then show ?thesis by (simp add: MaxInt64_def)
  next
    case False
    then have "quotGo d Second = d div Second" by (simp add: quotGo_def Second_def)
    also have "\<dots> \<le> d" using False zdiv_mono2 [of d 1 Second] by (simp add: Second_def)
    finally show ?thesis using d by simp
  qed
  then show ?thesis by (simp add: int64_def MinInt64_def MaxInt64_def d_def)
qed

lemma walk_server:
  assumes "oneLine (tcpPort s)"
  shows "infoWalk i (infoServer ev s @ rest) = infoWalk (i\<lparr>is_uptime := max (quotGo (timeSub (ev_now ev) (sv_startTime s)) Second) 0\<rparr>) rest"
  unfolding infoServer_def Let_def append_assoc
  by (subst walk_head(1), simp, rule infoField_skip) (use assms uptime_int64 in \<open>simp add: walks serverVersion_def\<close>)

lemma walk_clients:
  assumes "int64 n"
  shows "infoWalk i ((''# Clients'' @ CRLF @ infoLine ''connected_clients'' (formatInt n) @ CRLF) @ rest) = infoWalk (i\<lparr>is_clients := n\<rparr>) rest"
  unfolding append_assoc by (subst walk_head(1), simp, rule infoField_skip) (use assms in \<open>simp add: walks\<close>)

lemma oneLine_fsync: "oneLine (FsyncPolicy_String p)"
  by (cases p) (simp_all add: FsyncPolicy_String_def)

lemma walk_persistence: "infoWalk i (infoPersistence ev s @ rest) = infoWalk (i\<lparr>is_fsync := FsyncPolicy_String (sv_fsyncPolicy s)\<rparr>) rest"
  unfolding infoPersistence_def Let_def append_assoc
  by (subst walk_head(1), simp, rule infoField_skip) (simp add: walks oneLine_fsync)

lemma walk_stats:
  "infoWalk i ((''# Stats'' @ CRLF @ infoLine ''aof_replay_records'' (formatNat m) @ infoLine ''aof_replay_bytes'' (formatInt n) @ CRLF) @ rest) = infoWalk i rest"
  unfolding append_assoc by (subst walk_head(1), simp, rule infoField_skip) (simp add: walks)

lemma walk_keyspace:
  assumes "int (Store_DBSize (sv_store s)) \<le> MaxInt64"
  shows "infoWalk i (infoKeyspace s @ rest) =
    infoWalk (if Store_DBSize (sv_store s) > 0 then i\<lparr>is_dbsize := int (Store_DBSize (sv_store s))\<rparr> else i) rest"
  unfolding infoKeyspace_def Let_def append_assoc
  by (subst walk_head(1), simp, rule infoField_skip)
    (use assms in \<open>simp add: walks\<close>)

lemma walk_replication:
  assumes "info_ok ev s" and "sv_replicated s" and "is_repl i = noRepl"
  shows "infoWalk i (infoReplication ev s @ rest) = infoWalk (i\<lparr>is_repl := shownRepl ev s\<rparr>) rest"
proof -
  let ?st = "ev_cluster ev" and ?ps = "replicaPeers (sv_peers s) (sv_cfgNodeID s)"
  have ps: "\<forall>p \<in> set ?ps. addr_ok (pe_ClientAddr p) \<and> int (matchOf ?st (pe_ID p)) \<le> MaxInt64"
    using assms(1) by (auto simp: info_ok_def replicaPeers_def)
  have n: "int (cst_commit ?st) \<le> MaxInt64" "int (cst_apply ?st) \<le> MaxInt64" using assms(1) by (simp_all add: info_ok_def)
  note w = walk_slaves [OF n(1) ps]
  show ?thesis
    unfolding infoReplication_def Let_def append_assoc
    by (subst walk_head(1), simp, rule infoField_skip)
      (use assms(2,3) n in \<open>auto simp: walks w shownRepl_def noRepl_def Let_def\<close>)
qed

text \<open>
  Claim C32. The status bar shows the server: for every server state the text that INFO answers is parsed by the
  terminal UI into exactly the number of keys, the fsync policy, the uptime and the number of
  clients of the server, and, when it is replicated, its role, its offset and one row for each
  replica that advertises a client address, with its offset and its lag; a standalone server
  shows no role.\<close>

theorem info_parsed:
  assumes "info_ok ev s"
  shows "parseInfo (valBytes (cmdInfo ev [''INFO''] s)) = shownInfo ev s"
proof -
  have ok: "oneLine (tcpPort s)" "int64 (sv_clientCount s)" "int (Store_DBSize (sv_store s)) \<le> MaxInt64"
    using assms by (simp_all add: info_ok_def)
  let ?i = "noInfo\<lparr>is_uptime := max (quotGo (timeSub (ev_now ev) (sv_startTime s)) Second) 0, is_clients := sv_clientCount s,
      is_fsync := FsyncPolicy_String (sv_fsyncPolicy s), is_dbsize := int (Store_DBSize (sv_store s))\<rparr>"
  have e: "infoWalk i [] = i" for i by (simp add: infoWalk_def infoField_skip)
  let ?tl = "if sv_replicated s then infoReplication ev s else []"
  have "valBytes (cmdInfo ev [''INFO''] s) = infoServer ev s @ (''# Clients'' @ CRLF @ infoLine ''connected_clients'' (formatInt (sv_clientCount s)) @ CRLF) @
      infoPersistence ev s @ (''# Stats'' @ CRLF @ infoLine ''aof_replay_records'' (formatNat (sv_replayRecords s)) @
      infoLine ''aof_replay_bytes'' (formatInt (sv_replayBytes s)) @ CRLF) @ infoKeyspace s @ ?tl"
    by (simp add: cmdInfo_def valBytes_def infoWant_def)
  then have "parseInfo (valBytes (cmdInfo ev [''INFO''] s)) = infoWalk ?i ?tl"
    unfolding parseInfo_def infoWalk_def [symmetric]
    by (simp only: walk_server [OF ok(1)] walk_clients [OF ok(2)] walk_persistence walk_stats walk_keyspace [OF ok(3)]) (simp add: noInfo_def)
  also have "\<dots> = ?i\<lparr>is_repl := shownRepl ev s\<rparr>"
    using walk_replication [OF assms, of ?i "[]"] by (simp add: e noInfo_def shownRepl_def)
  finally show ?thesis by (simp add: shownInfo_def noInfo_def)
qed

section \<open>A refresh against a server\<close>

text \<open>
  A connection of a server as a \<^verbatim>\<open>Doer\<close>: by the session theorem of the client, its calls answer what the
  dispatcher replies, as the protocol in force shows it. The state is the connection, the server and the number of calls.
\<close>

definition serverDoer :: "floatlib \<Rightarrow> propose \<Rightarrow> (nat \<Rightarrow> env) \<Rightarrow> (connState \<times> server \<times> nat) doer" where
  "serverDoer F pr envs argv = (\<lambda>(cs, s, n).
     (case dispatch pr (envs n) cs argv s of
        None \<Rightarrow> (Inl ''client: closed'', (cs, s, n))
      | Some (r, cs', s') \<Rightarrow> (Inr (asRead F (cs_proto cs') r), (cs', s', n + 1))))"

definition kindLabel :: "db \<Rightarrow> string \<Rightarrow> string" where
  "kindLabel db k = (case db k of None \<Rightarrow> ''none'' | Some (v, _) \<Rightarrow> typeName v)"

definition ttlLabel :: "time \<Rightarrow> db \<Rightarrow> string \<Rightarrow> int" where
  "ttlLabel now db k = (case db k of None \<Rightarrow> -2 | Some (_, t) \<Rightarrow> if isZero t then -1 else timeSub t now div Second)"

text \<open>The value pane: what RESP2 shows of a value, and its size.\<close>

fun shownValue :: "aval \<Rightarrow> resp_value \<times> int" where
  "shownValue (VString b) = (RBulk b, int (length b))"
| "shownValue (VList xs) = (RArray (map RBulk xs), int (length xs))"
| "shownValue (VHash m) = (RArray (map RBulk (concat (map (\<lambda>(f, v). [f, v]) m))), int (length m))"

lemma ui_commands:
  "map_of commands ''TYPE'' = Some (mkHandler (onRead cmdType) 2 2 False True)"
  "map_of commands ''TTL'' = Some (mkHandler (onRead cmdTTL) 2 2 False True)"
  "map_of commands ''INFO'' = Some (mkHandler (onRead cmdInfo) 1 2 False False)"
  "map_of commands ''SCAN'' = Some (mkHandler (onRead cmdScan) 2 6 False True)"
  "map_of commands ''LRANGE'' = Some (mkHandler (onRead cmdLRange) 4 4 False True)"
  "map_of commands ''HGETALL'' = Some (mkHandler (onRead cmdHGetAll) 2 2 False True)"
  "map_of commands ''GET'' = Some (mkHandler (onServer cmdGet) 2 2 False True)"
  by (simp_all add: commands_def)

lemma read_call:
  assumes "map_of commands name = Some (mkHandler (onRead f) mn mx mut rd)" and "local_run cs s" and "upperASCII name = name"
    and "mn \<le> int (length args) + 1" and "int (length args) + 1 \<le> mx"
  shows "serverDoer F pr envs (name # args) (cs, s, n) =
    (Inr (asRead F (cs_proto cs) (f (envs n) (name # args) s)), (cs, s, n + 1))"
proof -
  have "dispatch pr (envs n) cs (name # args) s = h_fn (mkHandler (onRead f) mn mx mut rd) (envs n) cs (name # args) s"
    by (rule dispatch_local [OF assms(2)]) (use assms in \<open>simp_all add: arity_ok_def mkHandler_def\<close>)
  then show ?thesis by (simp add: serverDoer_def onRead_def mkHandler_def)
qed

abbreviation clock :: "(nat \<Rightarrow> env) \<Rightarrow> nat \<Rightarrow> time" where
  "clock envs n \<equiv> ev_storeNow (envs n)"

lemma doCall_read:
  assumes "c argv w = (Inr v, w')" and "\<forall>e. v \<noteq> RError e"
  shows "doCall c argv w = (Inr v, w')"
  using assms by (cases v) (simp_all add: doCall_def)

lemma type_call:
  assumes "local_run cs s" and "store_ok (sv_store s)"
  shows "doType (serverDoer F pr envs) k (cs, s, n) = (Inr (kindLabel (view (sv_store s) (clock envs n)) k), (cs, s, n + 1))"
proof -
  have "serverDoer F pr envs [''TYPE'', k] (cs, s, n) = (Inr (asRead F (cs_proto cs) (cmdType (envs n) [''TYPE'', k] s)), (cs, s, n + 1))"
    by (rule read_call [OF ui_commands(1) assms(1)]) simp_all
  moreover have "cmdType (envs n) [''TYPE'', k] s = RString (kindLabel (view (sv_store s) (clock envs n)) k)"
    using step_Type [OF assms(2), of "clock envs n" k] by (auto simp: step_ok_def cmdType_def kindLabel_def split: option.splits)
  ultimately show ?thesis by (simp add: doType_def doCall_read asRead_def)
qed

lemma ttl_call:
  assumes "local_run cs s"
  shows "doIntCmd (serverDoer F pr envs) [''TTL'', k] (cs, s, n) =
    (Inr (ttlLabel (clock envs n) (view (sv_store s) (clock envs n)) k), (cs, s, n + 1))"
proof -
  have "serverDoer F pr envs [''TTL'', k] (cs, s, n) = (Inr (asRead F (cs_proto cs) (cmdTTL (envs n) [''TTL'', k] s)), (cs, s, n + 1))"
    by (rule read_call [OF ui_commands(2) assms]) simp_all
  moreover have "cmdTTL (envs n) [''TTL'', k] s = RInt (ttlLabel (clock envs n) (view (sv_store s) (clock envs n)) k)"
  proof (cases "lookup (sv_store s) k")
    case (Some e)
    have "0 < timeSub t u \<and> quotGo (timeSub t u) Second = timeSub t u div Second" if "u < t" for t u
      using that by (auto simp: timeSub_def quotGo_def Second_def MinInt64_def MaxInt64_def)
    then show ?thesis using Some
      by (auto simp: cmdTTL_def Store_TTL_def ttlReply_def ttlLabel_def view_def expired_def TTLNoKey_def TTLNoExpire_def Second_def)
  qed (simp add: cmdTTL_def Store_TTL_def ttlReply_def ttlLabel_def view_def)
  ultimately show ?thesis by (simp add: doIntCmd_def doCall_read asRead_def)
qed

fun shownRows :: "(nat \<Rightarrow> env) \<Rightarrow> store \<Rightarrow> nat \<Rightarrow> string list \<Rightarrow> keyInfo list" where
  "shownRows envs st n [] = []"
| "shownRows envs st n (k # ks) =
     \<lparr>ki_Name = k, ki_TTL = ttlLabel (clock envs (n + 1)) (view st (clock envs (n + 1))) k, ki_Size = 0,
      ki_Kind = kindLabel (view st (clock envs n)) k\<rparr> # shownRows envs st (n + 2) ks"

lemma rows_call:
  assumes "local_run cs s" and "store_ok (sv_store s)"
  shows "fetchRows (serverDoer F pr envs) ks (cs, s, n) = (Inr (shownRows envs (sv_store s) n ks), (cs, s, n + 2 * length ks))"
  by (induction ks arbitrary: n) (simp_all add: type_call [OF assms] ttl_call [OF assms(1)])

lemma info_call:
  assumes "local_run cs s" and "info_ok (envs n) s"
  shows "doInfo (serverDoer F pr envs) (cs, s, n) = (Inr (shownInfo (envs n) s), (cs, s, n + 1))"
proof -
  have "serverDoer F pr envs [''INFO''] (cs, s, n) = (Inr (asRead F (cs_proto cs) (cmdInfo (envs n) [''INFO''] s)), (cs, s, n + 1))"
    by (rule read_call [OF ui_commands(3) assms(1)]) simp_all
  moreover have "valBytes (asRead F p (cmdInfo ev argv s)) = valBytes (cmdInfo ev argv s)" "asRead F p (cmdInfo ev argv s) \<noteq> RError e" for p ev argv e
    by (simp_all add: cmdInfo_def asRead_def valBytes_def Let_def)
  ultimately show ?thesis using info_parsed [OF assms(2)] by (simp add: doInfo_def doCall_read)
qed

lemma scan_call:
  assumes "local_run cs s" and "cs_proto cs = Proto2" and "0 < cnt" and "int64 cnt" and "next \<le> MaxUint64"
    and "Store_Scan (ev_order (envs n) (st_data (sv_store s))) (clock envs n) (unat cur) pat cnt = Inr (names, next)"
  shows "doScanPage (serverDoer F pr envs) cur pat cnt (cs, s, n) = (Inr (names, of_nat next), (cs, s, n + 1))"
proof -
  let ?a = "[''SCAN'', formatNat (unat cur), ''MATCH'', pat, ''COUNT'', formatInt cnt]"
  have "serverDoer F pr envs ?a (cs, s, n) = (Inr (asRead F (cs_proto cs) (cmdScan (envs n) ?a s)), (cs, s, n + 1))"
    by (rule read_call [OF ui_commands(4) assms(1)]) simp_all
  moreover have "cmdScan (envs n) ?a s = RArray [RBulk (formatNat next), RArray (bulks names)]"
    using assms(3-6) unsigned_less [of cur, where 'a = nat] by (simp add: cmdScan_def parseUint_formatNat MaxUint64_def parseInt_formatInt)
  ultimately have "doCall (serverDoer F pr envs) ?a (cs, s, n) = (Inr (RArray [RBulk (formatNat next), RArray (map RBulk names)]), (cs, s, n + 1))"
    using assms(2) by (simp add: doCall_def asRead_def bulks_def comp_def)
  moreover have "List.map_filter (\<lambda>el. case el of RBulk b \<Rightarrow> Some b | _ \<Rightarrow> None) (map RBulk names) = names"
    by (induction names) (simp_all add: List.map_filter_simps)
  ultimately show ?thesis using assms(5) by (simp add: doScanPage_def valIsNull_def valArray_def parseUint_formatNat)
qed

lemma typeName_kinds:
  "(''list'' = typeName x) = (\<exists>xs. x = VList xs)" "(''hash'' = typeName x) = (\<exists>m. x = VHash m)"
  "typeName x \<noteq> ''list'' \<Longrightarrow> typeName x \<noteq> ''hash'' \<Longrightarrow> \<exists>b. x = VString b"
  by (cases x; simp)+

lemma parse_range: "parseInt ''0'' = Some 0" "parseInt ''-1'' = Some (-1)"
  by (simp_all add: go_simps)

lemma lrange_all: "lrange xs 0 (-1) = xs"
  by (cases xs) (simp_all add: lrange_def rngStart_def rngStop_def Let_def)

lemma length_flat: "length (concat (map (\<lambda>(f, v). [f, v]) m)) = 2 * length m"
  by (induction m) auto

text \<open>The value of a key, asked for under the kind the page shows.\<close>

lemma value_call:
  assumes "local_run cs s" and "cs_proto cs = Proto2" and "store_ok (sv_store s)"
  shows "\<exists>v sz s'. doValue (serverDoer F pr envs) k kind (cs, s, n) = (Inr (v, sz), (cs, s', n + 1)) \<and>
    (\<forall>t. clock envs n \<le> t \<longrightarrow> view (sv_store s') t = view (sv_store s) t) \<and>
    (\<forall>x d. view (sv_store s) (clock envs n) k = Some (x, d) \<longrightarrow> kind = typeName x \<longrightarrow> (v, sz) = shownValue x)"
proof -
  let ?t = "clock envs n"
  consider "kind = ''list''" | "kind = ''hash''" | "kind \<noteq> ''list''" "kind \<noteq> ''hash''" by blast
  then show ?thesis
  proof cases
    case 1
    have "serverDoer F pr envs [''LRANGE'', k, ''0'', ''-1''] (cs, s, n) =
        (Inr (asRead F (cs_proto cs) (cmdLRange (envs n) [''LRANGE'', k, ''0'', ''-1''] s)), (cs, s, n + 1))"
      by (rule read_call [OF ui_commands(5) assms(1)]) simp_all
    moreover have "cmdLRange (envs n) [''LRANGE'', k, ''0'', ''-1''] s = RArray (bulks xs)"
      if "view (sv_store s) ?t k = Some (VList xs, d)" for xs d
      using step_list_reads(2) [OF assms(3), of ?t k 0 "-1"] that
      by (cases "Store_LRange ?t k 0 (- 1) (sv_store s)")
        (auto simp: step_ok_def readList_def cmdLRange_def parse_range lrange_all)
    ultimately show ?thesis using 1 assms(2) by (auto simp: doValue_def asRead_def bulks_def valArray_def typeName_kinds parse_range lrange_all)
  next
    case 2
    have "serverDoer F pr envs [''HGETALL'', k] (cs, s, n) = (Inr (asRead F (cs_proto cs) (cmdHGetAll (envs n) [''HGETALL'', k] s)), (cs, s, n + 1))"
      by (rule read_call [OF ui_commands(6) assms(1)]) simp_all
    moreover have "cmdHGetAll (envs n) [''HGETALL'', k] s = RMap (bulks (concat (map (\<lambda>(f, v). [f, v]) m)))"
      if "view (sv_store s) ?t k = Some (VHash m, d)" for m d
      using step_hash_reads(6) [OF assms(3), of ?t k] that
      by (cases "Store_HGetAll ?t k (sv_store s)") (auto simp: step_ok_def readHash_def cmdHGetAll_def)
    ultimately show ?thesis using 2 assms(2) by (auto simp: doValue_def asRead_def bulks_def valArray_def typeName_kinds length_flat)
  next
    case 3
    obtain r st where g: "Store_Get ?t k (sv_store s) = (r, st)" by fastforce
    let ?r = "case r of Inl _ \<Rightarrow> wrongTypeErr | Inr v \<Rightarrow> bulkOrNull v"
    have "dispatch pr (envs n) cs [''GET'', k] s = h_fn (mkHandler (onServer cmdGet) 2 2 False True) (envs n) cs [''GET'', k] s"
      by (rule dispatch_local [OF assms(1)]) (use ui_commands(7) in \<open>simp_all add: arity_ok_def mkHandler_def\<close>)
    then have "serverDoer F pr envs [''GET'', k] (cs, s, n) = (Inr (asRead F (cs_proto cs) ?r), (cs, setStore st s, n + 1))"
      by (simp add: serverDoer_def mkHandler_def onServer_def cmdGet_def g)
    moreover have "?r = RBulk b" if "view (sv_store s) ?t k = Some (VString b, d)" for b d
      using step_Get [OF assms(3), of ?t k] that g by (cases r) (auto simp: step_ok_def bulkOrNull_def)
    moreover have "view st t = view (sv_store s) t" if "?t \<le> t" for t using view_get(1) [OF assms(3) that, of k] g by simp
    ultimately show ?thesis using 3 assms(2) by (auto simp: doValue_def asRead_def dest!: typeName_kinds(3))
  qed
qed

lemma kindOf_rows:
  "k \<in> set ks \<Longrightarrow> \<exists>m. m < n + 2 * length ks \<and> kindOf (shownRows envs st n ks) k = kindLabel (view st (clock envs m)) k"
proof (induction ks arbitrary: n)
  case (Cons a ks)
  show ?case
  proof (cases "a = k")
    case True
    then show ?thesis by (intro exI [of _ n]) (simp add: kindOf_def)
  next
    case False
    with Cons.IH [of "n + 2"] Cons.prems show ?thesis by (auto simp: kindOf_def)
  qed
qed simp

lemma setSize_rows:
  "map (\<lambda>r. r\<lparr>ki_Size := 0\<rparr>) (setSize k sz (shownRows envs st n ks)) = shownRows envs st n ks"
  "map (\<lambda>r. r\<lparr>ki_Size := 0\<rparr>) (shownRows envs st n ks) = shownRows envs st n ks"
  "k \<in> set ks \<Longrightarrow> map_option ki_Size (find (\<lambda>r. ki_Name r = k) (setSize k sz (shownRows envs st n ks))) = Some sz"
  by (induction ks arbitrary: n) auto

text \<open>
  Claim C33. A refresh shows the keyspace: against a server that answers locally, a refresh of the terminal UI ends
  without an error and carries the page that SCAN returned with its next cursor, for each key the
  type and the remaining seconds it has in the keyspace when it is asked for, the status of the
  server, and, for a focused key of the page that is still live, exactly its value (all elements
  of a list, all fields and values of a hash) and its size; the keyspace is not changed. (The
  clock does not run backwards.)\<close>

theorem refresh_shows_keyspace:
  assumes "store_ok (sv_store s)" and "local_run cs s" and "cs_proto cs = Proto2" and "\<And>i. info_ok (envs i) s"
    and "\<And>i j. i \<le> j \<Longrightarrow> ev_storeNow (envs i) \<le> ev_storeNow (envs j)" and "0 < cnt" and "int64 cnt"
    and "Store_Scan (ev_order (envs n) (st_data (sv_store s))) (ev_storeNow (envs n)) (unat cur) (if pat = [] then ''*'' else pat) cnt =
      Inr (names, nxt)" and "nxt \<le> MaxUint64" and "nv = n + 2 * length names + 2"
  shows "\<exists>rf s' n'. fetchRefresh (serverDoer F pr envs) pat cur cnt focused gen lat (cs, s, n) = (rf, cs, s', n') \<and>
    rf_err rf = [] \<and> rf_gen rf = gen \<and> rf_nextCursor rf = of_nat nxt \<and>
    map (\<lambda>r. r\<lparr>ki_Size := 0\<rparr>) (rf_keys rf) = shownRows envs (sv_store s) (n + 1) names \<and>
    rf_info rf = shownInfo (envs (nv - 1)) s \<and> rf_hasVal rf = (focused \<noteq> []) \<and>
    (\<forall>x d. focused \<noteq> [] \<longrightarrow> focused \<in> set names \<longrightarrow> view (sv_store s) (ev_storeNow (envs nv)) focused = Some (x, d) \<longrightarrow>
       rf_value rf = fst (shownValue x) \<and>
       map_option ki_Size (find (\<lambda>r. ki_Name r = focused) (rf_keys rf)) = Some (snd (shownValue x))) \<and>
    (\<forall>t. ev_storeNow (envs nv) \<le> t \<longrightarrow> view (sv_store s') t = view (sv_store s) t)"
proof -
  let ?c = "serverDoer F pr envs" and ?p = "if pat = [] then ''*'' else pat"
  let ?rows = "shownRows envs (sv_store s) (n + 1) names" and ?k = "kindOf (shownRows envs (sv_store s) (n + 1) names) focused"
  have sc: "doScanPage ?c cur ?p cnt (cs, s, n) = (Inr (names, of_nat nxt), (cs, s, n + 1))"
    by (rule scan_call [where envs = envs and n = n, OF assms(2,3,6,7,9,8)])
  have ro: "fetchRows ?c names (cs, s, n + 1) = (Inr ?rows, (cs, s, nv - 1))"
    using rows_call [OF assms(2,1), of F pr envs names "n + 1"] assms(10) by simp
  have nv: "nv - 1 + 1 = nv" using assms(10) by simp
  have inf: "doInfo ?c (cs, s, nv - 1) = (Inr (shownInfo (envs (nv - 1)) s), (cs, s, nv))"
    using info_call [where envs = envs and n = "nv - 1", OF assms(2) assms(4)] nv by simp
  obtain v sz s' where v: "doValue ?c focused ?k (cs, s, nv) = (Inr (v, sz), (cs, s', nv + 1))"
    "\<forall>t. clock envs nv \<le> t \<longrightarrow> view (sv_store s') t = view (sv_store s) t"
    "\<forall>x d. view (sv_store s) (clock envs nv) focused = Some (x, d) \<longrightarrow> ?k = typeName x \<longrightarrow> (v, sz) = shownValue x"
    using value_call [OF assms(2,3,1), of F pr envs focused ?k nv] by blast
  have k: "?k = typeName x" if f: "focused \<in> set names" and x: "view (sv_store s) (clock envs nv) focused = Some (x, d)" for x d
  proof -
    obtain m where m: "m < n + 1 + 2 * length names" "?k = kindLabel (view (sv_store s) (clock envs m)) focused"
      using kindOf_rows [OF f, of "n + 1" envs "sv_store s"] by blast
    then have "m \<le> nv" using assms(10) by simp
    have "view (sv_store s) (clock envs nv) = live (clock envs nv) (view (sv_store s) (clock envs m))"
      by (rule view_later) (rule assms(5) [OF \<open>m \<le> nv\<close>])
    then have "view (sv_store s) (clock envs m) focused = Some (x, d)" using x by (auto simp: live_def split: option.splits if_splits)
    then show ?thesis using m(2) by (simp add: kindLabel_def)
  qed
  show ?thesis
  proof (cases "focused = []")
    case True
    then show ?thesis using sc ro inf by (simp add: fetchRefresh_def setSize_rows(2))
  next
    case False
    have x: "v = fst (shownValue x) \<and> sz = snd (shownValue x)"
      if "focused \<in> set names" "view (sv_store s) (clock envs nv) focused = Some (x, d)" for x d
      using v(3) k [OF that] that(2) by (metis fst_conv snd_conv)
    have f: "fetchRefresh ?c pat cur cnt focused gen lat (cs, s, n) =
        (\<lparr>rf_keys = setSize focused sz ?rows, rf_nextCursor = of_nat nxt, rf_value = v, rf_hasVal = True,
          rf_info = shownInfo (envs (nv - 1)) s, rf_latency = lat, rf_err = [], rf_gen = gen\<rparr>, cs, s', nv + 1)"
      using False sc ro inf v(1) by (simp add: fetchRefresh_def)
    show ?thesis unfolding f using False v(2) x by (auto simp: setSize_rows simp del: map_option_eq_Some)
  qed
qed

text \<open>A leader with one replica two entries behind.\<close>

definition demoLeader :: env where
  "demoLeader = (demoEnv 5000000000)\<lparr>ev_cluster := \<lparr>cst_leader = True, cst_hint = [], cst_addr = [], cst_commit = 9, cst_apply = 9, cst_match = [(''b'', 7)]\<rparr>\<rparr>"

theorem info_parsed_witness:
  "is_repl (parseInfo (valBytes (cmdInfo demoLeader [''INFO'']
     ((demoServer None demoWorld)\<lparr>sv_replicated := True, sv_peers := [\<lparr>pe_ID = ''b'', pe_Addr = ''h:6'', pe_ClientAddr = ''h:7''\<rparr>]\<rparr>)))) =
   \<lparr>rs_role = ''master'', rs_off = 9, rs_peers = [\<lparr>rp_addr = ''h:7'', rp_state = ''online'', rp_off = 7, rp_lag = 2\<rparr>]\<rparr>"
proof -
  let ?s = "(demoServer None demoWorld)\<lparr>sv_replicated := True, sv_peers := [\<lparr>pe_ID = ''b'', pe_Addr = ''h:6'', pe_ClientAddr = ''h:7''\<rparr>]\<rparr>"
  have h: "splitHostPort ''h:7'' = (''h'', ''7'')" and t: "tcpPort ?s = ''6390''"
    by (simp_all add: splitHostPort_def SplitHostPort_def cutLast_def tcpPort_def demoServer_def)
  have "info_ok demoLeader ?s"
    using h t by (simp add: info_ok_def addr_ok_def demoLeader_def demoEnv_def demoServer_def matchOf_def Store_DBSize_def NewStore_def
        int64_def MinInt64_def MaxInt64_def)
  from info_parsed [OF this] h show ?thesis
    by (simp add: shownInfo_def shownRepl_def replicaPeers_def demoLeader_def demoEnv_def demoServer_def shownPeer_def matchOf_def List.map_filter_simps)
qed

lemma other_data: "st_data otherStore = [(''k'', (newEntry typeString 1)\<lparr>e_str := ''v'', e_expireAt := zeroTime\<rparr>)]"
  by (simp add: otherStore_def store_defs)

theorem refresh_shows_keyspace_witness:
  "\<exists>rf w. fetchRefresh (serverDoer noFloat noPropose (\<lambda>i. demoEnv (int i))) [] 0 50 ''k'' 1 0
      (newConnState 1 True, setStore otherStore (demoServer None demoWorld), 0) = (rf, w) \<and>
    rf_err rf = [] \<and> rf_value rf = RBulk ''v''"
proof -
  let ?s = "setStore otherStore (demoServer None demoWorld)" and ?cs = "newConnState 1 True" and ?envs = "\<lambda>i. demoEnv (int i)"
  have ok: "store_ok (sv_store ?s)" by (simp add: otherStore_ok)
  have l: "local_run ?cs ?s" by (simp add: local_run_def newConnState_def demoServer_def)
  have t: "tcpPort ?s = ''6390''" by (simp add: splitHostPort_def SplitHostPort_def cutLast_def tcpPort_def demoServer_def)
  have i: "info_ok (?envs i) ?s" for i
    using t by (simp add: info_ok_def demoEnv_def Store_DBSize_def other_data int64_def MinInt64_def MaxInt64_def) (simp add: demoServer_def)
  have v: "view (sv_store ?s) (ev_storeNow (?envs 4)) ''k'' = Some (VString ''v'', zeroTime)"
    by (simp add: view_def other_data newEntry_def expired_def isZero_def avalOf_def)
  have sc: "Store_Scan (ev_order (?envs 0) (st_data (sv_store ?s))) (ev_storeNow (?envs 0)) (unat (0 :: 64 word)) (if ([] :: string) = [] then ''*'' else []) 50 =
      Inr ([''k''], 0)"
    by (simp add: Store_Scan_def other_data newEntry_def expired_def isZero_def demoEnv_def pathMatch_star)
  have "\<exists>rf s' n'. fetchRefresh (serverDoer noFloat noPropose ?envs) [] 0 50 ''k'' 1 0 (?cs, ?s, 0) = (rf, ?cs, s', n') \<and>
    rf_err rf = [] \<and> rf_gen rf = 1 \<and> rf_nextCursor rf = of_nat 0 \<and>
    map (\<lambda>r. r\<lparr>ki_Size := 0\<rparr>) (rf_keys rf) = shownRows ?envs (sv_store ?s) (0 + 1) [''k''] \<and>
    rf_info rf = shownInfo (?envs (4 - 1)) ?s \<and> rf_hasVal rf = (''k'' \<noteq> []) \<and>
    (\<forall>x d. ''k'' \<noteq> [] \<longrightarrow> ''k'' \<in> set [''k''] \<longrightarrow> view (sv_store ?s) (ev_storeNow (?envs 4)) ''k'' = Some (x, d) \<longrightarrow>
       rf_value rf = fst (shownValue x) \<and>
       map_option ki_Size (find (\<lambda>r. ki_Name r = ''k'') (rf_keys rf)) = Some (snd (shownValue x))) \<and>
    (\<forall>t. ev_storeNow (?envs 4) \<le> t \<longrightarrow> view (sv_store s') t = view (sv_store ?s) t)"
    by (rule refresh_shows_keyspace [where envs = ?envs, OF ok l _ i _ _ _ sc])
      (simp_all add: newConnState_def demoEnv_def int64_def MinInt64_def MaxInt64_def)
  then show ?thesis using v by auto
qed

end
