(* ===== verification/Cli.thy ===== *)
theory Cli
  imports Fetch "HOL-Library.Monad_Syntax"
begin

text \<open>
  The command line client (\<^verbatim>\<open>cmd/toykv-cli/main.go\<close>) after flag parsing: one command, a script on standard
  input, and the prompt. The client behind \<^verbatim>\<open>cli.Do\<close> is a \<^verbatim>\<open>Doer\<close>; what is printed is collected for both output streams.
\<close>

section \<open>main.go\<close>

definition exitOK :: int where "exitOK = 0"
definition exitErr :: int where "exitErr = 1"
definition exitFatal :: int where "exitFatal = 2"

record 'w console =
  co_world :: 'w
  co_out :: string
  co_err :: string

definition putOut :: "string \<Rightarrow> 'w console \<Rightarrow> 'w console" where
  "putOut s co = co\<lparr>co_out := co_out co @ s\<rparr>"

definition putErr :: "string \<Rightarrow> 'w console \<Rightarrow> 'w console" where
  "putErr s co = co\<lparr>co_err := co_err co @ s\<rparr>"

definition putReply :: "quoting \<Rightarrow> floatlib \<Rightarrow> bool \<Rightarrow> resp_value \<Rightarrow> 'w console \<Rightarrow> 'w console" where
  "putReply Q F raw v co = (case Print Q F raw v of (out, err) \<Rightarrow> putErr err (putOut out co))"

definition isErr :: "resp_value \<Rightarrow> bool" where
  "isErr v = (case v of RError _ \<Rightarrow> True | _ \<Rightarrow> False)"

definition doOneShot :: "quoting \<Rightarrow> floatlib \<Rightarrow> bool \<Rightarrow> 'w doer \<Rightarrow> string list \<Rightarrow> 'w console \<Rightarrow> int \<times> 'w console" where
  "doOneShot Q F raw cli argv co =
     (case cli argv (co_world co) of
        (Inl e, w) \<Rightarrow> (exitFatal, putErr (''toykv-cli: '' @ e @ nl) (co\<lparr>co_world := w\<rparr>))
      | (Inr v, w) \<Rightarrow> (if isErr v then exitErr else exitOK, putReply Q F raw v (co\<lparr>co_world := w\<rparr>)))"

definition dispatchLine :: "quoting \<Rightarrow> floatlib \<Rightarrow> bool \<Rightarrow> 'w doer \<Rightarrow> string \<Rightarrow> 'w console \<Rightarrow> int \<times> 'w console" where
  "dispatchLine Q F raw cli line co =
     (case TokeniseLine line of
        Inl e \<Rightarrow> (exitErr, putErr (''(error) parse: '' @ tokenErrText e @ nl) co)
      | Inr argv \<Rightarrow>
          if argv = [] then (exitOK, co)
          else (case cli argv (co_world co) of
                  (Inl e, w) \<Rightarrow> (exitFatal, putErr (''toykv-cli: '' @ e @ nl) (co\<lparr>co_world := w\<rparr>))
                | (Inr v, w) \<Rightarrow> (if isErr v then exitErr else exitOK, putReply Q F raw v (co\<lparr>co_world := w\<rparr>))))"

text \<open>A line without a command: white space only, or a comment.\<close>

definition skipLine :: "string \<Rightarrow> bool" where
  "skipLine line \<longleftrightarrow> trimSpace line = [] \<or> hasPrefix ''#'' (trimSpace line)"

text \<open>
  The tokens of \<^verbatim>\<open>bufio.Scanner\<close> with a buffer of at most 1 MiB: lines without their end (a line feed, and one
  carriage return before it), the last line only when it is not empty; a line that does not fit ends the scan with an
  error, and so does the error of a read (\<open>rerr\<close>) after the lines read before it.
\<close>

definition maxToken :: nat where "maxToken = 1048576"

definition dropCR :: "string \<Rightarrow> string" where
  "dropCR l = (if l \<noteq> [] \<and> last l = CHR 0x0D then butlast l else l)"

definition textLines :: "string \<Rightarrow> string list" where
  "textLines s = (let ls = splitOn (CHR 0x0A) s in if last ls = [] then butlast ls else ls)"

definition tooLong :: string where "tooLong = ''bufio.Scanner: token too long''"

fun pipedLoop :: "quoting \<Rightarrow> floatlib \<Rightarrow> bool \<Rightarrow> 'w doer \<Rightarrow> string option \<Rightarrow> string list \<Rightarrow> int \<Rightarrow> 'w console \<Rightarrow> int \<times> 'w console" where
  "pipedLoop Q F raw cli rerr [] lst co =
     (case rerr of None \<Rightarrow> (lst, co) | Some e \<Rightarrow> (exitFatal, putErr (''toykv-cli: read: '' @ e @ nl) co))"
| "pipedLoop Q F raw cli rerr (l # ls) lst co =
     (if length l \<ge> maxToken then (exitFatal, putErr (''toykv-cli: read: '' @ tooLong @ nl) co)
      else if skipLine (dropCR l) then pipedLoop Q F raw cli rerr ls lst co
      else case dispatchLine Q F raw cli (dropCR l) co of
             (rc, co') \<Rightarrow> if rc = exitFatal then (exitFatal, co') else pipedLoop Q F raw cli rerr ls rc co')"

definition doPiped :: "quoting \<Rightarrow> floatlib \<Rightarrow> bool \<Rightarrow> 'w doer \<Rightarrow> string \<Rightarrow> string option \<Rightarrow> 'w console \<Rightarrow> int \<times> 'w console" where
  "doPiped Q F raw cli stdin rerr co = pipedLoop Q F raw cli rerr (textLines stdin) exitOK co"

text \<open>\<^verbatim>\<open>strings.TrimRight(line, "\r\n")\<close>.\<close>

definition trimEnds :: "string \<Rightarrow> string" where
  "trimEnds s = rev (dropWhile (\<lambda>c. c = CHR 0x0D \<or> c = CHR 0x0A) (rev s))"

text \<open>
  The prompt, over the lines of the terminal (each with its line feed but the last, which ends at the end of the
  input or with a read error).
\<close>

fun replLoop :: "quoting \<Rightarrow> floatlib \<Rightarrow> bool \<Rightarrow> 'w doer \<Rightarrow> string \<Rightarrow> string option \<Rightarrow> string list \<Rightarrow> 'w console \<Rightarrow> int \<times> 'w console" where
  "replLoop Q F raw cli prompt rerr [] co = (exitOK, co)"
| "replLoop Q F raw cli prompt rerr (line # ls) co0 =
     (let co = putOut prompt co0; atEnd = (ls = []); l = trimEnds line; trimmed = trimSpace l
      in case (atEnd, rerr) of
           (True, Some e) \<Rightarrow> (exitFatal, putErr (''toykv-cli: read: '' @ e @ nl) co)
         | _ \<Rightarrow>
             if atEnd \<and> trimSpace line = [] then (exitOK, putOut nl co)
             else if trimmed = [] \<or> hasPrefix ''#'' trimmed
             then (if atEnd then (exitOK, co) else replLoop Q F raw cli prompt rerr ls co)
             else if trimmed \<in> {''quit'', ''exit''} then (exitOK, co)
             else case dispatchLine Q F raw cli l co of
                    (rc, co') \<Rightarrow>
                      if rc = exitFatal then (exitFatal, co')
                      else if atEnd then (exitOK, co')
                      else replLoop Q F raw cli prompt rerr ls co')"

definition doREPL :: "quoting \<Rightarrow> floatlib \<Rightarrow> bool \<Rightarrow> 'w doer \<Rightarrow> string \<Rightarrow> string option \<Rightarrow> string \<Rightarrow> 'w console \<Rightarrow> int \<times> 'w console" where
  "doREPL Q F raw cli stdin rerr addr co = replLoop Q F raw cli (''toykv:'' @ addr @ ''> '') rerr (splitOn (CHR 0x0A) stdin) co"

text \<open>The mode: a command on the command line, a terminal, or a script.\<close>

definition cliRun :: "quoting \<Rightarrow> floatlib \<Rightarrow> bool \<Rightarrow> string \<Rightarrow> (string + 'w doer) \<Rightarrow> string list \<Rightarrow> bool \<Rightarrow> string \<Rightarrow> string option \<Rightarrow>
    'w console \<Rightarrow> int \<times> 'w console" where
  "cliRun Q F raw addr dialed args isTTY stdin rerr co =
     (case dialed of
        Inl e \<Rightarrow> (exitFatal, putErr (''toykv-cli: dial '' @ addr @ '': '' @ e @ nl) co)
      | Inr cli \<Rightarrow>
          if args \<noteq> [] then doOneShot Q F raw cli args co
          else if isTTY then doREPL Q F raw cli stdin rerr addr co
          else doPiped Q F raw cli stdin rerr co)"

section \<open>The contract of a client\<close>

text \<open>
  What the program relies on: where \<open>answer\<close> is defined, the client returns its reply and moves to its state. A line of a script
  stands for nothing or for a command.
\<close>

definition scriptLine :: "string \<Rightarrow> string list option \<Rightarrow> bool" where
  "scriptLine l c = (case c of
      None \<Rightarrow> skipLine l
    | Some argv \<Rightarrow> \<not> skipLine l \<and> argv \<noteq> [] \<and> TokeniseLine l = Inr argv)"

fun answers :: "(string list \<Rightarrow> 'w \<Rightarrow> (resp_value \<times> 'w) option) \<Rightarrow> string list list \<Rightarrow> 'w \<Rightarrow> (resp_value list \<times> 'w) option" where
  "answers answer [] w = Some ([], w)"
| "answers answer (argv # cmds) w =
     (case answer argv w of
        None \<Rightarrow> None
      | Some (v, w1) \<Rightarrow> map_option (apfst ((#) v)) (answers answer cmds w1))"

definition printed :: "quoting \<Rightarrow> floatlib \<Rightarrow> bool \<Rightarrow> resp_value list \<Rightarrow> string \<times> string" where
  "printed Q F raw vs = (concat (map (fst \<circ> Print Q F raw) vs), concat (map (snd \<circ> Print Q F raw) vs))"

definition exitCode :: "int \<Rightarrow> resp_value list \<Rightarrow> int" where
  "exitCode lst vs = (if vs = [] then lst else if isErr (last vs) then exitErr else exitOK)"

lemma textLines_lines: "\<forall>l \<in> set ls. CHR 0x0A \<notin> set l \<Longrightarrow> textLines (concat (map (\<lambda>l. l @ nl) ls)) = ls"
  using splitOn_lines [of ls "CHR 0x0A" "[]"] by (simp add: textLines_def)

locale answering_client =
  fixes cli :: "'w doer" and answer :: "string list \<Rightarrow> 'w \<Rightarrow> (resp_value \<times> 'w) option"
  assumes answered: "answer argv w = Some (v, w') \<Longrightarrow> cli argv w = (Inr v, w')"
begin

lemma line_answered:
  assumes "argv \<noteq> []" and "TokeniseLine l = Inr argv" and "answer argv w = Some (v, w')"
  shows "dispatchLine Q F raw cli l \<lparr>co_world = w, co_out = out, co_err = err\<rparr> =
    (if isErr v then exitErr else exitOK,
     \<lparr>co_world = w', co_out = out @ fst (Print Q F raw v), co_err = err @ snd (Print Q F raw v)\<rparr>)"
  using assms(1,2) answered [OF assms(3)] by (simp add: dispatchLine_def putReply_def putOut_def putErr_def case_prod_beta)

lemma loop_answered:
  assumes "list_all2 scriptLine ls cmds" and "\<forall>l \<in> set ls. length l < maxToken \<and> dropCR l = l"
    and "answers answer (List.map_filter (\<lambda>c. c) cmds) w = Some (vs, w')"
  shows "pipedLoop Q F raw cli None ls lst \<lparr>co_world = w, co_out = out, co_err = err\<rparr> =
    (exitCode lst vs, \<lparr>co_world = w', co_out = out @ fst (printed Q F raw vs), co_err = err @ snd (printed Q F raw vs)\<rparr>)"
  using assms
proof (induction ls cmds arbitrary: w vs lst out err rule: list_all2_induct)
  case Nil
  then show ?case by (simp add: List.map_filter_simps exitCode_def printed_def)
next
  case (Cons l ls c cmds)
  have l: "length l < maxToken" "dropCR l = l" "\<forall>l \<in> set ls. length l < maxToken \<and> dropCR l = l" using Cons.prems(1) by auto
  show ?case
  proof (cases c)
    case None
    then have "skipLine l" using Cons.hyps(1) by (simp add: scriptLine_def)
    then show ?thesis using l Cons.IH [OF l(3)] Cons.prems(2) None by (simp add: List.map_filter_simps)
  next
    case (Some argv)
    then have t: "\<not> skipLine l" "argv \<noteq> []" "TokeniseLine l = Inr argv" using Cons.hyps(1) by (auto simp: scriptLine_def)
    obtain v w1 vs1 where d: "answer argv w = Some (v, w1)" "answers answer (List.map_filter (\<lambda>c. c) cmds) w1 = Some (vs1, w')" "vs = v # vs1"
      using Cons.prems(2) Some by (auto simp: List.map_filter_simps split: option.splits)
    show ?thesis
      using l t line_answered [OF t(2,3) d(1)] Cons.IH [OF l(3) d(2)] d(3)
      by (simp add: exitErr_def exitOK_def exitFatal_def exitCode_def printed_def)
  qed
qed

lemma script_answered:
  assumes "list_all2 scriptLine ls cmds" and "\<forall>l \<in> set ls. CHR 0x0A \<notin> set l \<and> length l < maxToken \<and> dropCR l = l"
    and "answers answer (List.map_filter (\<lambda>c. c) cmds) w = Some (vs, w')"
  shows "doPiped Q F raw cli (concat (map (\<lambda>l. l @ nl) ls)) None \<lparr>co_world = w, co_out = [], co_err = []\<rparr> =
    (exitCode exitOK vs, \<lparr>co_world = w', co_out = fst (printed Q F raw vs), co_err = snd (printed Q F raw vs)\<rparr>)"
  using loop_answered [OF assms(1) _ assms(3), of Q F raw exitOK "[]" "[]"] assms(2)
  by (simp add: doPiped_def textLines_lines)

lemma one_shot_answered:
  assumes "answer argv w = Some (v, w')"
  shows "doOneShot Q F raw cli argv \<lparr>co_world = w, co_out = [], co_err = []\<rparr> =
    (exitCode exitOK [v], \<lparr>co_world = w', co_out = fst (printed Q F raw [v]), co_err = snd (printed Q F raw [v])\<rparr>)"
  using answered [OF assms] by (simp add: doOneShot_def putReply_def putOut_def putErr_def case_prod_beta exitCode_def printed_def)

end

section \<open>The whole way to a server\<close>

text \<open>
  The redirecting client as a \<^verbatim>\<open>Doer\<close> (\<open>msgOf e\<close> is the message of an error), over the fleet of the client theory. It answers while
  the connection stands, the command fits the reader, and the server replies within the limits and without a redirect.
\<close>

definition clusterDoer :: "(client_err \<Rightarrow> string) \<Rightarrow> floatlib \<Rightarrow> 'w network \<Rightarrow> (nat \<Rightarrow> int \<Rightarrow> int) \<Rightarrow> (clusterClient \<times> 'w) doer" where
  "clusterDoer msgOf F net jitters argv = (\<lambda>(cc, w).
     (case Cluster_DoBytes F net jitters argv cc w of
        (Inl e, cc', w', slept) \<Rightarrow> (Inl (msgOf e), (cc', w'))
      | (Inr v, cc', w', slept) \<Rightarrow> (Inr v, (cc', w'))))"

definition wireAnswer :: "floatlib \<Rightarrow> (string \<Rightarrow> propose) \<Rightarrow> (string \<Rightarrow> nat \<Rightarrow> env) \<Rightarrow> string list \<Rightarrow> clusterClient \<times> fleet \<Rightarrow>
    (resp_value \<times> clusterClient \<times> fleet) option" where
  "wireAnswer F prs envs argv = (\<lambda>(cc, w). let c = cc_inner cc in do {
     (addr, cs) \<leftarrow> map_of (ft_conns w) (cl_conn c);
     s \<leftarrow> map_of (ft_servers w) addr;
     (r, cs', s') \<leftarrow> dispatch (prs addr) (envs addr (ft_clock w)) cs argv s;
     let v = asRead F (cs_proto cs') r;
     if \<not> cl_closed c \<and> cl_in c = [] \<and> command_ok argv \<and> wire_ok F MaxDepth v \<and> \<not> isNotLeader v
     then Some (v, cc, w\<lparr>ft_servers := AList.update addr s' (ft_servers w), ft_conns := AList.update (cl_conn c) (addr, cs') (ft_conns w),
                         ft_clock := ft_clock w + 1\<rparr>)
     else None
   })"

lemma wire_answered:
  assumes "wireAnswer F prs envs argv ccw = Some (v, ccw')"
  shows "clusterDoer msgOf F (fleetNet F prs envs) jitters argv ccw = (Inr v, ccw')"
proof -
  obtain cc w where cw: "ccw = (cc, w)" by force
  from assms cw obtain addr cs s r cs' s' where a: "map_of (ft_conns w) (cl_conn (cc_inner cc)) = Some (addr, cs)"
    "map_of (ft_servers w) addr = Some s" "dispatch (prs addr) (envs addr (ft_clock w)) cs argv s = Some (r, cs', s')"
    "v = asRead F (cs_proto cs') r" "\<not> cl_closed (cc_inner cc)" "cl_in (cc_inner cc) = []" "command_ok argv" "wire_ok F MaxDepth v" "\<not> isNotLeader v"
    "ccw' = (cc, w\<lparr>ft_servers := AList.update addr s' (ft_servers w), ft_conns := AList.update (cl_conn (cc_inner cc)) (addr, cs') (ft_conns w),
       ft_clock := ft_clock w + 1\<rparr>)"
    by (auto simp: wireAnswer_def Let_def bind_eq_Some_conv split: if_splits)
  have "connected w (cc_inner cc) addr cs s" using a by (simp add: connected_def)
  from fleet_call [where prs = prs and envs = envs, OF this a(7,3)] a
  have "Client_DoBytes F (fleetNet F prs envs) argv (cc_inner cc) w = (Inr v, cc_inner cc, snd ccw')" by simp
  then show ?thesis using a(9,10) cw by (simp add: clusterDoer_def Cluster_DoBytes_def doLoop.simps Let_def)
qed

interpretation wired: answering_client "clusterDoer msgOf F (fleetNet F prs envs) jitters" "wireAnswer F prs envs" for msgOf F prs envs jitters
  by unfold_locales (rule wire_answered)

text \<open>Answers over the wire are those of the dispatcher.\<close>

lemma answers_converse:
  assumes "connected w (cc_inner cc) addr cs s" and "\<forall>argv \<in> set cmds. command_ok argv"
    and "converse (prs addr) (\<lambda>m. envs addr (t + m)) cmds n cs s = Some (rs, cs', s')" and "t + n = ft_clock w"
    and "\<forall>(r, p) \<in> set rs. wire_ok F MaxDepth (asRead F p r) \<and> \<not> isNotLeader (asRead F p r)"
  shows "\<exists>w'. answers (wireAnswer F prs envs) cmds (cc, w) = Some (map (\<lambda>(r, p). asRead F p r) rs, cc, w') \<and> connected w' (cc_inner cc) addr cs' s'"
  using assms
proof (induction cmds arbitrary: w n cs s rs)
  case (Cons argv cmds)
  obtain r cs1 s1 rs1 where d: "dispatch (prs addr) (envs addr (ft_clock w)) cs argv s = Some (r, cs1, s1)" "rs = (r, cs_proto cs1) # rs1"
    "converse (prs addr) (\<lambda>m. envs addr (t + m)) cmds (n + 1) cs1 s1 = Some (rs1, cs', s')"
    using Cons.prems(3,4) by (auto split: option.splits)
  let ?w = "w\<lparr>ft_servers := AList.update addr s1 (ft_servers w), ft_conns := AList.update (cl_conn (cc_inner cc)) (addr, cs1) (ft_conns w),
      ft_clock := ft_clock w + 1\<rparr>"
  have a: "wireAnswer F prs envs argv (cc, w) = Some (asRead F (cs_proto cs1) r, cc, ?w)"
    using Cons.prems(1,2,5) d(1,2) by (simp add: wireAnswer_def connected_def Let_def)
  have "connected ?w (cc_inner cc) addr cs1 s1" using Cons.prems(1) by (simp add: connected_def)
  from Cons.IH [OF this _ d(3)] Cons.prems(2,4,5) d(2) a show ?case by auto
qed auto

text \<open>
  Claim C36. A script runs as the server executes it: the lines of a script, each blank, a comment or the spelling
  of a command, go through the tokeniser, the redirecting client, the wire and the connection loop of
  the server; the two output streams receive exactly the printed replies of the dispatcher to these
  commands in order (errors on the error stream, everything else on the standard output), the server
  ends in the state the commands lead to, and the exit code is 1 when the last reply is an error
  and 0 otherwise, also for a script without a command. The conditions: lines are shorter than the
  scanner's limit, contain no line feed and end in no carriage return; commands are within the limits of the server's reader and none
  blocks for ever; every reply is within the limits of the client's reader, is one frame on the
  wire (no line end inside a simple string or an error) and is no redirect.\<close>

theorem script_runs:
  assumes "list_all2 scriptLine ls cmds" and "\<forall>l \<in> set ls. CHR 0x0A \<notin> set l \<and> length l < maxToken \<and> dropCR l = l"
    and "connected w (cc_inner cc) addr cs s" and "\<forall>argv \<in> set (List.map_filter (\<lambda>c. c) cmds). command_ok argv"
    and "converse (prs addr) (\<lambda>m. envs addr (ft_clock w + m)) (List.map_filter (\<lambda>c. c) cmds) 0 cs s = Some (rs, cs', s')"
    and "\<forall>(r, p) \<in> set rs. wire_ok F MaxDepth (asRead F p r) \<and> \<not> isNotLeader (asRead F p r)" and "vs = map (\<lambda>(r, p). asRead F p r) rs"
  shows "\<exists>w'. doPiped Q F raw (clusterDoer msgOf F (fleetNet F prs envs) jitters) (concat (map (\<lambda>l. l @ nl) ls)) None
      \<lparr>co_world = (cc, w), co_out = [], co_err = []\<rparr> =
    (exitCode exitOK vs, \<lparr>co_world = (cc, w'), co_out = fst (printed Q F raw vs), co_err = snd (printed Q F raw vs)\<rparr>) \<and>
    connected w' (cc_inner cc) addr cs' s'"
proof -
  obtain w' where "answers (wireAnswer F prs envs) (List.map_filter (\<lambda>c. c) cmds) (cc, w) = Some (vs, cc, w')" "connected w' (cc_inner cc) addr cs' s'"
    using answers_converse [where prs = prs and envs = envs and n = 0, OF assms(3,4,5) _ assms(6)] assms(7) by auto
  with wired.script_answered [OF assms(1,2) this(1)] show ?thesis by blast
qed

lemma TokeniseLine_ASCII:
  "\<forall>c \<in> set l. of_char c < (128::nat) \<Longrightarrow> TokeniseLine l = map_sum id (map stringOf) (Tokenise (map of_char l))"
  by (simp add: TokeniseLine_def runesOf_ASCII)

lemma demo_script: "list_all2 scriptLine [''# note'', ''echo hi'', ''nope''] [None, Some [''echo'', ''hi''], Some [''nope'']]"
proof -
  have "skipLine ''# note''" "\<not> skipLine ''echo hi''" "\<not> skipLine ''nope''" by code_simp+
  moreover have "TokeniseLine ''echo hi'' = Inr [''echo'', ''hi'']" "TokeniseLine ''nope'' = Inr [''nope'']"
    by (simp_all add: TokeniseLine_ASCII Tokenise_def IsSpace_def stringOf_def encodeRune_def char_of_eq_iff)
  ultimately show ?thesis by (simp add: scriptLine_def)
qed

theorem script_runs_witness:
  "\<exists>co. doPiped \<lparr>q_Quote = (\<lambda>b. b), q_kind = (\<lambda>c. [c])\<rparr> noFloat True
      (clusterDoer (\<lambda>e. ''error'') noFloat (fleetNet noFloat (\<lambda>a. noPropose) (\<lambda>a n. demoEnv 5)) (\<lambda>n k. 0))
      (concat (map (\<lambda>l. l @ nl) [''# note'', ''echo hi'', ''nope''])) None
      \<lparr>co_world = (demoClusterClient, (demoFleet [(''f:1'', demoServer None demoWorld)])\<lparr>ft_conns := [(0, ''f:1'', newConnState 1 True)]\<rparr>),
       co_out = [], co_err = []\<rparr> = (1, co) \<and> co_out co = ''hi'' @ nl"
proof -
  let ?s = "demoServer None demoWorld" and ?cs = "newConnState 1 True" and ?Q = "\<lparr>q_Quote = (\<lambda>b. b), q_kind = (\<lambda>c. [c])\<rparr>"
  let ?w = "(demoFleet [(''f:1'', ?s)])\<lparr>ft_conns := [(0, ''f:1'', ?cs)]\<rparr>" and ?e = "''ERR unknown command '' @ quoted ''nope''"
  have d: "dispatch noPropose (demoEnv 5) ?cs [''echo'', ''hi''] ?s = Some (RBulk ''hi'', ?cs, ?s)"
    by (simp add: dispatch_def commands_def mkHandler_def onRead_def cmdEcho_def newConnState_def demoServer_def)
  have e: "dispatch noPropose (demoEnv 5) ?cs [''nope''] ?s = Some (RError ?e, ?cs, ?s)"
    by (simp add: dispatch_def commands_def newConnState_def demoServer_def)
  have c: "converse noPropose (\<lambda>m. demoEnv 5) (List.map_filter (\<lambda>c. c) [None, Some [''echo'', ''hi''], Some [''nope'']]) 0 ?cs ?s =
      Some ([(RBulk ''hi'', Proto2), (RError ?e, Proto2)], ?cs, ?s)"
    using d e by (simp add: List.map_filter_simps newConnState_def)
  have "\<exists>w'. doPiped ?Q noFloat True (clusterDoer (\<lambda>e. ''error'') noFloat (fleetNet noFloat (\<lambda>a. noPropose) (\<lambda>a n. demoEnv 5)) (\<lambda>n k. 0))
      (concat (map (\<lambda>l. l @ nl) [''# note'', ''echo hi'', ''nope''])) None \<lparr>co_world = (demoClusterClient, ?w), co_out = [], co_err = []\<rparr> =
    (exitCode exitOK [RBulk ''hi'', RError ?e], \<lparr>co_world = (demoClusterClient, w'), co_out = fst (printed ?Q noFloat True [RBulk ''hi'', RError ?e]),
       co_err = snd (printed ?Q noFloat True [RBulk ''hi'', RError ?e])\<rparr>) \<and> connected w' (cc_inner demoClusterClient) ''f:1'' ?cs ?s"
  proof (rule script_runs [where prs = "\<lambda>a. noPropose" and envs = "\<lambda>a n. demoEnv 5", OF demo_script _ _ _ c])
    show "\<forall>l \<in> set [''# note'', ''echo hi'', ''nope'']. CHR 0x0A \<notin> set l \<and> length l < maxToken \<and> dropCR l = l"
      by (simp add: dropCR_def maxToken_def)
    show "connected ?w (cc_inner demoClusterClient) ''f:1'' ?cs ?s"
      by (simp add: connected_def demoClusterClient_def newClient_def demoFleet_def)
    show "\<forall>argv \<in> set (List.map_filter (\<lambda>c. c) [None, Some [''echo'', ''hi''], Some [''nope'']]). command_ok argv"
      by (simp add: List.map_filter_simps small_command readerBufSize_def MaxBulkSize_def)
    show "\<forall>(r, p) \<in> set [(RBulk ''hi'', Proto2), (RError ?e, Proto2)]. wire_ok noFloat MaxDepth (asRead noFloat p r) \<and> \<not> isNotLeader (asRead noFloat p r)"
      by (simp add: asRead_def isNotLeader_def notLeaderPrefix_def MaxDepth_def numeral_eq_Suc readerBufSize_def MaxBulkSize_def quoted_def)
    show "[RBulk ''hi'', RError ?e] = map (\<lambda>(r, p). asRead noFloat p r) [(RBulk ''hi'', Proto2), (RError ?e, Proto2)]"
      by (simp add: asRead_def)
  qed
  then show ?thesis by (auto simp: exitCode_def isErr_def exitErr_def printed_def Print_def)
qed

end
