(* ===== verification/Programs.thy ===== *)
theory Programs
  imports Telemetry Lifecycle Cli
begin

text \<open>
  The programs after flag parsing: the server (\<^verbatim>\<open>cmd/toykv/main.go\<close>), from its flags to its exit code, and the
  start of the terminal UI (\<^verbatim>\<open>cmd/toykv-tui/main.go\<close>). What the rest of the world does to a process is one record.
\<close>

section \<open>toykv/main.go\<close>

datatype level = LevelDebug | LevelInfo | LevelWarn | LevelError

definition parseLevel :: "string \<Rightarrow> level option" where
  "parseLevel s =
     (let l = lowerASCII s
      in if l = ''debug'' then Some LevelDebug
         else if l = ''info'' then Some LevelInfo
         else if l \<in> {''warn'', ''warning''} then Some LevelWarn
         else if l = ''error'' then Some LevelError
         else None)"

datatype tls_err = TLSNoCert | TLSNoKey | TLSLoad string

text \<open>\<open>load\<close> is the error of \<^verbatim>\<open>tls.LoadX509KeyPair\<close>; the result says whether there is a TLS configuration.\<close>

definition buildTLSConfig :: "(string \<Rightarrow> string \<Rightarrow> string option) \<Rightarrow> string \<Rightarrow> string \<Rightarrow> tls_err + bool" where
  "buildTLSConfig load certFile keyFile =
     (if certFile = [] \<and> keyFile = [] then Inr False
      else if certFile = [] then Inl TLSNoCert
      else if keyFile = [] then Inl TLSNoKey
      else case load certFile keyFile of Some e \<Rightarrow> Inl (TLSLoad e) | None \<Rightarrow> Inr True)"

record 'f flags =
  fg_addr :: string
  fg_dir :: string
  fg_appendfsync :: string
  fg_logLevel :: string
  fg_requirePass :: string
  fg_tlsCert :: string
  fg_tlsKey :: string
  fg_protected :: string
  fg_replicate :: bool
  fg_nodeID :: string
  fg_peers :: string
  fg_raftAddr :: string
  fg_raftDir :: string
  fg_raftInsecure :: bool
  fg_otelEndpoint :: string
  fg_otelProtocol :: string
  fg_otelService :: string
  fg_otelSampling :: 'f
  fg_otelCaptureKeys :: bool

text \<open>The defaults of the flags; \<open>ratio\<close> is 0.05.\<close>

definition defaultFlags :: "'f \<Rightarrow> 'f flags" where
  "defaultFlags ratio =
     \<lparr>fg_addr = '':6390'', fg_dir = ''./data'', fg_appendfsync = ''always'', fg_logLevel = ''info'', fg_requirePass = [],
      fg_tlsCert = [], fg_tlsKey = [], fg_protected = ''yes'', fg_replicate = False, fg_nodeID = ''n1'', fg_peers = [],
      fg_raftAddr = [], fg_raftDir = [], fg_raftInsecure = False, fg_otelEndpoint = [], fg_otelProtocol = ''grpc'',
      fg_otelService = ''toykv'', fg_otelSampling = ratio, fg_otelCaptureKeys = False\<rparr>"

definition serverConfig :: "'f flags \<Rightarrow> fsyncPolicy \<Rightarrow> bool \<Rightarrow> peer list \<Rightarrow> config" where
  "serverConfig fg policy tlsOn peerList =
     \<lparr>cf_Addr = fg_addr fg, cf_Store = Some NewStore, cf_Dir = fg_dir fg, cf_FsyncPolicy = policy, cf_RequirePass = fg_requirePass fg,
      cf_TLS = tlsOn, cf_ProtectedMode = fg_protected fg, cf_Replicate = fg_replicate fg, cf_NodeID = fg_nodeID fg,
      cf_Peers = peerList, cf_RaftAddr = fg_raftAddr fg, cf_RaftDir = fg_raftDir fg, cf_RaftInsecure = fg_raftInsecure fg\<rparr>"

definition telemetryConfig :: "'f flags \<Rightarrow> 'f telConfig" where
  "telemetryConfig fg =
     \<lparr>tc_Endpoint = fg_otelEndpoint fg, tc_Protocol = fg_otelProtocol fg, tc_ServiceName = fg_otelService fg,
      tc_Version = serverVersion, tc_Sampling = fg_otelSampling fg, tc_CaptureKeys = fg_otelCaptureKeys fg\<rparr>"

text \<open>
  Outside the process: the key pair loader, the OpenTelemetry and Raft libraries, name resolution, what replay reads, the
  listener and the accepted connections, what serving makes of the server, and the errors of the exporters at shutdown.
\<close>

record 'f outside =
  os_load :: "string \<Rightarrow> string \<Rightarrow> string option"
  os_otel :: "'f otelLib"
  os_salt :: bytes
  os_float :: floatlib
  os_resolve :: "string \<Rightarrow> nat list list option"
  os_raft :: raftLib
  os_propose :: propose
  os_envs :: "nat \<Rightarrow> env"
  os_now :: time
  os_bytes :: int
  os_listens :: bool
  os_starts :: bool
  os_status :: "(bool \<times> string) list"
  os_accepts :: "acceptEvent list"
  os_serve :: "server \<Rightarrow> server"
  os_stop :: "signal \<Rightarrow> string option"

text \<open>What the process does, in order; telemetry with the calls into its library, also when it fails.\<close>

datatype 'f step = DidWarn string | DidInit "'f otelCall list" | DidNew | DidRun | DidClose bool | DidShutdown "string option"

record 'f process =
  ps_exit :: "int option"
  ps_steps :: "'f step list"
  ps_started :: "server option"
  ps_world :: world

definition process0 :: "int \<Rightarrow> 'f step list \<Rightarrow> world \<Rightarrow> 'f process" where
  "process0 code acts w = \<lparr>ps_exit = Some code, ps_steps = acts, ps_started = None, ps_world = w\<rparr>"

definition warnings :: "'f flags \<Rightarrow> bool \<Rightarrow> 'f step list" where
  "warnings fg protectedOn =
     (if \<not> protectedOn then [DidWarn ''protected mode disabled via -protected-mode no; non-loopback binds will not be refused''] else []) @
     (if fg_raftInsecure fg \<and> fg_replicate fg then [DidWarn ''-raft-insecure set; the plaintext, unauthenticated Raft peer transport may bind a non-loopback address (trusted-network only)''] else [])"

text \<open>
  \<^verbatim>\<open>s.Run\<close> and what follows. \<^verbatim>\<open>os.Exit\<close> runs no deferred call: the log is closed and the exporters are flushed after a
  clean return only.
\<close>

definition serveAndStop :: "'f outside \<Rightarrow> providers \<Rightarrow> 'f step list \<Rightarrow> server \<Rightarrow> 'f process" where
  "serveAndStop os p acts s =
     (case ServerRun (os_listens os) (os_starts os) (os_status os) (os_accepts os) s of
        (None, n, ds) \<Rightarrow> \<lparr>ps_exit = None, ps_steps = acts @ [DidRun], ps_started = Some s, ps_world = sv_world (os_serve os s)\<rparr>
      | (Some e, n, ds) \<Rightarrow>
          let s1 = (if e \<in> {RunListen, RunStart, RunNoLeader} then s else os_serve os s)
          in if e = RunClean
             then (case ServerClose False s1 of
                     (ok, closed, s2) \<Rightarrow>
                       \<lparr>ps_exit = Some 0, ps_steps = acts @ [DidRun, DidClose ok, DidShutdown (fst (Shutdown (os_stop os) p))],
                        ps_started = Some s, ps_world = sv_world s2\<rparr>)
             else \<lparr>ps_exit = Some 1, ps_steps = acts @ [DidRun], ps_started = Some s, ps_world = sv_world s1\<rparr>)"

definition toykvMain :: "'f outside \<Rightarrow> 'f flags \<Rightarrow> world \<Rightarrow> 'f process" where
  "toykvMain os fg w =
     (case parseLevel (fg_logLevel fg) of None \<Rightarrow> process0 2 [] w
      | Some _ \<Rightarrow>
     (case ParsePolicy (fg_appendfsync fg) of None \<Rightarrow> process0 2 [] w
      | Some policy \<Rightarrow>
     (case buildTLSConfig (os_load os) (fg_tlsCert fg) (fg_tlsKey fg) of Inl _ \<Rightarrow> process0 2 [] w
      | Inr tlsOn \<Rightarrow>
     (case ParsePeers (fg_peers fg) of Inl _ \<Rightarrow> process0 2 [] w
      | Inr peerList \<Rightarrow>
     (case ParseProtectedMode (fg_protected fg) of None \<Rightarrow> process0 2 [] w
      | Some protectedOn \<Rightarrow>
     (case Init (os_otel os) (os_salt os) (telemetryConfig fg) of (Inl _, c) \<Rightarrow> process0 2 (warnings fg protectedOn @ [DidInit c]) w
      | (Inr p, c) \<Rightarrow>
     (case NewServer (os_float os) (os_resolve os) (os_raft os) (os_propose os) (os_envs os) (os_now os) (os_bytes os)
             (serverConfig fg policy tlsOn peerList) w of
        (Inl _, w1) \<Rightarrow> process0 1 (warnings fg protectedOn @ [DidInit c]) w1
      | (Inr s, w1) \<Rightarrow> serveAndStop os p (warnings fg protectedOn @ [DidInit c, DidNew]) s)))))))"

section \<open>toykv-tui/main.go\<close>

text \<open>
  How the Bubble Tea program ends, \<open>program\<close> being the loop over the reducer of the terminal UI. A panic prints its value and
  a stack trace. The log file is opened only when a path is given (\<open>openErr\<close> is the error of opening it).
\<close>

datatype tuiEnd = TuiQuit | TuiError string | TuiPanic string

definition restoreTerminal :: "'w console \<Rightarrow> 'w console" where
  "restoreTerminal = putOut ([CHR 0x1B] @ ''[?1049l'' @ [CHR 0x1B] @ ''[?25h'')"

text \<open>The AUTH before the UI starts: the text to report, if it failed.\<close>

definition tuiAuth :: "'w doer \<Rightarrow> string \<Rightarrow> 'w console \<Rightarrow> string option \<times> 'w console" where
  "tuiAuth c pass co =
     (if pass = [] then (None, co)
      else case c [''AUTH'', pass] (co_world co) of
             (Inl e, w) \<Rightarrow> (Some e, co\<lparr>co_world := w\<rparr>)
           | (Inr reply, w) \<Rightarrow> (case reply of RError str \<Rightarrow> Some str | _ \<Rightarrow> None, co\<lparr>co_world := w\<rparr>))"

definition tuiMain :: "string \<Rightarrow> string \<Rightarrow> string \<Rightarrow> string \<Rightarrow> string option \<Rightarrow> (string + 'w doer) \<Rightarrow> (model \<Rightarrow> 'w console \<Rightarrow> tuiEnd \<times> 'w console) \<Rightarrow>
    'w console \<Rightarrow> int \<times> 'w console" where
  "tuiMain addr pass fsync logPath openErr dialed program co =
     (case (if logPath = [] then None else openErr) of
        Some e \<Rightarrow> (exitFatal, putErr (''toykv-tui: open log '' @ logPath @ '': '' @ e @ nl) co)
      | None \<Rightarrow>
     (case dialed of
        Inl e \<Rightarrow> (exitFatal, putErr (''toykv-tui: dial '' @ addr @ '': '' @ e @ nl) co)
      | Inr c \<Rightarrow>
     (case tuiAuth c pass co of
        (Some e, co1) \<Rightarrow> (exitFatal, putErr (''toykv-tui: AUTH: '' @ e @ nl) co1)
      | (None, co1) \<Rightarrow>
     (case program (NewModel addr fsync) co1 of
        (TuiQuit, co2) \<Rightarrow> (exitOK, co2)
      | (TuiError e, co2) \<Rightarrow> (exitFatal, putErr (''toykv-tui: '' @ e @ nl) (restoreTerminal co2))
      | (TuiPanic e, co2) \<Rightarrow> (exitFatal, putErr (''toykv-tui: panic: '' @ e @ nl) (restoreTerminal co2))))))"

text \<open>
  The UI starts only after an accepted AUTH when a password is given, and whenever it does not
  end by itself the terminal is restored before the error is reported.
\<close>

lemma tui_exit:
  assumes "tuiMain addr pass fsync logPath openErr dialed program co = (code, co')"
  shows "code = exitOK \<Longrightarrow> \<exists>c co1. dialed = Inr c \<and> tuiAuth c pass co = (None, co1) \<and> program (NewModel addr fsync) co1 = (TuiQuit, co')"
    and "dialed = Inr c \<Longrightarrow> tuiAuth c pass co = (None, co1) \<Longrightarrow> logPath = [] \<Longrightarrow> program (NewModel addr fsync) co1 = (e, co2) \<Longrightarrow> e \<noteq> TuiQuit \<Longrightarrow>
      code = exitFatal \<and> co_out co' = co_out (restoreTerminal co2)"
  using assms by (auto simp: tuiMain_def exitOK_def exitFatal_def putErr_def split: option.splits sum.splits prod.splits tuiEnd.splits if_splits)

section \<open>Exit codes\<close>

text \<open>A usage error: some flag is malformed, or telemetry cannot be set up as configured.\<close>

definition malformedFlags :: "'f outside \<Rightarrow> 'f flags \<Rightarrow> bool" where
  "malformedFlags os fg \<longleftrightarrow>
     parseLevel (fg_logLevel fg) = None \<or> ParsePolicy (fg_appendfsync fg) = None \<or>
     (\<forall>b. buildTLSConfig (os_load os) (fg_tlsCert fg) (fg_tlsKey fg) \<noteq> Inr b) \<or>
     (\<forall>ps. ParsePeers (fg_peers fg) \<noteq> Inr ps) \<or> ParseProtectedMode (fg_protected fg) = None"

definition initFails :: "'f outside \<Rightarrow> 'f flags \<Rightarrow> bool" where
  "initFails os fg \<longleftrightarrow> (\<forall>p. fst (Init (os_otel os) (os_salt os) (telemetryConfig fg)) \<noteq> Inr p)"

definition usageError :: "'f outside \<Rightarrow> 'f flags \<Rightarrow> bool" where
  "usageError os fg \<longleftrightarrow> malformedFlags os fg \<or> initFails os fg"

lemmas usage_defs = usageError_def malformedFlags_def initFails_def

text \<open>Without a usage error the program is: construct the server, then serve.\<close>

lemma main_malformed: "malformedFlags os fg \<Longrightarrow> toykvMain os fg w = process0 2 [] w"
  unfolding malformedFlags_def toykvMain_def by (auto split: option.splits sum.splits prod.splits)

lemma main_no_telemetry:
  "\<not> malformedFlags os fg \<Longrightarrow> initFails os fg \<Longrightarrow>
   \<exists>on. toykvMain os fg w = process0 2 (warnings fg on @ [DidInit (snd (Init (os_otel os) (os_salt os) (telemetryConfig fg)))]) w"
  unfolding malformedFlags_def initFails_def toykvMain_def by (auto split: option.splits sum.splits prod.splits)

lemma main_usage: "usageError os fg \<Longrightarrow> \<exists>ws. toykvMain os fg w = process0 2 ws w"
  using main_malformed [of os fg w] main_no_telemetry [of os fg w] by (auto simp: usageError_def)

lemma main_valid:
  assumes "\<not> usageError os fg"
  obtains lv policy tlsOn peerList on p c where "parseLevel (fg_logLevel fg) = Some lv" "ParsePolicy (fg_appendfsync fg) = Some policy"
    "buildTLSConfig (os_load os) (fg_tlsCert fg) (fg_tlsKey fg) = Inr tlsOn" "ParsePeers (fg_peers fg) = Inr peerList"
    "ParseProtectedMode (fg_protected fg) = Some on" "Init (os_otel os) (os_salt os) (telemetryConfig fg) = (Inr p, c)"
  using assms unfolding usage_defs by (metis (full_types) option.exhaust prod.collapse)

lemma serve_exit:
  "ps_started (serveAndStop os p acts s) = Some s" "ps_exit (serveAndStop os p acts s) \<noteq> Some 2"
  "ps_exit (serveAndStop os p acts s) = Some 0 \<Longrightarrow>
     \<exists>ok e. ps_steps (serveAndStop os p acts s) = acts @ [DidRun, DidClose ok, DidShutdown e]"
  "ps_exit (serveAndStop os p acts s) \<noteq> Some 0 \<Longrightarrow> ps_steps (serveAndStop os p acts s) = acts @ [DidRun]"
  by (auto simp: serveAndStop_def Let_def split: option.splits prod.splits)

lemma serve_steps:
  obtains rest where "ps_steps (serveAndStop os p (acts @ [DidInit c, DidNew]) s) = acts @ DidInit c # rest"
    "if ps_exit (serveAndStop os p (acts @ [DidInit c, DidNew]) s) = Some 0
     then \<exists>ok e. rest = [DidNew, DidRun, DidClose ok, DidShutdown e] else rest = [DidNew, DidRun]"
proof (cases "ps_exit (serveAndStop os p (acts @ [DidInit c, DidNew]) s) = Some 0")
  case True
  then show ?thesis using serve_exit(3) [OF True] that by auto
next
  case False
  show ?thesis using serve_exit(4) [OF False] False by (intro that [of "[DidNew, DidRun]"]) auto
qed

text \<open>
  Claim C38. What the exit code of the server program says. It is 2 exactly for a usage error, with no server
  constructed and the disk as it was: after a malformed flag nothing at all was done, and when telemetry cannot be set
  up nothing but the warnings and the calls telemetry made into its library until it failed. It is 0 only
  after telemetry was set up, the server constructed and run, its log closed and the exporters shut down, in this order; with any other end
  neither the log is closed nor the exporters are shut down. A program that would listen on an address other machines reach, with protected mode on
  and neither a key pair nor a password, exits with 1 before it touches the disk.\<close>

theorem main_exit_codes:
  assumes "toykvMain os fg w = p"
  shows "(ps_exit p = Some 2 \<longleftrightarrow> malformedFlags os fg \<or> initFails os fg) \<and>
    (ps_exit p = Some 2 \<longrightarrow> ps_started p = None \<and> ps_world p = w) \<and>
    (malformedFlags os fg \<longrightarrow> ps_steps p = []) \<and>
    (\<not> malformedFlags os fg \<longrightarrow> (\<exists>warned rest. set warned \<subseteq> range DidWarn \<and>
       ps_steps p = warned @ DidInit (snd (Init (os_otel os) (os_salt os) (telemetryConfig fg))) # rest \<and>
       (initFails os fg \<longrightarrow> rest = []) \<and>
       (if ps_exit p = Some 0 then ps_started p \<noteq> None \<and> (\<exists>ok e. rest = [DidNew, DidRun, DidClose ok, DidShutdown e])
        else rest = (if ps_started p = None then [] else [DidNew, DidRun])))) \<and>
    (\<not> malformedFlags os fg \<and> \<not> initFails os fg \<and> ParseProtectedMode (fg_protected fg) = Some True \<and> fg_tlsCert fg = [] \<and>
      fg_requirePass fg = [] \<and> \<not> bindIsLoopback (os_resolve os) (fg_addr fg) \<longrightarrow> ps_exit p = Some 1 \<and> ps_started p = None \<and> ps_world p = w)"
proof (cases "usageError os fg")
  case True
  have ws: "set (warnings fg on) \<subseteq> range DidWarn" for on by (auto simp: warnings_def)
  show ?thesis
  proof (cases "malformedFlags os fg")
    case True
    then show ?thesis using main_malformed [OF True, of w] assms by (auto simp: process0_def)
  next
    case False
    with True have "initFails os fg" by (simp add: usageError_def)
    with main_no_telemetry [OF False this, of w] assms ws False show ?thesis by (fastforce simp: process0_def)
  qed
next
  case False
  then have nu: "\<not> malformedFlags os fg" "\<not> initFails os fg" by (simp_all add: usageError_def)
  obtain lv policy tlsOn peerList on pv c where f: "parseLevel (fg_logLevel fg) = Some lv" "ParsePolicy (fg_appendfsync fg) = Some policy"
    "buildTLSConfig (os_load os) (fg_tlsCert fg) (fg_tlsKey fg) = Inr tlsOn" "ParsePeers (fg_peers fg) = Inr peerList"
    "ParseProtectedMode (fg_protected fg) = Some on" "Init (os_otel os) (os_salt os) (telemetryConfig fg) = (Inr pv, c)"
    using False by (rule main_valid)
  let ?cfg = "serverConfig fg policy tlsOn peerList"
  obtain r w1 where n: "NewServer (os_float os) (os_resolve os) (os_raft os) (os_propose os) (os_envs os) (os_now os) (os_bytes os) ?cfg w = (r, w1)" by force
  have ws: "set (warnings fg on) \<subseteq> range DidWarn" by (auto simp: warnings_def)
  have g: "checkProtectedMode (os_resolve os) (fg_addr fg) (fg_requirePass fg) tlsOn (fg_protected fg) = Some GuardPublicBind"
    if "on" "fg_tlsCert fg = []" "fg_requirePass fg = []" "\<not> bindIsLoopback (os_resolve os) (fg_addr fg)"
    using that f(3,5) by (auto simp: checkProtectedMode_def buildTLSConfig_def split: if_splits)
  show ?thesis
  proof (cases r)
    case (Inl e)
    then have "p = process0 1 (warnings fg on @ [DidInit c]) w1" using assms f n by (simp add: toykvMain_def)
    moreover have "w1 = w" if "on" "fg_tlsCert fg = []" "fg_requirePass fg = []" "\<not> bindIsLoopback (os_resolve os) (fg_addr fg)"
      using n g [OF that] by (auto simp: NewServer_def serverConfig_def split: if_splits)
    ultimately show ?thesis using nu f(5,6) ws by (auto simp: process0_def)
  next
    case (Inr s)
    then have p: "p = serveAndStop os pv (warnings fg on @ [DidInit c, DidNew]) s" using assms f n by (simp add: toykvMain_def)
    have "checkProtectedMode (os_resolve os) (fg_addr fg) (fg_requirePass fg) tlsOn (fg_protected fg) = None"
      using new_inv(1) [OF n [unfolded Inr]] by (simp add: serverConfig_def)
    then have hidden: "\<not> (on \<and> fg_tlsCert fg = [] \<and> fg_requirePass fg = [] \<and> \<not> bindIsLoopback (os_resolve os) (fg_addr fg))"
      using g by (metis option.distinct(1))
    have st: "ps_started p = Some s" "ps_exit p \<noteq> Some 2" unfolding p by (rule serve_exit)+
    obtain rest where rest: "ps_steps p = warnings fg on @ DidInit c # rest"
      "if ps_exit p = Some 0 then \<exists>ok e. rest = [DidNew, DidRun, DidClose ok, DidShutdown e] else rest = [DidNew, DidRun]"
      unfolding p by (rule serve_steps)
    have "\<exists>warned rest. set warned \<subseteq> range DidWarn \<and>
       ps_steps p = warned @ DidInit (snd (Init (os_otel os) (os_salt os) (telemetryConfig fg))) # rest \<and> (initFails os fg \<longrightarrow> rest = []) \<and>
       (if ps_exit p = Some 0 then ps_started p \<noteq> None \<and> (\<exists>ok e. rest = [DidNew, DidRun, DidClose ok, DidShutdown e])
        else rest = (if ps_started p = None then [] else [DidNew, DidRun]))"
      using rest ws st(1) nu(2) f(6) by (intro exI [of _ "warnings fg on"] exI [of _ rest]) simp
    then show ?thesis using nu st hidden f(5) by simp
  qed
qed

section \<open>Two processes\<close>

text \<open>Closing the log keeps what it holds.\<close>

lemma close_tracks:
  assumes "tracks i T cmds db s" and "ServerClose False s = (ok, closed, s2)"
  shows "ok" and "tracks i T cmds db (s\<lparr>sv_world := sv_world s2\<rparr>)"
  using assms
  by (auto simp: tracks_def logging_def ServerClose_def aofClose_def aofFlush_def ioSync_def ioPlain_def Let_def setDisk_def setFile_def split: prod.splits)

text \<open>The server as a process left it: what serving made of it, unless \<^verbatim>\<open>Run\<close> failed before it accepted connections.\<close>

definition leftServer :: "'f outside \<Rightarrow> server \<Rightarrow> server" where
  "leftServer os s =
     (if fst (ServerRun (os_listens os) (os_starts os) (os_status os) (os_accepts os) s) \<in> {Some RunListen, Some RunStart, Some RunNoLeader}
      then s else os_serve os s)"

lemma serve_world:
  assumes "tracks i T cmds db (leftServer os s)"
  shows "tracks i T cmds db ((leftServer os s)\<lparr>sv_world := ps_world (serveAndStop os p acts s)\<rparr>)"
  using assms close_tracks(2) [OF assms]
  by (auto simp: serveAndStop_def leftServer_def Let_def split: option.splits prod.splits)

lemma main_started:
  assumes "ps_started (toykvMain os fg w) = Some s"
  obtains policy tlsOn peerList w1 pv acts where "\<not> usageError os fg" "ParsePolicy (fg_appendfsync fg) = Some policy"
    "buildTLSConfig (os_load os) (fg_tlsCert fg) (fg_tlsKey fg) = Inr tlsOn" "ParsePeers (fg_peers fg) = Inr peerList"
    "NewServer (os_float os) (os_resolve os) (os_raft os) (os_propose os) (os_envs os) (os_now os) (os_bytes os)
       (serverConfig fg policy tlsOn peerList) w = (Inr s, w1)"
    "toykvMain os fg w = serveAndStop os pv acts s"
proof (cases "usageError os fg")
  case True
  then show ?thesis using main_usage [OF True, of w] assms by (auto simp: process0_def)
next
  case False
  then obtain lv policy tlsOn peerList on pv c where f: "parseLevel (fg_logLevel fg) = Some lv" "ParsePolicy (fg_appendfsync fg) = Some policy"
    "buildTLSConfig (os_load os) (fg_tlsCert fg) (fg_tlsKey fg) = Inr tlsOn" "ParsePeers (fg_peers fg) = Inr peerList"
    "ParseProtectedMode (fg_protected fg) = Some on" "Init (os_otel os) (os_salt os) (telemetryConfig fg) = (Inr pv, c)"
    by (rule main_valid)
  obtain r w1 where n: "NewServer (os_float os) (os_resolve os) (os_raft os) (os_propose os) (os_envs os) (os_now os) (os_bytes os)
       (serverConfig fg policy tlsOn peerList) w = (r, w1)" by force
  then show ?thesis using that [OF False f(2-4)] assms f
    by (cases r) (auto simp: toykvMain_def process0_def serve_exit(1))
qed

text \<open>
  Claim C39. Running the program again brings the data back: let a process of the server program start on an
  empty data directory and serve until it is stopped, is killed or fails, while the machine keeps running;
  a second process of the program with the same flags, on the disk the first one left, starts and holds the
  keyspace of the first. The conditions are those of the life of a server: it is standalone and has a data directory, requests
  are served one at a time, none sets a deadline or copies a hash, a rewrite runs without
  concurrent writes and writes commands within the limits of the reader, all system calls succeed, and clocks do not run backwards.\<close>

theorem second_process_restores:
  assumes "ps_started (toykvMain os fg w) = Some s" and "\<not> fg_replicate fg" and "fg_dir fg \<noteq> []"
    and "wd_env w = []" and "dk_canon (wd_disk w) = None"
    and "ParsePolicy (fg_appendfsync fg) = Some policy" and "buildTLSConfig (os_load os) (fg_tlsCert fg) (fg_tlsKey fg) = Inr tlsOn"
    and "ParsePeers (fg_peers fg) = Inr peerList"
    and "lived (os_float os) fl (os_resolve os) (os_raft os) (os_propose os) (serverConfig fg policy tlsOn peerList) T (os_serve os s)"
    and "\<forall>m. ev_storeNow (envs m) \<le> ev_storeNow (envs (Suc m))" and "\<forall>m. ev_storeNow (envs m) \<le> t" and "T \<le> t"
  shows "\<exists>s'. ps_started (toykvMain (os\<lparr>os_envs := envs, os_now := now, os_bytes := bytes\<rparr>) fg (ps_world (toykvMain os fg w))) = Some s' \<and>
    view (sv_store s') t = view (sv_store (leftServer os s)) t"
proof -
  let ?cfg = "serverConfig fg policy tlsOn peerList" and ?l = "leftServer os s" and ?os = "os\<lparr>os_envs := envs, os_now := now, os_bytes := bytes\<rparr>"
  obtain w1 pv acts where f: "\<not> usageError os fg"
    "NewServer (os_float os) (os_resolve os) (os_raft os) (os_propose os) (os_envs os) (os_now os) (os_bytes os) ?cfg w = (Inr s, w1)"
    "toykvMain os fg w = serveAndStop os pv acts s" using assms(6-8) by (auto intro: main_started [OF assms(1)])
  have st: "startable (os_resolve os) ?cfg"
    using f(2) new_inv(1) [OF f(2)] assms(2,3) by (auto simp: startable_def serverConfig_def NewServer_def)
  have "lived (os_float os) fl (os_resolve os) (os_raft os) (os_propose os) ?cfg t s" by (rule lived_start [OF f(2) assms(4,5)])
  then obtain U where U: "lived (os_float os) fl (os_resolve os) (os_raft os) (os_propose os) ?cfg U ?l" "U \<le> t"
    using assms(9,12) by (metis leftServer_def order_refl)
  obtain i cmds db where tr: "tracks i U cmds db ?l" using lived_tracks [OF U(1) st] by blast
  have w: "tracks i U cmds db (?l\<lparr>sv_world := ps_world (toykvMain os fg w)\<rparr>)" using serve_world [OF tr] f(3) by simp
  obtain s' w' where n: "NewServer (os_float os) (os_resolve os) (os_raft os) (os_propose os) envs now bytes ?cfg (ps_world (toykvMain os fg w)) = (Inr s', w')"
    "tracks i t cmds db s'" using new_again [OF st w assms(10,11), of "os_float os" "os_raft os" "os_propose os" now bytes] by auto
  have "view (sv_store ?l) t = db" "view (sv_store s') t = db" using tr n(2) U(2) by (auto simp: tracks_def represents_def)
  moreover from f(1) obtain lv on pv' c where g: "parseLevel (fg_logLevel fg) = Some lv" "ParseProtectedMode (fg_protected fg) = Some on" "Init (os_otel os) (os_salt os) (telemetryConfig fg) = (Inr pv', c)" by (elim main_valid)
  have "toykvMain ?os fg (ps_world (toykvMain os fg w)) = serveAndStop ?os pv' (warnings fg on @ [DidInit c, DidNew]) s'"
    using g assms(6-8) n(1) by (simp add: toykvMain_def [of ?os])
  ultimately show ?thesis by (simp add: serve_exit(1))
qed

section \<open>Examples\<close>

definition demoOtel :: "unit otelLib" where
  "demoOtel = \<lparr>ol_resource = (\<lambda>n v. None), ol_exporter = (\<lambda>g t h. None), ol_runtime = None, ol_meter = (\<lambda>i. None), ol_ge1 = (\<lambda>f. False), ol_le0 = (\<lambda>f. False)\<rparr>"

text \<open>A process whose one client stores a key and which is then stopped.\<close>

definition demoServe :: "server \<Rightarrow> server" where
  "demoServe s = (case dispatch noPropose (demoEnv 1) (newConnState 1 True) [''set'', ''k'', ''5'', ''NX''] s of Some (r, cs, s') \<Rightarrow> s' | None \<Rightarrow> s)"

definition demoOutside :: "unit outside" where
  "demoOutside =
     \<lparr>os_load = (\<lambda>c k. None), os_otel = demoOtel, os_salt = [], os_float = noFloat, os_resolve = (\<lambda>_. None), os_raft = demoRaftLib,
      os_propose = noPropose, os_envs = (\<lambda>_. demoEnv 1), os_now = 1, os_bytes = 0, os_listens = True, os_starts = True, os_status = [],
      os_accepts = [AcConn, AcClosed], os_serve = demoServe, os_stop = (\<lambda>_. None)\<rparr>"

lemma default_flags_parse:
  "parseLevel ''info'' = Some LevelInfo" "ParsePolicy ''always'' = Some FsyncAlways" "buildTLSConfig load [] [] = Inr False" "ParsePeers [] = Inr []"
  "ParseProtectedMode ''yes'' = Some True" "\<not> bindIsLoopback (\<lambda>_. None) '':6390''"
  "checkProtectedMode (\<lambda>_. None) ''127.0.0.1:6390'' [] False ''yes'' = None"
  by (simp add: buildTLSConfig_def | code_simp)+

lemma default_flags_ok: "\<not> usageError demoOutside ((defaultFlags ())\<lparr>fg_addr := a\<rparr>)"
  by (auto simp: usage_defs defaultFlags_def demoOutside_def default_flags_parse telemetryConfig_def Init_def newDisabled_def)

theorem main_exit_codes_witness:
  "ps_exit (toykvMain demoOutside (defaultFlags ()) demoWorld) = Some 1 \<and> ps_world (toykvMain demoOutside (defaultFlags ()) demoWorld) = demoWorld"
  using main_exit_codes [OF refl, of demoOutside "defaultFlags ()" demoWorld] default_flags_ok [of "'':6390''"] default_flags_parse(5,6)
  by (simp add: usageError_def) (simp add: defaultFlags_def demoOutside_def)

theorem second_process_restores_witness:
  "\<exists>s s'. ps_started (toykvMain demoOutside ((defaultFlags ())\<lparr>fg_addr := ''127.0.0.1:6390''\<rparr>) demoWorld) = Some s \<and>
     ps_started (toykvMain (demoOutside\<lparr>os_envs := (\<lambda>_. demoEnv 2), os_now := 2, os_bytes := 0\<rparr>) ((defaultFlags ())\<lparr>fg_addr := ''127.0.0.1:6390''\<rparr>)
       (ps_world (toykvMain demoOutside ((defaultFlags ())\<lparr>fg_addr := ''127.0.0.1:6390''\<rparr>) demoWorld))) = Some s' \<and>
     view (sv_store s') 2 = view (sv_store (leftServer demoOutside s)) 2"
proof -
  let ?fg = "(defaultFlags ())\<lparr>fg_addr := ''127.0.0.1:6390''\<rparr>" and ?cfg = "serverConfig ((defaultFlags ())\<lparr>fg_addr := ''127.0.0.1:6390''\<rparr>) FsyncAlways False []"
  have st: "startable (\<lambda>_. None) ?cfg" by (simp add: startable_def serverConfig_def defaultFlags_def default_flags_parse)
  obtain s w where s: "NewServer noFloat (\<lambda>_. None) demoRaftLib noPropose (\<lambda>_. demoEnv 1) 1 0 ?cfg demoWorld = (Inr s, w)" "tracks 0 1 [] Map.empty s"
    using new_fresh [OF st, of demoWorld noFloat demoRaftLib noPropose "\<lambda>_. demoEnv 1" 1 0 1] by (auto simp: demoWorld_def)
  have started: "ps_started (toykvMain demoOutside ?fg demoWorld) = Some s"
    using s(1) serve_exit(1) by (simp add: toykvMain_def defaultFlags_def demoOutside_def default_flags_parse telemetryConfig_def Init_def newDisabled_def serve_exit(1))
  have nr: "\<not> sv_replicated s" using s(2) by (simp add: tracks_def)
  obtain r s1 where d: "dispatch noPropose (demoEnv 1) (newConnState 1 True) [''set'', ''k'', ''5'', ''NX''] s = Some (r, newConnState 1 True, s1)"
    using demo_set(2) [OF nr] by blast
  have "lived noFloat fracFloat (\<lambda>_. None) demoRaftLib noPropose ?cfg 1 s" by (rule lived_start [OF s(1)]) (simp_all add: demoWorld_def)
  then have "lived noFloat fracFloat (\<lambda>_. None) demoRaftLib noPropose ?cfg (ev_storeNow (demoEnv 1)) s1"
    by (rule lived_request [OF _ _ demo_set(1) [OF nr] d]) (simp add: demoEnv_def)
  then have l: "lived (os_float demoOutside) fracFloat (os_resolve demoOutside) (os_raft demoOutside) (os_propose demoOutside) ?cfg 1 (os_serve demoOutside s)"
    using d by (simp add: demoOutside_def demoServe_def demoEnv_def)
  have "\<exists>s'. ps_started (toykvMain (demoOutside\<lparr>os_envs := (\<lambda>_. demoEnv 2), os_now := 2, os_bytes := 0\<rparr>) ?fg
       (ps_world (toykvMain demoOutside ?fg demoWorld))) = Some s' \<and> view (sv_store s') 2 = view (sv_store (leftServer demoOutside s)) 2"
    by (rule second_process_restores [OF started _ _ _ _ _ _ _ l])
      (simp_all add: defaultFlags_def default_flags_parse demoWorld_def demoEnv_def)
  with started show ?thesis by blast
qed

end
