(* ===== verification/View.thy ===== *)
theory View
  imports Fetch "HOL-Library.Monad_Syntax"
begin

text \<open>
  Rendering of the terminal UI (\<^verbatim>\<open>internal/tui/view.go\<close>, \<^verbatim>\<open>help.go\<close>, \<^verbatim>\<open>styles.go\<close>). The layout library lipgloss and the text
  input's own rendering are parameters; what the repository decides itself (which rows, which widths, which
  texts, which spans are highlighted) is modelled. \<^const>\<open>None\<close> is a panic: a slice out of range or a negative repeat count.
\<close>

datatype styleName =
    StAccent | StMuted | StHeader | StStatusKey | StStatusVal | StErrBanner | StWarn | StCursorRow | StColHeader | StHintKey
  | StHintDesc | StKeyName | StFilterHit | StRespInt | StRespNil | StRespErr | StTooSmall | StPromptMark | StOkBanner | StPaneOn | StPaneOff

text \<open>
  Styled text, a line padded to a width, a bordered pane (focused or not) with its inner width and height, joining blocks side by side
  and above each other, centring a block, the frame of the help overlay, and the text input (value, masked).
\<close>

record lipgloss =
  lg_style :: "styleName \<Rightarrow> string \<Rightarrow> string"
  lg_line :: "int \<Rightarrow> string \<Rightarrow> string"
  lg_pane :: "bool \<Rightarrow> int \<Rightarrow> int \<Rightarrow> string \<Rightarrow> string"
  lg_joinH :: "string list \<Rightarrow> string"
  lg_joinV :: "string list \<Rightarrow> string"
  lg_place :: "int \<Rightarrow> int \<Rightarrow> string \<Rightarrow> string"
  lg_box :: "string \<Rightarrow> string"
  lg_input :: "string \<Rightarrow> bool \<Rightarrow> string"

section \<open>styles.go\<close>

text \<open>
  The attributes a style is built from. A colour has a variant for light and one for dark terminals. \<open>noColor\<close> is
  whether the variable \<^verbatim>\<open>NO_COLOR\<close> (empty when unset) has a value.
\<close>

datatype styleAttr = Bold | Reverse | Foreground string string | RoundedBorder | BorderForeground string

definition noColorEnv :: "string \<Rightarrow> bool" where
  "noColorEnv v \<longleftrightarrow> v \<noteq> []"

definition plainStyle :: "styleName \<Rightarrow> styleAttr list" where
  "plainStyle n =
     (if n \<in> {StAccent, StHeader, StErrBanner, StColHeader, StHintKey, StFilterHit, StRespErr, StTooSmall, StPromptMark} then [Bold]
      else if n = StCursorRow then [Reverse]
      else if n \<in> {StPaneOn, StPaneOff} then [RoundedBorder]
      else [])"

definition colorStyle :: "styleName \<Rightarrow> styleAttr list" where
  "colorStyle n =
     (let accent = Foreground ''#0087d7'' ''#5fd7ff''; muted = Foreground ''#6c6c6c'' ''#808080''; red = Foreground ''#af0000'' ''#ff5f5f'';
          green = Foreground ''#008700'' ''#5fd75f''; yellow = Foreground ''#af8700'' ''#ffd75f''
      in case n of
           StAccent \<Rightarrow> [accent, Bold] | StMuted \<Rightarrow> [muted] | StHeader \<Rightarrow> [accent, Bold] | StStatusKey \<Rightarrow> [muted] | StStatusVal \<Rightarrow> []
         | StErrBanner \<Rightarrow> [red, Bold] | StOkBanner \<Rightarrow> [green] | StWarn \<Rightarrow> [yellow] | StCursorRow \<Rightarrow> [Reverse, Bold] | StColHeader \<Rightarrow> [muted, Bold]
         | StHintKey \<Rightarrow> [accent, Bold] | StHintDesc \<Rightarrow> [muted] | StKeyName \<Rightarrow> [Bold] | StFilterHit \<Rightarrow> [yellow, Bold] | StRespInt \<Rightarrow> [accent]
         | StRespNil \<Rightarrow> [yellow] | StRespErr \<Rightarrow> [red, Bold] | StPaneOn \<Rightarrow> [RoundedBorder, BorderForeground ''#5fd7ff'']
         | StPaneOff \<Rightarrow> [RoundedBorder, BorderForeground ''#3a3a3a''] | StTooSmall \<Rightarrow> [red, Bold] | StPromptMark \<Rightarrow> [accent, Bold])"

definition newStyles :: "bool \<Rightarrow> styleName \<Rightarrow> styleAttr list" where
  "newStyles noColor = (if noColor then plainStyle else colorStyle)"

text \<open>With \<^verbatim>\<open>NO_COLOR\<close> no style has a colour, and the borders, which take room, are the same.\<close>

lemma no_color_styles:
  "\<forall>a \<in> set (newStyles True n). a \<in> {Bold, Reverse, RoundedBorder}"
  "RoundedBorder \<in> set (newStyles True n) \<longleftrightarrow> RoundedBorder \<in> set (newStyles False n)"
  by (cases n; simp add: newStyles_def plainStyle_def colorStyle_def Let_def)+

section \<open>Strings\<close>

definition hline :: string where "hline = [CHR 0xE2, CHR 0x94, CHR 0x80]"
definition ellipsis :: string where "ellipsis = [CHR 0xE2, CHR 0x80, CHR 0xA6]"
definition middot :: string where "middot = ''  '' @ [CHR 0xC2, CHR 0xB7] @ ''  ''"
definition pointer :: string where "pointer = [CHR 0xE2, CHR 0x96, CHR 0xB8] @ '' ''"
definition arrow :: string where "arrow = [CHR 0xE2, CHR 0x86, CHR 0x92]"

definition Repeat :: "string \<Rightarrow> int \<Rightarrow> string option" where
  "Repeat s n = (if n < 0 then None else Some (concat (replicate (nat n) s)))"

definition sliceOf :: "string \<Rightarrow> int \<Rightarrow> int \<Rightarrow> string option" where
  "sliceOf s a b = (if 0 \<le> a \<and> a \<le> b \<and> b \<le> int (length s) then Some (take (nat (b - a)) (drop (nat a) s)) else None)"

fun joinWith :: "string \<Rightarrow> string list \<Rightarrow> string" where
  "joinWith sep [] = []"
| "joinWith sep [s] = s"
| "joinWith sep (s # t # ss) = s @ sep @ joinWith sep (t # ss)"

text \<open>One round of the insertion sorts: the element moves left past the larger ones.\<close>

definition insertBack :: "('a \<Rightarrow> int) \<Rightarrow> 'a list \<Rightarrow> 'a \<Rightarrow> 'a list" where
  "insertBack key ys x =
     rev (dropWhile (\<lambda>y. key y > key x) (rev ys)) @ x # rev (takeWhile (\<lambda>y. key y > key x) (rev ys))"

definition insertionSort :: "('a \<Rightarrow> int) \<Rightarrow> 'a list \<Rightarrow> 'a list" where
  "insertionSort key xs = foldl (insertBack key) [] xs"

definition padRight :: "string \<Rightarrow> int \<Rightarrow> string" where
  "padRight s n = (if int (length s) \<ge> n then s else s @ replicate (nat n - length s) (CHR '' ''))"

definition truncateTo :: "string \<Rightarrow> int \<Rightarrow> string option" where
  "truncateTo s n =
     (if int (length s) \<le> n then Some s
      else if n \<le> 1 then sliceOf s 0 n
      else map_option (\<lambda>t. t @ ellipsis) (sliceOf s 0 (n - 1)))"

text \<open>The literal parts of a glob pattern: collected parts, and the part being read.\<close>

function globLoop :: "string list \<Rightarrow> string \<Rightarrow> string \<Rightarrow> string list" where
  "globLoop out cur [] = (if cur \<noteq> [] then out @ [cur] else out)"
| "globLoop out cur (c # g) =
     (let out' = (if cur \<noteq> [] then out @ [cur] else out)
      in if c = CHR ''*'' \<or> c = CHR ''?'' then globLoop out' [] g
         else if c = CHR ''['' then globLoop out' [] (drop 1 (dropWhile (\<lambda>x. x \<noteq> CHR '']'') g))
         else globLoop out (cur @ [c]) g)"
  by pat_completeness auto

termination globLoop
proof (relation "measure (\<lambda>(out, cur, g). length g)")
  fix out out' :: "string list" and cur g :: string and c :: char
  have "length (drop 1 (dropWhile (\<lambda>x. x \<noteq> CHR '']'') g)) \<le> length g" using length_dropWhile_le [of "\<lambda>x. x \<noteq> CHR '']''" g] by simp
  then show "((out', [], drop 1 (dropWhile (\<lambda>x. x \<noteq> CHR '']'') g)), out, cur, c # g) \<in> measure (\<lambda>(out, cur, g). length g)" by simp
qed simp_all

definition globLiterals :: "string \<Rightarrow> string list" where
  "globLiterals g = globLoop [] [] g"

text \<open>Sizes below 2 ^ 53: the division of \<^verbatim>\<open>float64\<close> numbers by a power of two is exact and \<^verbatim>\<open>%.1f\<close> rounds half to even.\<close>

definition tenths :: "int \<Rightarrow> int \<Rightarrow> int" where
  "tenths n d =
     (let q = 10 * n div d; r = 10 * n mod d
      in if 2 * r < d then q else if 2 * r > d then q + 1 else if even q then q else q + 1)"

definition oneDecimal :: "int \<Rightarrow> string" where
  "oneDecimal t = formatInt (t div 10) @ ''.'' @ formatInt (t mod 10)"

definition formatBytes :: "int \<Rightarrow> string" where
  "formatBytes n =
     (if n < 1024 then formatInt n @ ''B''
      else if n < 1024 * 1024 then oneDecimal (tenths n 1024) @ ''K''
      else oneDecimal (tenths n (1024 * 1024)) @ ''M'')"

section \<open>help.go\<close>

record binding =
  bd_Key :: string
  bd_Desc :: string
  bd_Group :: string
  bd_Footer :: bool
  bd_Rank :: int

definition plain :: "string \<Rightarrow> string \<Rightarrow> string \<Rightarrow> binding" where
  "plain k d g = \<lparr>bd_Key = k, bd_Desc = d, bd_Group = g, bd_Footer = False, bd_Rank = 0\<rparr>"

definition hint :: "string \<Rightarrow> string \<Rightarrow> string \<Rightarrow> int \<Rightarrow> binding" where
  "hint k d g n = \<lparr>bd_Key = k, bd_Desc = d, bd_Group = g, bd_Footer = True, bd_Rank = n\<rparr>"

definition bindings :: "binding list" where
  "bindings =
     [plain ''j/k'' ''down/up'' ''Navigate'', plain ''g/G'' ''top/bottom'' ''Navigate'',
      plain ''[/]'' ''prev/next page'' ''Navigate'', plain ''r'' ''refresh'' ''Navigate'', plain ''Tab'' ''switch pane'' ''Navigate'',
      hint ''n'' ''new key'' ''Mutate'' 1, hint ''e'' ''edit value'' ''Mutate'' 2, hint ''t'' ''set ttl'' ''Mutate'' 3,
      hint ''d'' ''delete'' ''Mutate'' 4, hint ''i'' ''incr'' ''Mutate'' 7, plain ''D'' ''decr'' ''Mutate'', plain ''F'' ''flushdb'' ''Mutate'',
      hint ''/'' ''match'' ''View'' 5, hint '':'' ''raw cmd'' ''View'' 6,
      hint ''?'' ''help'' ''Meta'' 8, hint ''q'' ''quit'' ''Meta'' 9, plain ''Esc'' ''cancel'' ''Meta'']"

definition footerHints :: "binding list" where
  "footerHints = insertionSort bd_Rank (filter bd_Footer bindings)"

definition hintCost :: "binding \<Rightarrow> bool \<Rightarrow> int" where
  "hintCost b first = int (length (bd_Key b)) + 1 + int (length (bd_Desc b)) + (if first then 0 else 2)"

text \<open>The hints that fit: picked so far, and the width they use.\<close>

fun pickHints :: "int \<Rightarrow> binding list \<Rightarrow> binding list \<Rightarrow> int \<Rightarrow> binding list" where
  "pickHints budget [] picked used = picked"
| "pickHints budget (p # ps) picked used =
     (let c = hintCost p (picked = [])
      in if used + c > budget then picked else pickHints budget ps (picked @ [p]) (used + c))"

definition footerPicked :: "int \<Rightarrow> binding list" where
  "footerPicked width =
     (let reserved = filter (\<lambda>b. bd_Key b \<in> {''?'', ''q''}) footerHints;
          primary = filter (\<lambda>b. bd_Key b \<notin> {''?'', ''q''}) footerHints;
          budget0 = foldl (\<lambda>b (i, r). b - hintCost r (i = 0 \<and> primary = [])) width (List.enumerate 0 reserved);
          budget = (if reserved \<noteq> [] then budget0 - 2 else budget0)
      in pickHints budget primary [] 0 @ reserved)"

definition renderFooter :: "lipgloss \<Rightarrow> int \<Rightarrow> string" where
  "renderFooter lg width =
     (if width \<le> 0 then []
      else joinWith ''  '' (map (\<lambda>b. lg_style lg StHintKey (bd_Key b) @ '' '' @ lg_style lg StHintDesc (bd_Desc b)) (footerPicked width)))"

definition renderHelp :: "lipgloss \<Rightarrow> int \<Rightarrow> int \<Rightarrow> string" where
  "renderHelp lg width height =
     (let rowsOf = (\<lambda>g. lg_style lg StColHeader g #
            map (\<lambda>b. ''  '' @ lg_style lg StHintKey (padRight (bd_Key b) 6) @ ''  '' @ lg_style lg StHintDesc (bd_Desc b))
              (filter (\<lambda>b. bd_Group b = g) bindings) @ [[]]);
          lines = [lg_style lg StAccent (''toykv-tui '' @ [CHR 0xC2, CHR 0xB7] @ '' keybindings''), []] @
            concat (map rowsOf [''Navigate'', ''Mutate'', ''View'', ''Meta'']) @
            [lg_style lg StMuted ''press ? or esc to close'']
      in lg_place lg width height (lg_box lg (joinWith nl lines)))"

section \<open>view.go\<close>

definition clusterColWidth :: int where "clusterColWidth = 30"
definition clusterStripH :: int where "clusterStripH = 8"

definition leftWidth :: "model \<Rightarrow> int" where
  "leftWidth m = (if breakpoint m = LayoutNarrow then quotGo (m_width m) 2 else quotGo (m_width m * 2) 5)"

definition rightWidth :: "model \<Rightarrow> int" where
  "rightWidth m = m_width m - leftWidth m"

definition clusterVisible :: "model \<Rightarrow> bool" where
  "clusterVisible m \<longleftrightarrow> rs_role (m_repl m) \<noteq> []"

definition fsyncDisplay :: "model \<Rightarrow> string" where
  "fsyncDisplay m = (if sl_FsyncOverride (m_status m) \<noteq> [] then sl_FsyncOverride (m_status m) else sl_FsyncLabel (m_status m))"

definition labelled :: "lipgloss \<Rightarrow> string \<Rightarrow> string \<Rightarrow> string" where
  "labelled lg key val = lg_style lg StStatusKey key @ lg_style lg StStatusVal val"

definition renderHeader :: "lipgloss \<Rightarrow> model \<Rightarrow> string" where
  "renderHeader lg m =
     (let st = m_status m;
          parts = [lg_style lg StHeader ''toykv'', lg_style lg StStatusVal (sl_Addr st)] @
            (if fsyncDisplay m \<noteq> [] then [labelled lg ''fsync='' (fsyncDisplay m)] else []) @
            [labelled lg ''lat='' (formatLatency (sl_Latency st)), labelled lg ''dbsize='' (formatInt (sl_DBSize st))] @
            (if sl_Clients st > 0 then [labelled lg ''clients='' (formatInt (sl_Clients st))] else []) @
            (if sl_Uptime st > 0 then [labelled lg ''up='' (formatUptime (sl_Uptime st))] else [])
      in lg_line lg (m_width m) (joinWith middot parts))"

definition renderStatus :: "lipgloss \<Rightarrow> model \<Rightarrow> string" where
  "renderStatus lg m =
     (let parts0 = (if m_filter m \<noteq> [] \<and> m_filter m \<noteq> ''*'' then [labelled lg ''match='' (m_filter m)] else []) @
                   (if m_mode m = ModeConfirm then [lg_style lg StWarn (m_prompt m)] else []);
          parts1 = (if parts0 = [] then [lg_style lg StMuted (formatNat (length (m_keys m)) @ '' keys'')] else parts0);
          page = length (m_cursorStack m) + 1;
          parts2 = (if page > 1 \<or> m_nextCursor m \<noteq> 0
                    then parts1 @ [lg_style lg StMuted (''page '' @ formatNat page @ (if m_nextCursor m \<noteq> 0 then '' '' @ arrow else []))]
                    else parts1)
      in lg_line lg (m_width m) (joinWith middot parts2))"

definition pane :: "lipgloss \<Rightarrow> string \<Rightarrow> int \<Rightarrow> int \<Rightarrow> bool \<Rightarrow> string" where
  "pane lg content w h focused = lg_pane lg focused (w - 2) (h - 2) content"

definition peerRows :: "lipgloss \<Rightarrow> int \<Rightarrow> replPeer \<Rightarrow> string option" where
  "peerRows lg w p =
     map_option (\<lambda>a. lg_style lg StStatusVal a @ nl @ ''  '' @
         lg_style lg (if rp_lag p > 0 then StWarn else StMuted)
           (rp_state p @ '' o='' @ formatInt (rp_off p) @ '' l='' @ formatInt (rp_lag p)) @ nl)
       (truncateTo (rp_addr p) (w - 4))"

definition renderCluster :: "lipgloss \<Rightarrow> model \<Rightarrow> int \<Rightarrow> int \<Rightarrow> string option" where
  "renderCluster lg m w h =
     (let repl = m_repl m
      in do {
           rule \<leftarrow> Repeat hline (max 0 (w - 4));
           peers \<leftarrow> (if rs_role repl = ''master'' then those (map (peerRows lg w) (rs_peers repl)) else Some []);
           Some (pane lg
             (lg_style lg StKeyName ''cluster'' @ nl @ lg_style lg StMuted rule @ nl @
              lg_style lg StStatusKey ''role   '' @ lg_style lg (if rs_role repl \<noteq> ''master'' then StWarn else StAccent) (rs_role repl) @ nl @
              labelled lg ''offset '' (formatInt (rs_off repl)) @ nl @
              (if rs_role repl = ''master''
               then nl @ lg_style lg StStatusKey (''slaves ('' @ formatNat (length (rs_peers repl)) @ '')'') @ nl @ concat peers
               else []))
             w h False)
         })"

text \<open>The first free occurrence of a literal, searched from a position on; spans are (start, end). Slicing
  the name from beyond its end panics.\<close>

definition overlaps :: "(int \<times> int) list \<Rightarrow> int \<Rightarrow> int \<Rightarrow> bool" where
  "overlaps claimed a b = list_ex (\<lambda>(s, e). a < e \<and> b > s) claimed"

function claim :: "string \<Rightarrow> string \<Rightarrow> (int \<times> int) list \<Rightarrow> nat \<Rightarrow> (int \<times> int) list option" where
  "claim name seg claimed searchFrom =
     (case sliceOf name (int searchFrom) (int (length name)) of
        None \<Rightarrow> None
      | Some rest \<Rightarrow>
          let idx = indexOf rest seg
          in if idx < 0 then Some claimed
             else let a = int searchFrom + idx; b = int searchFrom + idx + int (length seg)
                  in if overlaps claimed a b then claim name seg claimed (nat a + 1) else Some (claimed @ [(a, b)]))"
  by pat_completeness auto

termination claim
  by (relation "measure (\<lambda>(name, seg, claimed, searchFrom). length name + 1 - searchFrom)") (auto simp: sliceOf_def split: if_splits)

declare claim.simps [simp del]

definition claimAll :: "string \<Rightarrow> string list \<Rightarrow> (int \<times> int) list option" where
  "claimAll name segs =
     foldl (\<lambda>res seg. do { claimed \<leftarrow> res; if seg = [] then Some claimed else claim name seg claimed 0 }) (Some []) segs"

fun emitSpans :: "(string \<Rightarrow> string) \<Rightarrow> string \<Rightarrow> int \<Rightarrow> (int \<times> int) list \<Rightarrow> string option" where
  "emitSpans hit name cursor [] = (if cursor < int (length name) then sliceOf name cursor (int (length name)) else Some [])"
| "emitSpans hit name cursor ((a, b) # spans) = do {
     before \<leftarrow> (if cursor < a then sliceOf name cursor a else Some []);
     seg \<leftarrow> sliceOf name a b;
     rest \<leftarrow> emitSpans hit name b spans;
     Some (before @ hit seg @ rest)
   }"

definition highlightFilter :: "lipgloss \<Rightarrow> model \<Rightarrow> string \<Rightarrow> int \<Rightarrow> string option" where
  "highlightFilter lg m name width =
     (let pad = replicate (nat (max 0 (width - int (length name)))) (CHR '' '')
      in if m_filter m = [] \<or> m_filter m = ''*'' then Some (name @ pad)
         else let segs = globLiterals (m_filter m)
              in if segs = [] then Some (name @ pad)
                 else do {
                        claimed \<leftarrow> claimAll name segs;
                        if claimed = [] then Some (name @ pad)
                        else map_option (\<lambda>t. t @ pad) (emitSpans (lg_style lg StFilterHit) name 0 (insertionSort fst claimed))
                      })"

definition styleTTL :: "lipgloss \<Rightarrow> string \<Rightarrow> int \<Rightarrow> int \<Rightarrow> string" where
  "styleTTL lg s w ttl =
     (let padded = padRight s w
      in if ttl = -1 \<or> ttl = -2 then lg_style lg StMuted padded
         else if ttl > 0 \<and> ttl < 60 then lg_style lg StWarn padded
         else padded)"

definition renderKeyRow :: "lipgloss \<Rightarrow> model \<Rightarrow> keyInfo \<Rightarrow> int \<Rightarrow> int \<Rightarrow> int \<Rightarrow> bool \<Rightarrow> string option" where
  "renderKeyRow lg m k nameW sizeW ttlW isCursor = do {
     name \<leftarrow> truncateTo (ki_Name k) nameW;
     shown \<leftarrow> highlightFilter lg m name nameW;
     Some (let cells = [(if isCursor then lg_style lg StAccent pointer else ''  '') @ shown] @
                 (if sizeW > 0 then [padRight (formatBytes (ki_Size k)) sizeW] else []) @
                 [styleTTL lg (formatTTL (ki_TTL k)) ttlW (ki_TTL k)];
               row = joinWith ''  '' cells
           in if isCursor then lg_style lg StCursorRow row else row)
   }"

text \<open>The rows drawn in a pane of height \<open>h\<close>: from the first up to, not including, the second.\<close>

definition keyWindow :: "int \<Rightarrow> model \<Rightarrow> int \<times> int" where
  "keyWindow h m =
     (let n = int (length (m_keys m));
          limit = (if h - 4 < 1 then 1 else h - 4);
          start = (if m_cursor m \<ge> limit \<and> n > limit then m_cursor m - limit + 1 else 0);
          stop = (if start + limit > n then n else start + limit)
      in (start, stop))"

definition keyAt :: "model \<Rightarrow> int \<Rightarrow> keyInfo option" where
  "keyAt m i = (if 0 \<le> i \<and> i < int (length (m_keys m)) then Some (m_keys m ! nat i) else None)"

definition renderLeft :: "lipgloss \<Rightarrow> model \<Rightarrow> int \<Rightarrow> int \<Rightarrow> string option" where
  "renderLeft lg m w h =
     (case (colWidths (w - 2) m, keyWindow h m) of
        ((nameW, sizeW, ttlW), (start, stop)) \<Rightarrow> do {
          rule \<leftarrow> Repeat hline (w - 3);
          rows \<leftarrow> those (map (\<lambda>i. do { k \<leftarrow> keyAt m i; row \<leftarrow> renderKeyRow lg m k nameW sizeW ttlW (i = m_cursor m); Some (row @ nl) })
                          [start..stop - 1]);
          Some (let cols = [''  '' @ lg_style lg StColHeader (padRight ''NAME'' nameW)] @
                      (if sizeW > 0 then [lg_style lg StColHeader (padRight ''SIZE'' sizeW)] else []) @
                      [lg_style lg StColHeader (padRight ''TTL'' ttlW)]
                in pane lg (joinWith ''  '' cols @ nl @ lg_style lg StMuted rule @ nl @ concat rows) w h (m_focus m = FocusLeft))
        })"

definition focusedKind :: "model \<Rightarrow> string" where
  "focusedKind m = (case keyAt m (m_cursor m) of Some k \<Rightarrow> ki_Kind k | None \<Rightarrow> [])"

definition focusedTTL :: "model \<Rightarrow> int" where
  "focusedTTL m = (case keyAt m (m_cursor m) of Some k \<Rightarrow> ki_TTL k | None \<Rightarrow> -1)"

definition focusedSize :: "model \<Rightarrow> int" where
  "focusedSize m = (case keyAt m (m_cursor m) of Some k \<Rightarrow> ki_Size k | None \<Rightarrow> 0)"

definition kindOrDefault :: "string \<Rightarrow> string" where
  "kindOrDefault k = (if k = [] then ''string'' else k)"

definition colorizePretty :: "lipgloss \<Rightarrow> string \<Rightarrow> string" where
  "colorizePretty lg s =
     joinWith nl (map (\<lambda>line. if hasPrefix ''(integer)'' line then lg_style lg StRespInt line
                              else if hasPrefix ''(nil)'' line then lg_style lg StRespNil line
                              else if hasPrefix ''(error)'' line then lg_style lg StRespErr line
                              else line) (splitOn (CHR 0x0A) s))"

fun hashRows :: "lipgloss \<Rightarrow> quoting \<Rightarrow> floatlib \<Rightarrow> resp_value list \<Rightarrow> string" where
  "hashRows lg Q F (f # v # vs) =
     lg_style lg StStatusKey (RawString Q F f) @ lg_style lg StMuted '': '' @ PrettyString Q F v @ (if vs \<noteq> [] then nl else []) @
     hashRows lg Q F vs"
| "hashRows lg Q F _ = []"

definition renderHash :: "lipgloss \<Rightarrow> quoting \<Rightarrow> floatlib \<Rightarrow> resp_value list \<Rightarrow> string" where
  "renderHash lg Q F vs = (if vs = [] then lg_style lg StMuted ''(empty hash)'' else hashRows lg Q F vs)"

definition renderValueBody :: "lipgloss \<Rightarrow> quoting \<Rightarrow> floatlib \<Rightarrow> model \<Rightarrow> string" where
  "renderValueBody lg Q F m =
     (case (focusedKind m = ''hash'', m_value m) of
        (True, RArray vs) \<Rightarrow> renderHash lg Q F vs
      | _ \<Rightarrow> colorizePretty lg (PrettyString Q F (m_value m)))"

definition renderRight :: "lipgloss \<Rightarrow> quoting \<Rightarrow> floatlib \<Rightarrow> model \<Rightarrow> int \<Rightarrow> int \<Rightarrow> string option" where
  "renderRight lg Q F m w h =
     (if m_focused m = [] then Some (pane lg (lg_style lg StMuted (''(no key)'' @ nl)) w h (m_focus m = FocusRight))
      else do {
        rule \<leftarrow> Repeat hline (w - 4);
        Some (let body = renderValueBody lg Q F m; lines = splitOn (CHR 0x0A) body;
                  scrolled = (if m_valueScroll m > 0
                              then joinWith nl (if m_valueScroll m \<ge> int (length lines) then [] else drop (nat (m_valueScroll m)) lines)
                              else body)
              in pane lg
                   (lg_style lg StKeyName (m_focused m) @ nl @ lg_style lg StMuted rule @ nl @
                    joinWith nl
                      [labelled lg ''type '' (kindOrDefault (focusedKind m)),
                       lg_style lg StStatusKey ''ttl  '' @ styleTTL lg (formatTTL (focusedTTL m)) 8 (focusedTTL m),
                       labelled lg ''size '' (formatBytes (focusedSize m))] @ nl @ nl @
                    (if \<not> m_hasVal m then lg_style lg StMuted (''(loading'' @ ellipsis @ '')'') else scrolled))
                   w h (m_focus m = FocusRight))
      })"

definition renderStacked :: "lipgloss \<Rightarrow> quoting \<Rightarrow> floatlib \<Rightarrow> model \<Rightarrow> int \<Rightarrow> int \<Rightarrow> string option" where
  "renderStacked lg Q F m w totalH =
     (if clusterVisible m
      then let rest = totalH - clusterStripH; listH = quotGo (rest * 6) 10
           in do {
                l \<leftarrow> renderLeft lg m w listH;
                r \<leftarrow> renderRight lg Q F m w (rest - listH);
                c \<leftarrow> renderCluster lg m w clusterStripH;
                Some (lg_joinV lg [l, r, c])
              }
      else let listH = quotGo (totalH * 6) 10
           in do {
                l \<leftarrow> renderLeft lg m w listH;
                r \<leftarrow> renderRight lg Q F m w (totalH - listH);
                Some (lg_joinV lg [l, r])
              })"

definition bodyHeight :: "model \<Rightarrow> int" where
  "bodyHeight m =
     (let overhead = 3 + (if \<not> m_showHelp m \<and> m_err m \<noteq> [] then 1 else 0) + (if \<not> m_showHelp m \<and> m_prompt m \<noteq> [] then 1 else 0)
      in if m_height m - overhead < 3 then 3 else m_height m - overhead)"

definition renderBody :: "lipgloss \<Rightarrow> quoting \<Rightarrow> floatlib \<Rightarrow> model \<Rightarrow> int \<Rightarrow> string option" where
  "renderBody lg Q F m bodyH =
     (if m_showHelp m then Some (renderHelp lg (m_width m) bodyH)
      else if breakpoint m = LayoutStack then renderStacked lg Q F m (m_width m) bodyH
      else if breakpoint m = LayoutNarrow \<and> clusterVisible m
      then let topH = bodyH - clusterStripH
           in do {
                l \<leftarrow> renderLeft lg m (leftWidth m) topH;
                r \<leftarrow> renderRight lg Q F m (rightWidth m) topH;
                c \<leftarrow> renderCluster lg m (m_width m) clusterStripH;
                Some (lg_joinV lg [lg_joinH lg [l, r], c])
              }
      else if clusterVisible m
      then do {
             l \<leftarrow> renderLeft lg m (leftWidth m) bodyH;
             r \<leftarrow> renderRight lg Q F m (m_width m - leftWidth m - clusterColWidth) bodyH;
             c \<leftarrow> renderCluster lg m clusterColWidth bodyH;
             Some (lg_joinH lg [l, r, c])
           }
      else do {
             l \<leftarrow> renderLeft lg m (leftWidth m) bodyH;
             r \<leftarrow> renderRight lg Q F m (rightWidth m) bodyH;
             Some (lg_joinH lg [l, r])
           })"

definition View :: "lipgloss \<Rightarrow> quoting \<Rightarrow> floatlib \<Rightarrow> model \<Rightarrow> string option" where
  "View lg Q F m =
     (if m_width m = 0 \<or> m_height m = 0
      then Some (''toykv-tui '' @ emDash @ '' waiting for terminal size'' @ ellipsis @ nl)
      else if breakpoint m = LayoutTiny
      then Some (lg_place lg (m_width m) (m_height m)
             (lg_style lg StTooSmall (''terminal too small '' @ emDash @ '' need '' @ [CHR 0xE2, CHR 0x89, CHR 0xA5] @ '' 60'' @ [CHR 0xC3, CHR 0x97] @ ''16'')))
      else do {
             body \<leftarrow> renderBody lg Q F m (bodyHeight m);
             Some (joinWith nl
               ([renderHeader lg m, body, renderStatus lg m] @
                (if \<not> m_showHelp m \<and> m_err m \<noteq> [] then filter (\<lambda>l. l \<noteq> []) [lg_style lg StErrBanner (''[!] '' @ m_err m)] else []) @
                (if \<not> m_showHelp m \<and> m_prompt m \<noteq> []
                 then filter (\<lambda>l. l \<noteq> []) [lg_style lg StPromptMark (m_prompt m) @ lg_input lg (m_input m) (m_masked m)] else []) @
                [renderFooter lg (m_width m)]))
           })"

section \<open>Highlighting\<close>

text \<open>The spans lie in the name, show a literal of the pattern, and do not overlap.\<close>

definition spanText :: "string \<Rightarrow> int \<times> int \<Rightarrow> string" where
  "spanText name = (\<lambda>(a, b). take (nat (b - a)) (drop (nat a) name))"

definition inName :: "string \<Rightarrow> int \<times> int \<Rightarrow> bool" where
  "inName name = (\<lambda>(a, b). 0 \<le> a \<and> a < b \<and> b \<le> int (length name))"

definition apartSpans :: "int \<times> int \<Rightarrow> int \<times> int \<Rightarrow> bool" where
  "apartSpans = (\<lambda>(a, b) (c, d). b \<le> c \<or> d \<le> a)"

definition spans_ok :: "string \<Rightarrow> string list \<Rightarrow> (int \<times> int) list \<Rightarrow> bool" where
  "spans_ok name segs ps \<longleftrightarrow> distinct ps \<and> (\<forall>p \<in> set ps. inName name p \<and> spanText name p \<in> set segs) \<and>
     (\<forall>p \<in> set ps. \<forall>q \<in> set ps. p \<noteq> q \<longrightarrow> apartSpans p q)"

lemma claim_ok:
  assumes "spans_ok name segs claimed" and "seg \<noteq> []" and "seg \<in> set segs" and "searchFrom \<le> length name"
  shows "\<exists>ps. claim name seg claimed searchFrom = Some ps \<and> spans_ok name segs ps"
  using assms
proof (induction name seg claimed searchFrom rule: claim.induct)
  case (1 name seg claimed searchFrom)
  define idx where "idx = indexOf (drop searchFrom name) seg"
  define a b where "a = int searchFrom + idx" and "b = int searchFrom + idx + int (length seg)"
  have sl: "sliceOf name (int searchFrom) (int (length name)) = Some (drop searchFrom name)" using "1.prems"(4) by (simp add: sliceOf_def)
  note step = claim.simps [of name seg claimed searchFrom, unfolded sl option.case, folded idx_def]
  show ?case
  proof (cases "idx < 0")
    case True
    then show ?thesis using "1.prems"(1) by (subst step) (simp add: Let_def)
  next
    case False
    from indexOf_found [of "drop searchFrom name" seg] False
    have f: "hasPrefix seg (drop (nat a) name)" "inName name (a, b)"
      using "1.prems"(2,4) by (auto simp: idx_def [symmetric] a_def b_def inName_def nat_add_distrib add.commute)
    then have t: "spanText name (a, b) = seg" by (simp add: spanText_def hasPrefix_def a_def b_def)
    show ?thesis
    proof (cases "overlaps claimed a b")
      case True
      have "nat a + 1 \<le> length name" using f(2) by (auto simp: inName_def)
      with "1.IH" [OF sl, of idx a b] "1.prems" False True have "\<exists>ps. claim name seg claimed (nat a + 1) = Some ps \<and> spans_ok name segs ps"
        by (simp add: a_def b_def idx_def)
      moreover have "claim name seg claimed searchFrom = claim name seg claimed (nat a + 1)"
        using False True by (subst step) (simp add: Let_def a_def b_def)
      ultimately show ?thesis by simp
    next
      case free: False
      then have ap: "apartSpans (a, b) q \<and> apartSpans q (a, b) \<and> (a, b) \<noteq> q" if "q \<in> set claimed" for q
        using that f(2) by (cases q) (auto simp: overlaps_def list_ex_iff apartSpans_def inName_def)
      have "claim name seg claimed searchFrom = Some (claimed @ [(a, b)])" using False free by (subst step) (simp add: Let_def a_def b_def)
      then show ?thesis using "1.prems" f(2) t ap by (auto simp: spans_ok_def)
    qed
  qed
qed

lemma claimAll_ok: "\<exists>ps. claimAll name segs = Some ps \<and> spans_ok name segs ps"
proof -
  let ?f = "\<lambda>res seg. do { claimed \<leftarrow> res; if seg = [] then Some claimed else claim name seg claimed 0 }"
  have "\<exists>ps. foldl ?f (Some c) ss = Some ps \<and> spans_ok name segs ps"
    if "spans_ok name segs c" "set ss \<subseteq> set segs" for c ss
    using that
  proof (induction ss arbitrary: c)
    case (Cons seg ss)
    then show ?case using claim_ok [of name segs c seg 0] by (cases "seg = []") auto
  qed simp
  from this [of "[]" segs] show ?thesis by (simp add: claimAll_def spans_ok_def)
qed

lemma insertBack_mset: "mset (insertBack key ys x) = add_mset x (mset ys)"
proof -
  have "mset ys = mset (takeWhile P (rev ys) @ dropWhile P (rev ys))" for P by simp
  then show ?thesis unfolding insertBack_def by (simp only: mset_append mset_rev mset.simps) (simp add: ac_simps)
qed

lemma insertBack_sorted:
  assumes "sorted_wrt (\<lambda>x y. key x \<le> key y) ys"
  shows "sorted_wrt (\<lambda>x y. key x \<le> key y) (insertBack key ys x)"
proof -
  let ?P = "\<lambda>y. key y > key x"
  define lo hi where "lo = rev (dropWhile ?P (rev ys))" and "hi = rev (takeWhile ?P (rev ys))"
  have ys: "ys = lo @ hi" by (metis hi_def lo_def rev_append rev_rev_ident takeWhile_dropWhile_id)
  have hi: "key x < key y" if "y \<in> set hi" for y using that by (auto simp: hi_def dest: set_takeWhileD)
  have "key y \<le> key x" if "y \<in> set lo" for y
  proof (cases "lo = []")
    case False
    then have l: "dropWhile ?P (rev ys) \<noteq> []" by (simp add: lo_def)
    have "last lo = hd (dropWhile ?P (rev ys))" by (simp add: lo_def last_rev)
    then have "key (last lo) \<le> key x" using hd_dropWhile [OF l] by simp
    moreover have "key y \<le> key (last lo)"
    proof (cases "y = last lo")
      case False
      then have "y \<in> set (butlast lo)" using that by (metis append_butlast_last_id empty_iff empty_set in_set_butlast_appendI
            insertE rotate1.simps(2) set_ConsD set_rotate1 \<open>lo \<noteq> []\<close>)
      moreover have "sorted_wrt (\<lambda>x y. key x \<le> key y) (butlast lo @ [last lo])" using assms \<open>lo \<noteq> []\<close> by (simp add: ys sorted_wrt_append)
      ultimately show ?thesis by (simp add: sorted_wrt_append)
    qed simp
    ultimately show ?thesis by simp
  qed (use that in simp)
  then have "sorted_wrt (\<lambda>x y. key x \<le> key y) (lo @ x # hi)" using assms hi by (auto simp: ys sorted_wrt_append less_imp_le)
  then show ?thesis by (simp add: insertBack_def lo_def hi_def)
qed

lemma insertionSort_props: "mset (insertionSort key xs) = mset xs" "sorted_wrt (\<lambda>x y. key x \<le> key y) (insertionSort key xs)"
proof -
  have "mset (foldl (insertBack key) ys xs) = mset ys + mset xs" for ys
    by (induction xs arbitrary: ys) (simp_all add: insertBack_mset)
  then show "mset (insertionSort key xs) = mset xs" by (simp add: insertionSort_def)
  have "sorted_wrt (\<lambda>x y. key x \<le> key y) ys \<Longrightarrow> sorted_wrt (\<lambda>x y. key x \<le> key y) (foldl (insertBack key) ys xs)" for ys
    by (induction xs arbitrary: ys) (simp_all add: insertBack_sorted)
  then show "sorted_wrt (\<lambda>x y. key x \<le> key y) (insertionSort key xs)" by (simp add: insertionSort_def)
qed

lemma sorted_spans:
  assumes "spans_ok name segs ps"
  shows "spans_ok name segs (insertionSort fst ps)" and "sorted_wrt (\<lambda>p q. snd p \<le> fst q) (insertionSort fst ps)"
proof -
  let ?qs = "insertionSort fst ps"
  have m: "set ?qs = set ps" "distinct ?qs = distinct ps"
    using insertionSort_props(1) [of fst ps] by (metis mset_eq_setD, metis mset_eq_imp_distinct_iff)
  then show ok: "spans_ok name segs ?qs" using assms by (simp add: spans_ok_def)
  have "sorted_wrt (\<lambda>p q. snd p \<le> fst q) qs" if "spans_ok name segs qs" "sorted_wrt (\<lambda>p q. fst p \<le> fst q) qs" for qs
    using that
  proof (induction qs)
    case (Cons p qs)
    have "snd p \<le> fst q" if "q \<in> set qs" for q
      using Cons.prems that by (cases p; cases q) (fastforce simp: spans_ok_def apartSpans_def inName_def)
    moreover have "spans_ok name segs qs" using Cons.prems(1) by (auto simp: spans_ok_def)
    ultimately show ?case using Cons by simp
  qed simp
  from this [OF ok insertionSort_props(2)] show "sorted_wrt (\<lambda>p q. snd p \<le> fst q) ?qs" .
qed

text \<open>Pieces of a name: highlighted or not.\<close>

definition drawPieces :: "(string \<Rightarrow> string) \<Rightarrow> (bool \<times> string) list \<Rightarrow> string" where
  "drawPieces hit ps = concat (map (\<lambda>(h, t). if h then hit t else t) ps)"

lemma emit_pieces:
  assumes "sorted_wrt (\<lambda>p q. snd p \<le> fst q) spans" and "\<forall>p \<in> set spans. inName name p \<and> cursor \<le> fst p"
    and "0 \<le> cursor" and "cursor \<le> int (length name)"
  shows "\<exists>ps. emitSpans hit name cursor spans = Some (drawPieces hit ps) \<and> concat (map snd ps) = drop (nat cursor) name \<and>
    (\<forall>t. (True, t) \<in> set ps \<longrightarrow> t \<in> spanText name ` set spans)"
  using assms
proof (induction spans arbitrary: cursor)
  case Nil
  then show ?case
    by (intro exI [of _ "[(False, drop (nat cursor) name)]"]) (auto simp: drawPieces_def sliceOf_def)
next
  case (Cons p spans)
  obtain a b where p: "p = (a, b)" by force
  have ab: "cursor \<le> a" "a < b" "b \<le> int (length name)" using Cons.prems(2) p by (auto simp: inName_def)
  from Cons.IH [of b] Cons.prems ab obtain ps where ps: "emitSpans hit name b spans = Some (drawPieces hit ps)"
    "concat (map snd ps) = drop (nat b) name" "\<forall>t. (True, t) \<in> set ps \<longrightarrow> t \<in> spanText name ` set spans"
    using p by fastforce
  let ?x = "take (nat (a - cursor)) (drop (nat cursor) name)" and ?t = "spanText name (a, b)"
  have s: "sliceOf name a b = Some ?t" "(if cursor < a then sliceOf name cursor a else Some []) = Some ?x"
    using ab Cons.prems(3) by (auto simp: sliceOf_def spanText_def)
  have "drop (nat cursor) name = ?x @ drop (nat a) name"
    using ab Cons.prems(3) by (metis append_take_drop_id drop_drop le_add_diff_inverse2 nat_diff_distrib nat_mono)
  moreover have "drop (nat a) name = ?t @ drop (nat b) name"
    using ab Cons.prems(3) by (simp add: spanText_def) (metis append_take_drop_id drop_drop le_add_diff_inverse2 nat_diff_distrib nat_mono order.strict_implies_order order.trans)
  ultimately have "drop (nat cursor) name = ?x @ ?t @ drop (nat b) name" by simp
  then show ?case
    using ps s p by (intro exI [of _ "(False, ?x) # (True, ?t) # ps"]) (auto simp: drawPieces_def)
qed

lemma spans_pieces:
  assumes "spans_ok name segs spans"
  shows "\<exists>ps. emitSpans hit name 0 (insertionSort fst spans) = Some (drawPieces hit ps) \<and> concat (map snd ps) = name \<and>
    (\<forall>t. (True, t) \<in> set ps \<longrightarrow> t \<in> set segs)"
proof -
  let ?sp = "insertionSort fst spans"
  note so = sorted_spans [OF assms]
  have r: "\<forall>p \<in> set ?sp. inName name p \<and> 0 \<le> fst p" and t: "spanText name ` set ?sp \<subseteq> set segs"
    using so(1) by (auto simp: spans_ok_def inName_def)
  obtain ps where "emitSpans hit name 0 ?sp = Some (drawPieces hit ps)" "concat (map snd ps) = drop (nat 0) name"
    "\<forall>t. (True, t) \<in> set ps \<longrightarrow> t \<in> spanText name ` set ?sp"
    using emit_pieces [OF so(2) r, of hit] by auto
  then show ?thesis using t by (intro exI [of _ ps]) auto
qed

text \<open>
  Claim C35. Highlighting never changes a name: whatever the filter, the name of a key is drawn as pieces, plain or
  highlighted, that make up exactly the name (no part is lost, doubled or reordered, although the
  literals of the pattern are found in any order and may overlap), every highlighted piece is a
  literal of the pattern, and the padding that follows is outside of any highlight. No slice is
  out of range.\<close>

theorem highlight_keeps_name:
  "\<exists>ps. highlightFilter lg m name width =
      Some (drawPieces (lg_style lg StFilterHit) ps @ replicate (nat (max 0 (width - int (length name)))) (CHR '' '')) \<and>
    concat (map snd ps) = name \<and> (\<forall>t. (True, t) \<in> set ps \<longrightarrow> t \<in> set (globLiterals (m_filter m)))"
proof -
  let ?segs = "globLiterals (m_filter m)"
  obtain spans where c: "claimAll name ?segs = Some spans" "spans_ok name ?segs spans" using claimAll_ok by blast
  show ?thesis
  proof (cases "m_filter m = [] \<or> m_filter m = ''*'' \<or> ?segs = [] \<or> spans = []")
    case True
    then show ?thesis using c(1) by (intro exI [of _ "[(False, name)]"]) (auto simp: highlightFilter_def drawPieces_def Let_def)
  next
    case False
    then show ?thesis using spans_pieces [OF c(2), of "lg_style lg StFilterHit"] c(1) by (auto simp: highlightFilter_def Let_def)
  qed
qed

section \<open>Rendering is total\<close>

definition total :: "'a option \<Rightarrow> bool" where
  "total x \<longleftrightarrow> x \<noteq> None"

lemma total_Some [simp]: "total (Some x)" "total (map_option f y) = total y"
  by (simp_all add: total_def)

lemma total_bind: "total x \<Longrightarrow> (\<And>y. x = Some y \<Longrightarrow> total (f y)) \<Longrightarrow> total (x \<bind> f)"
  by (cases x) (auto simp: total_def)

lemma total_those: "(\<forall>x \<in> set xs. total (f x)) \<Longrightarrow> total (those (map f xs))"
  by (induction xs) (auto simp: total_def)

lemma highlight_total: "total (highlightFilter lg m name width)"
proof -
  obtain spans where c: "claimAll name (globLiterals (m_filter m)) = Some spans" "spans_ok name (globLiterals (m_filter m)) spans"
    using claimAll_ok by blast
  show ?thesis using spans_pieces [OF c(2), of "lg_style lg StFilterHit"] c(1) by (auto simp: highlightFilter_def Let_def)
qed

lemma truncate_total: "0 \<le> n \<Longrightarrow> total (truncateTo s n)"
  by (auto simp: truncateTo_def sliceOf_def)

lemma keyRow_total: "0 \<le> nameW \<Longrightarrow> total (renderKeyRow lg m k nameW sizeW ttlW c)"
  unfolding renderKeyRow_def by (intro total_bind) (simp_all add: truncate_total highlight_total)

lemma window_range: "keyWindow h m = (start, stop) \<Longrightarrow> 0 \<le> start \<and> stop \<le> int (length (m_keys m))"
  by (auto simp: keyWindow_def Let_def split: if_splits)

lemma left_total:
  assumes "3 \<le> w"
  shows "total (renderLeft lg m w h)"
proof -
  obtain nameW sizeW ttlW where c: "colWidths (w - 2) m = (nameW, sizeW, ttlW)" by (metis prod_cases3)
  obtain start stop where k: "keyWindow h m = (start, stop)" by force
  have n: "0 \<le> nameW" using c by (auto simp: colWidths_def Let_def split: if_splits)
  show ?thesis
    unfolding renderLeft_def c k prod.case
  proof (intro total_bind total_those ballI)
    fix i assume "i \<in> set [start..stop - 1]"
    then show "total (keyAt m i)" using window_range [OF k] by (simp add: keyAt_def)
  qed (use assms n in \<open>simp_all add: Repeat_def keyRow_total\<close>)
qed

lemma right_total: "4 \<le> w \<Longrightarrow> total (renderRight lg Q F m w h)"
  by (simp add: renderRight_def Repeat_def)

lemma cluster_total: "4 \<le> w \<Longrightarrow> total (renderCluster lg m w h)"
  unfolding renderCluster_def Let_def
  by (intro total_bind) (simp_all add: Repeat_def total_those peerRows_def truncate_total)

lemma widths:
  assumes "60 \<le> m_width m"
  shows "24 \<le> leftWidth m" and "30 \<le> rightWidth m" and "100 \<le> m_width m \<Longrightarrow> 30 \<le> m_width m - leftWidth m - clusterColWidth"
  using assms by (auto simp: leftWidth_def rightWidth_def quotGo_def clusterColWidth_def breakpoint_def split: if_splits)

lemma panes_total:
  assumes "24 \<le> w"
  shows "total (renderLeft lg m w h)" and "total (renderRight lg Q F m w h)" and "total (renderCluster lg m w h)"
  using assms by (simp_all add: left_total right_total cluster_total)

lemma body_total:
  assumes "60 \<le> m_width m" and "breakpoint m \<noteq> LayoutTiny"
  shows "total (renderBody lg Q F m h)"
proof -
  have "24 \<le> m_width m" "24 \<le> leftWidth m" "24 \<le> rightWidth m" "24 \<le> clusterColWidth"
    using widths [OF assms(1)] assms(1) by (simp_all add: clusterColWidth_def)
  moreover have "24 \<le> m_width m - leftWidth m - clusterColWidth" if "breakpoint m \<noteq> LayoutStack" "breakpoint m \<noteq> LayoutNarrow"
    using widths(3) [OF assms(1)] assms(2) that by (auto simp: breakpoint_def split: if_splits)
  ultimately show ?thesis
    unfolding renderBody_def renderStacked_def Let_def by (auto intro!: total_bind panes_total)
qed

text \<open>
  Claim C34. Every state of the terminal UI can be drawn: for every model a run reaches, in every window size, no slice
  is out of range and no line is repeated a negative number of times; in the key list the row
  under the cursor is always among the rows drawn, which are consecutive rows of the page and no
  more than fit the pane (one at least).\<close>

theorem view_total:
  assumes "tuiRun typed m cs"
  shows "(\<exists>out. View lg Q F m = Some out) \<and>
    (case keyWindow h m of (start, stop) \<Rightarrow> 0 \<le> start \<and> stop \<le> int (length (m_keys m)) \<and> stop - start \<le> max 1 (h - 4) \<and>
       (m_keys m \<noteq> [] \<longrightarrow> start \<le> m_cursor m \<and> m_cursor m < stop))"
proof -
  have "60 \<le> m_width m" if "breakpoint m \<noteq> LayoutTiny" using that by (auto simp: breakpoint_def split: if_splits)
  then have "total (View lg Q F m)" unfolding View_def by (auto intro!: total_bind body_total)
  moreover have "0 \<le> m_cursor m \<and> (m_keys m \<noteq> [] \<longrightarrow> m_cursor m < int (length (m_keys m)))"
    using run_ok [OF assms] by (auto simp: tui_ok_def)
  ultimately show ?thesis by (auto simp: keyWindow_def Let_def total_def)
qed

definition demoLip :: lipgloss where
  "demoLip = \<lparr>lg_style = (\<lambda>st s. ''<'' @ s @ ''>''), lg_line = (\<lambda>w s. s), lg_pane = (\<lambda>f w h s. s), lg_joinH = concat, lg_joinV = concat,
     lg_place = (\<lambda>w h s. s), lg_box = (\<lambda>s. s), lg_input = (\<lambda>v m. v)\<rparr>"

definition demoQuoting :: quoting where
  "demoQuoting = \<lparr>q_Quote = (\<lambda>b. b), q_kind = (\<lambda>c. [c])\<rparr>"

theorem highlight_keeps_name_witness:
  "\<exists>ps. highlightFilter demoLip ((NewModel ''h:1'' [])\<lparr>m_filter := ''b*a''\<rparr>) ''xab'' 5 = Some (drawPieces (\<lambda>s. ''<'' @ s @ ''>'') ps @ ''  '') \<and>
     concat (map snd ps) = ''xab''"
proof -
  obtain ps where "highlightFilter demoLip ((NewModel ''h:1'' [])\<lparr>m_filter := ''b*a''\<rparr>) ''xab'' 5 =
      Some (drawPieces (lg_style demoLip StFilterHit) ps @ replicate (nat (max 0 (5 - int (length ''xab'')))) (CHR '' ''))"
    "concat (map snd ps) = ''xab''" using highlight_keeps_name [of demoLip _ "''xab''" 5] by blast
  then show ?thesis by (intro exI [of _ ps]) (simp add: demoLip_def numeral_eq_Suc)
qed

theorem view_total_witness:
  "\<exists>out. View demoLip demoQuoting noFloat ((NewModel ''h:1'' [])\<lparr>m_width := 100, m_height := 40\<rparr>) = Some out"
proof -
  have "tuiRun (\<lambda>v k. v) ((NewModel ''h:1'' [])\<lparr>m_width := 100, m_height := 40\<rparr>) (tuiInit (NewModel ''h:1'' []) @ [CNone])"
    by (rule tui_user [OF tui_start [OF refl], of "WindowSizeMsg 100 40"]) auto
  from view_total [OF this] show ?thesis by blast
qed

end
