(* ===== verification/Spec2Isabelle.thy ===== *)
theory Spec2Isabelle
  imports Programs View
begin

text \<open>
  \<^bold>\<open>A verification of toykv\<close>

  toykv is an in-memory key-value server speaking RESP, with an append-only log, an optional Raft
  replicated mode, a client library, a command line client and a terminal UI. This library models the Go
  code under \<^verbatim>\<open>src/internal\<close> and \<^verbatim>\<open>src/cmd\<close> as functions and proves what makes it correct. A panic, an
  error, an early return and a call that never returns are values; every effect is explicit state.

  \<^bold>\<open>The program and its model.\<close> A request travels bytes, RESP reader, dispatcher, handler, store, log,
  reply, RESP writer, bytes; each stage is a theory, and a theory's definitions stand in the order of the
  Go file they translate and keep its names (a method \<open>T.m\<close> of the store is \<open>Store_m\<close>; a Go loop body is a function
  of its own with \<open>Loop\<close> in its name).

  \<^item> Foundations. Theory \<open>Prelude\<close>: byte and integer types, 64-bit wrap-around written out, \<^verbatim>\<open>strconv\<close>. \<open>Golib\<close>:
    \<^verbatim>\<open>time\<close>, case folding, UTF-8 and \<^verbatim>\<open>path.Match\<close>. \<open>Net\<close>: address parsing, \<^verbatim>\<open>server/protected.go\<close> (the guards at start) and
    \<^verbatim>\<open>cluster/peers.go\<close>. \<open>Slices\<close>: Go slices with shared backing arrays. \<open>Codec\<close>: the locale \<open>record_codec\<close> of
    self-delimiting records, interpreted for the commands of a connection and for the log.
  \<^item> Store (\<^verbatim>\<open>internal/store\<close>). \<open>Deque\<close>: the ring buffer and its contract \<open>deque_spec\<close>. \<open>Store\<close>: the state is the record
    \<open>store\<close> (key map, sequence counter, heap of field orders), with every method of \<^verbatim>\<open>store.go\<close>, \<^verbatim>\<open>typed.go\<close> and \<^verbatim>\<open>keyspace.go\<close>.
    \<open>StoreSpec\<close>: the abstract keyspace, the representation invariant and the refinement, as the locale
    \<open>keyspace_contract\<close> interpreted on the store. \<open>StoreScan\<close>: KEYS, SCAN (a step relation of an iteration interleaved with
    arbitrary operations), snapshot, sweep. \<open>Sweeper\<close>: \<^verbatim>\<open>sweeper.go\<close>.
  \<^item> Wire and log. \<open>Resp\<close>: \<^verbatim>\<open>internal/resp\<close> over byte lists. \<open>Aof\<close>: \<^verbatim>\<open>internal/aof\<close> over a disk whose files have a
    synced prefix and whose system calls may fail. A power failure keeps the synced prefix and anything after it; after a failed
    fsync nothing more of that file is made durable; a file whose directory entry was never synced may be gone.
  \<^item> Server (\<^verbatim>\<open>internal/server\<close>). \<open>Server\<close>: the record \<open>server\<close>, every command handler, the dispatcher, replay and
    background rewrite. \<open>Logging\<close>, \<open>Rebuild\<close>, \<open>Rewrite\<close>: what is logged, what a log stands for, what a rewrite keeps.
    \<open>Serving\<close>: \<^verbatim>\<open>conn.go\<close> and the accept loop. \<open>Lifecycle\<close>: \<^verbatim>\<open>New\<close>, \<^verbatim>\<open>Close\<close>, \<^verbatim>\<open>Run\<close>, and the inductive relation \<open>lived\<close> of what a server
    can go through, restarts included. \<open>Instrument\<close> and \<open>Telemetry\<close>: \<^verbatim>\<open>instrument.go\<close>, \<^verbatim>\<open>metrics.go\<close> and \<^verbatim>\<open>internal/telemetry\<close> as the
    sequence of calls they make into OpenTelemetry.
  \<^item> Replication. \<open>Cluster\<close>: \<^verbatim>\<open>internal/cluster\<close>, with ToyRaft as a parameter that delivers committed entries in order.
  \<^item> Clients. \<open>Client\<close>: \<^verbatim>\<open>internal/client\<close> over an abstract network, and a fleet of modelled servers as one such network.
    \<open>Cmdparse\<close>, \<open>Respfmt\<close>: tokeniser and printer. \<open>Cli\<close>: \<^verbatim>\<open>cmd/toykv-cli\<close>, against the locale \<open>answering_client\<close>, interpreted on
    the redirecting client over the fleet. \<open>Tui\<close>, \<open>Fetch\<close>, \<open>View\<close>: model and reducer, commands, and rendering of
    \<^verbatim>\<open>internal/tui\<close>. \<open>Programs\<close>: \<^verbatim>\<open>cmd/toykv\<close> and \<^verbatim>\<open>cmd/toykv-tui\<close> after flag parsing.

  \<^bold>\<open>What is shown.\<close>

  \<^item> The store refines a map from keys to values with deadlines under any history of operations; SCAN misses no key that
    stays, ends, and returns each key once on an unchanged keyspace; snapshots and sweeps are exact and invisible.
  \<^item> RESP values within the limits survive the round trip, and everything decoded is within the limits, whatever the
    bytes. Records appended to the log replay as themselves; under fsync always an append acknowledged before the first failed fsync
    survives a power failure (once the log's directory entry is durable); finalizing a rewrite leaves at every instant the complete new log or what could be found of the old
    one before.
  \<^item> The dispatcher isolates unauthenticated connections; only flagged commands and BGREWRITEAOF write; every reply is encodable, those of a cluster node included; pipelined commands are
    answered in order. A restart (of a server, and of the whole program) brings back the keyspace, for requests served one at a time
    that set no deadline and copy no hash, rewrites without concurrent writes, and system calls that succeed. An exposed server asks for a
    password or does not start; the exit code of the program says what happened.
  \<^item> Resolved commands do not depend on the clock the handlers of the applying node read; a leader's client gets the reply to its own command;
    replicas converge while their clocks agree on expiry and no hash is copied; a state machine snapshot below 4 GiB whose commands are within the limits of the reader
    restores the keyspace, with deadlines truncated to the millisecond.
  \<^item> A client receives exactly the dispatcher's replies over the wire, as long as each is one frame within the limits; the redirect loop makes at most nine sends, eight dials and eight
    pauses, and reaches the leader; a
    script of the command line client prints those replies. The terminal UI never indexes out of range, never stops
    refreshing, draws every reachable state, and shows the server's keyspace and INFO. The metrics of a command have bounded
    labels; telemetry starts exactly when its library accepts everything, and shuts down what it installed.
  \<^item> Where the code does not do what it means to, the behaviour is proved as it is (lemmas, not claims): an INCR during a rewrite is applied twice; two concurrent SETs may be
    logged in the other order than they were applied; a fresh log may be missing after a power failure and an append acknowledged after a failed fsync may be lost; a
    PERSISTed key is lost by a late restart; a logged RENAME of an expired key blocks the start; COPY of a hash shares its
    field order; clocks on different sides of a deadline make replicas diverge; a confirmed DEL may delete another key than the prompt names; a followed redirect is unauthenticated.

  \<^bold>\<open>Bounds and termination.\<close> All recursions terminate: readers by the length of the input and the depth limit 32, SCAN by the
    sequence counter, redirects by the limit of eight, loops over events by the list of events. Fuel appears only as the
    number of calls of a SCAN iteration, with the proof that one call per key and one more are enough. WAIT and Raft
    proposals that never answer are \<^const>\<open>None\<close>. Integers keep their width where the code relies on it (INCR, deadlines, sequence
    counters, cursors, frame lengths of snapshots).

  \<^bold>\<open>Parameters.\<close> Code outside the repository is an argument of the definitions that use it: ToyRaft (constructors and
    committed entries), float formatting and \<^verbatim>\<open>strconv.Quote\<close>, name resolution, clocks, the visiting order of Go maps, the network, Bubble Tea and
    lipgloss, OpenTelemetry, TLS key loading, SHA-256.

  \<^bold>\<open>Not modelled.\<close> Interleavings of the goroutines inside one request: the store operation of a handler holds the store's mutex and the
    append to the log holds the writer's, but the store's is released in between; here a request is one step, so what a second connection does in that
    window is outside of the model, except for the lemma on concurrent SETs, which composes the halves of two requests. Interleavings between requests, such as SCAN with writes, rewrites with
    writes, and replies with commits, are explicit steps; BGREWRITEAOF only raises the flag of the rewrite, whose goroutine is the step \<open>runRewrite\<close>. The flag package, signal handlers, the texts of log lines, and the telemetry recorded outside
    \<^verbatim>\<open>observeCommand\<close> (the \<^verbatim>\<open>aof.append\<close> span and the counter of appended bytes, which show the length of a record; keyspace hits and
    misses; AUTH attempts; connection counters): output that nothing reads back. The TLS and TCP stacks: the operating system's and Go's.
\<close>

end
